(* ===== verification/Js_Prelude.thy ===== *)
theory Js_Prelude
  imports Complex_Main "HOL-Library.Sublist" "HOL-Library.AList"
    "HOL-Library.Char_ord" "HOL-Library.List_Lexorder"
begin

text \<open>
  The vocabulary shared by every component theory: the JavaScript values the controller
  computes with, the parts of the language's standard library its code calls, the controller's
  error values, and the generic list lemmas the component proofs rest on.

  Strings are lists of code units below 256 (the Latin-1 range, where a UTF-16 code unit and a
  code point coincide); on that range \<open>trim\<close>, \<open>toLowerCase\<close> and the relational
  order are modelled exactly. Numbers are exact: integers are \<open>int\<close> or \<open>nat\<close>,
  fractional quantities \<open>rat\<close>; the rounding of binary floating point is not modelled.
\<close>

named_theorems js_simps \<open>evaluation rules for the library operations\<close>

section \<open>JSON values and error values\<close>

datatype json =
    JNull
  | JBool bool
  | JNum rat
  | JStr string
  | JArr "json list"
  | JObj "(string \<times> json) list"

text \<open>
  Thrown values: the controller's own error class with its message, HTTP status, code and
  detail record (\<^verbatim>\<open>controller/server/domain/errors.ts\<close>), a schema rejection,
  and a plain \<open>Error\<close> with its message.
\<close>

datatype thrown =
    ControllerError (err_message: string) (err_status: nat) (err_code: string)
      (err_detail: "(string \<times> json) list")
  | ZodError
  | JsError string

definition NotFoundError :: "string \<Rightarrow> string \<Rightarrow> thrown" where
  "NotFoundError resource key = ControllerError (resource @ '' '' @ key @ '' was not found.'') 404
     ''not_found'' [(''resource'', JStr resource), (''id'', JStr key)]"

definition ConflictError :: "string \<Rightarrow> string \<Rightarrow> (string \<times> json) list \<Rightarrow> thrown" where
  "ConflictError msg code detail = ControllerError msg 409 code detail"

definition ValidationError :: "string \<Rightarrow> (string \<times> json) list \<Rightarrow> thrown" where
  "ValidationError msg detail = ControllerError msg 422 ''validation_failed'' detail"

text \<open>
  Fallible code returns \<open>'e + 'a\<close>, with \<open>Inl\<close> the thrown value.
  \<open>throwing\<close> recognises the failing outcomes.
\<close>

abbreviation throwing :: "'e + 'a \<Rightarrow> bool" where
  "throwing r \<equiv> isl r"

definition and_then :: "'e + 'a \<Rightarrow> ('a \<Rightarrow> 'e + 'b) \<Rightarrow> 'e + 'b" where
  "and_then r f = (case r of Inl e \<Rightarrow> Inl e | Inr x \<Rightarrow> f x)"

lemma and_then_simps [simp, js_simps]:
  "and_then (Inl e) f = Inl e"
  "and_then (Inr x) f = f x"
  by (simp_all add: and_then_def)

lemma and_then_eq_Inr: "and_then r f = Inr y \<longleftrightarrow> (\<exists>x. r = Inr x \<and> f x = Inr y)"
  by (cases r) simp_all

text \<open>A loop whose body may throw.\<close>

fun fold_result :: "('a \<Rightarrow> 's \<Rightarrow> 'e + 's) \<Rightarrow> 'a list \<Rightarrow> 's \<Rightarrow> 'e + 's" where
  "fold_result f [] s = Inr s"
| "fold_result f (x # xs) s = and_then (f x s) (fold_result f xs)"

section \<open>Characters and strings\<close>

definition js_code :: "char \<Rightarrow> nat" where
  "js_code c = of_char c"

text \<open>White space and line terminators of the language below 256: tab, line feed,
  vertical tab, form feed, carriage return, space and the no-break space.\<close>

definition js_space :: "char \<Rightarrow> bool" where
  "js_space c = (let n = js_code c in (9 \<le> n \<and> n \<le> 13) \<or> n = 32 \<or> n = 160)"

definition js_trim :: "string \<Rightarrow> string" where
  "js_trim s = rev (dropWhile js_space (rev (dropWhile js_space s)))"

text \<open>\<open>toLowerCase\<close>: \<open>A\<close> to \<open>Z\<close> and the upper-case letters 192 to 222, except
  the multiplication sign 215.\<close>

definition js_lower_char :: "char \<Rightarrow> char" where
  "js_lower_char c = (let n = js_code c in
     if (65 \<le> n \<and> n \<le> 90) \<or> (192 \<le> n \<and> n \<le> 222 \<and> n \<noteq> 215) then char_of (n + 32) else c)"

definition js_lower :: "string \<Rightarrow> string" where
  "js_lower = map js_lower_char"

text \<open>\<open>s.startsWith p\<close>, \<open>s.endsWith p\<close>, \<open>s.includes p\<close>, \<open>s.split c\<close> for a
  one-character separator, and \<open>xs.join s\<close>.\<close>

definition js_startsWith :: "string \<Rightarrow> string \<Rightarrow> bool" where
  "js_startsWith s p = prefix p s"

definition js_endsWith :: "string \<Rightarrow> string \<Rightarrow> bool" where
  "js_endsWith s p = suffix p s"

definition js_includes :: "string \<Rightarrow> string \<Rightarrow> bool" where
  "js_includes s p = sublist p s"

fun js_split :: "char \<Rightarrow> string \<Rightarrow> string list" where
  "js_split c [] = [[]]"
| "js_split c (x # xs) =
     (if x = c then [] # js_split c xs
      else (case js_split c xs of [] \<Rightarrow> [[x]] | w # ws \<Rightarrow> (x # w) # ws))"

fun js_join :: "string \<Rightarrow> string list \<Rightarrow> string" where
  "js_join sep [] = []"
| "js_join sep [w] = w"
| "js_join sep (w # ws) = w @ sep @ js_join sep ws"

text \<open>Decimal numerals: \<open>String(n)\<close> of an integer.\<close>

fun digits :: "nat \<Rightarrow> string" where
  "digits n = (if n < 10 then [char_of (48 + n)] else digits (n div 10) @ [char_of (48 + n mod 10)])"

declare digits.simps [simp del]

definition int_text :: "int \<Rightarrow> string" where
  "int_text i = (if i < 0 then CHR ''-'' # digits (nat (- i)) else digits (nat i))"

lemma js_split_not_Nil [simp]: "js_split c s \<noteq> []"
  by (induction s) (auto split: list.splits)

lemma js_join_split: "js_join [c] (js_split c s) = s"
proof (induction s)
  case (Cons x xs)
  obtain w ws where w: "js_split c xs = w # ws"
    using js_split_not_Nil by (meson neq_Nil_conv)
  with Cons show ?case by (cases ws) auto
qed simp

lemma js_split_unfold:
  "js_split c s = takeWhile (\<lambda>x. x \<noteq> c) s #
     (case dropWhile (\<lambda>x. x \<noteq> c) s of [] \<Rightarrow> [] | _ # r \<Rightarrow> js_split c r)"
  by (induction s) auto

lemma js_split_pieces: "w \<in> set (js_split c s) \<Longrightarrow> c \<notin> set w"
  by (induction s arbitrary: w) (auto split: list.splits if_splits)

lemma dropWhile_fixed_rev:
  assumes "dropWhile P (rev xs) = rev xs"
  shows "dropWhile P (rev (dropWhile P xs)) = rev (dropWhile P xs)"
proof (cases "dropWhile P xs = []")
  case False
  then have "last (dropWhile P xs) = last xs"
    by (metis last_appendR takeWhile_dropWhile_id)
  with assms False show ?thesis
    by (auto simp: dropWhile_eq_self_iff hd_rev)
next
  case True
  then show ?thesis by (metis dropWhile.simps(1) rev.simps(1))
qed

lemma dropWhile_idem [simp]: "dropWhile P (dropWhile P xs) = dropWhile P xs"
  by (induction xs) auto

lemma js_trim_idem: "js_trim (js_trim s) = js_trim s"
  using dropWhile_fixed_rev [of js_space "rev (dropWhile js_space s)"]
  by (simp add: js_trim_def)

section \<open>Sets, maps and searches over lists\<close>

text \<open>\<open>[...new Set(xs)]\<close> keeps the first occurrence of every element.\<close>

fun js_unique :: "'a list \<Rightarrow> 'a list" where
  "js_unique [] = []"
| "js_unique (x # xs) = x # filter (\<lambda>y. y \<noteq> x) (js_unique xs)"

lemma set_js_unique [simp]: "set (js_unique xs) = set xs"
  by (induction xs) auto

lemma distinct_js_unique [simp]: "distinct (js_unique xs)"
  by (induction xs) auto

lemma js_unique_id: "distinct xs \<Longrightarrow> js_unique xs = xs"
  by (induction xs) (auto simp: filter_id_conv)

text \<open>\<open>[...new Map(entries)]\<close>: a repeated key keeps its first position and its last value.\<close>

definition map_entries :: "('a \<times> 'b) list \<Rightarrow> ('a \<times> 'b) list" where
  "map_entries al = map (\<lambda>k. (k, the (map_of (rev al) k))) (js_unique (map fst al))"

text \<open>A search that stops at the first hit: what \<open>find\<close> returns was preceded by
  elements that do not satisfy the predicate only.\<close>

lemma find_first:
  "List.find P xs = Some x \<longleftrightarrow>
     (\<exists>ys zs. xs = ys @ x # zs \<and> P x \<and> (\<forall>y\<in>set ys. \<not> P y))"
proof (induction xs)
  case (Cons a xs)
  show ?case
  proof (cases "P a")
    case True
    then show ?thesis by (auto simp: Cons_eq_append_conv)
  next
    case False
    then have "(\<exists>ys zs. a # xs = ys @ x # zs \<and> P x \<and> (\<forall>y\<in>set ys. \<not> P y)) \<longleftrightarrow>
        (\<exists>ys zs. xs = ys @ x # zs \<and> P x \<and> (\<forall>y\<in>set ys. \<not> P y))"
    proof (intro iffI; elim exE conjE)
      fix ys zs
      assume eq: "a # xs = ys @ x # zs" and "P x" "\<forall>y\<in>set ys. \<not> P y" "\<not> P a"
      moreover from eq \<open>P x\<close> \<open>\<not> P a\<close> obtain ys' where "ys = a # ys'" by (cases ys) auto
      ultimately show "\<exists>ys zs. xs = ys @ x # zs \<and> P x \<and> (\<forall>y\<in>set ys. \<not> P y)" by auto
    next
      fix ys zs
      assume "xs = ys @ x # zs" "P x" "\<forall>y\<in>set ys. \<not> P y" "\<not> P a"
      then show "\<exists>ys zs. a # xs = ys @ x # zs \<and> P x \<and> (\<forall>y\<in>set ys. \<not> P y)"
        by - (rule exI [of _ "a # ys"], rule exI [of _ zs], simp)
    qed
    with False show ?thesis by (simp add: Cons)
  qed
qed simp

lemma find_Some_mem: "List.find P xs = Some x \<Longrightarrow> x \<in> set xs \<and> P x"
  by (auto simp: find_first)

text \<open>\<open>Object.fromEntries\<close> over a list that contributes at most one entry per key.\<close>

lemma map_of_optional_entries:
  assumes "inj name"
  shows "map_of (concat (map (\<lambda>m. case f m of Some g \<Rightarrow> [(name m, g)] | None \<Rightarrow> []) ms)) (name m) =
    (if m \<in> set ms then f m else None)"
  by (induction ms) (auto simp: map_add_def injD [OF assms] inj_eq [OF assms] split: option.splits)

lemma map_of_filtered_entries:
  assumes "distinct (map fst al)"
  shows "map_of (concat (map (\<lambda>(k, v). case h k v of Some w \<Rightarrow> [(k, w)] | None \<Rightarrow> []) al)) k =
    Option.bind (map_of al k) (h k)"
  using assms
proof (induction al)
  case (Cons e al)
  obtain a b where e: "e = (a, b)" by (cases e)
  have "map_of al a = None" using Cons.prems e by (simp add: map_of_eq_None_iff)
  then show ?case using Cons by (auto simp: e map_add_def split: option.splits)
qed simp

section \<open>Reachable states\<close>

text \<open>
  The interface of a component with state, for its safety proofs: initial states, a step relation
  and an invariant that the initial states satisfy and every step keeps. The lemma proved here
  once is what each component uses after an interpretation on its own definitions.
\<close>

inductive reach :: "('s \<Rightarrow> bool) \<Rightarrow> ('s \<Rightarrow> 's \<Rightarrow> bool) \<Rightarrow> 's \<Rightarrow> bool"
  for init and step where
  reach_init: "init s \<Longrightarrow> reach init step s"
| reach_step: "reach init step s \<Longrightarrow> step s t \<Longrightarrow> reach init step t"

locale invariant_system =
  fixes init :: "'s \<Rightarrow> bool" and step :: "'s \<Rightarrow> 's \<Rightarrow> bool" and inv :: "'s \<Rightarrow> bool"
  assumes inv_init: "init s \<Longrightarrow> inv s"
    and inv_step: "inv s \<Longrightarrow> step s t \<Longrightarrow> inv t"
begin

lemma reachable_inv: "reach init step s \<Longrightarrow> inv s"
  by (induction rule: reach.induct) (auto intro: inv_init inv_step)

end

end
