(* ===== verification/Rbac.thy ===== *)
theory Rbac
  imports Js_Prelude
begin

text \<open>
  Account roles and the resources they may read or write
  (\<^verbatim>\<open>controller/shared/rbac.ts\<close>), and the console page gate built on them.
\<close>

section \<open>Roles, resources and grants\<close>

datatype AccountRole = Admin | User

datatype AccessAction = Read | Write

datatype PermissionResource =
    Guardrails | Policies | Playground | Routers | Endpoints | Models | Runners | Runtime
  | Audit | Providers | ModelConfiguration | ModelPricing | Projects | ProjectGroups | Users

definition permissionResources :: "PermissionResource list" where
  "permissionResources = [Guardrails, Policies, Playground, Routers, Endpoints, Models, Runners,
     Runtime, Audit, Providers, ModelConfiguration, ModelPricing, Projects, ProjectGroups, Users]"

text \<open>The property names of the resources, as they occur in stored grants.\<close>

fun resource_name :: "PermissionResource \<Rightarrow> string" where
  "resource_name Guardrails = ''guardrails''"
| "resource_name Policies = ''policies''"
| "resource_name Playground = ''playground''"
| "resource_name Routers = ''routers''"
| "resource_name Endpoints = ''endpoints''"
| "resource_name Models = ''models''"
| "resource_name Runners = ''runners''"
| "resource_name Runtime = ''runtime''"
| "resource_name Audit = ''audit''"
| "resource_name Providers = ''providers''"
| "resource_name ModelConfiguration = ''modelConfiguration''"
| "resource_name ModelPricing = ''modelPricing''"
| "resource_name Projects = ''projects''"
| "resource_name ProjectGroups = ''projectGroups''"
| "resource_name Users = ''users''"

fun access_name :: "AccessAction \<Rightarrow> string" where
  "access_name Read = ''read''"
| "access_name Write = ''write''"

lemma resource_name_inject [simp]: "resource_name r = resource_name s \<longleftrightarrow> r = s"
  by (cases r; cases s) simp_all

fun rolePermissions :: "AccountRole \<Rightarrow> PermissionResource \<Rightarrow> AccessAction option" where
  "rolePermissions Admin r =
     (if r \<in> {Guardrails, Policies, Playground, Routers, Endpoints} then Some Read
      else if r \<in> {Models, Runners, Providers, ModelConfiguration, ModelPricing} then Some Write
      else if r \<in> {Projects, ProjectGroups, Users} then Some Write
      else if r = Audit then Some Read
      else None)"
| "rolePermissions User r =
     (if r \<in> {Guardrails, Policies, Playground, Routers, Endpoints} then Some Write
      else if r = Models then Some Write
      else if r \<in> {Providers, ModelConfiguration, Runtime, Runners} then Some Read
      else None)"

text \<open>Roles arrive as nullable strings; \<open>isAccountRole\<close> is the type guard and
  \<open>account_role\<close> the narrowed value.\<close>

definition isAccountRole :: "string option \<Rightarrow> bool" where
  "isAccountRole role = (role = Some ''admin'' \<or> role = Some ''user'')"

definition account_role :: "string option \<Rightarrow> AccountRole option" where
  "account_role role = (if role = Some ''admin'' then Some Admin
     else if role = Some ''user'' then Some User else None)"

definition accountPermission ::
  "string option \<Rightarrow> PermissionResource \<Rightarrow> AccessAction option" where
  "accountPermission role resource =
     (case account_role role of Some r \<Rightarrow> rolePermissions r resource | None \<Rightarrow> None)"

definition hasPermission ::
  "string option \<Rightarrow> PermissionResource \<Rightarrow> AccessAction \<Rightarrow> bool" where
  "hasPermission role resource action =
     (let granted = accountPermission role resource
      in granted = Some Write \<or> granted = Some action)"

definition isPlatformAdministrator :: "string option \<Rightarrow> bool" where
  "isPlatformAdministrator role = (role = Some ''admin'')"

definition roleHome :: "string option \<Rightarrow> string" where
  "roleHome role = (if isPlatformAdministrator role then ''/settings/providers'' else ''/'')"

section \<open>Console pages\<close>

definition strip_trailing_slash :: "string \<Rightarrow> string" where
  "strip_trailing_slash p =
     (if p \<noteq> [] \<and> last p = CHR ''/'' then butlast p else p)"

definition pageRoutes :: "(string \<times> PermissionResource \<times> AccessAction) list" where
  "pageRoutes = [
     (''/settings/providers'', Providers, Write), (''/settings/project-groups'', ProjectGroups, Read),
     (''/access/projects'', Projects, Read), (''/settings/pricing'', ModelPricing, Read),
     (''/settings'', ModelConfiguration, Write), (''/access'', Users, Read),
     (''/'', Runtime, Read), (''/billing'', Runtime, Read), (''/logs'', Runtime, Read),
     (''/audit-log'', Audit, Read),
     (''/guardrails'', Guardrails, Write), (''/policy-library'', Policies, Write),
     (''/playground'', Playground, Write), (''/integration/routers'', Routers, Write),
     (''/integration/endpoints'', Endpoints, Write)]"

definition page_matches :: "string \<Rightarrow> string \<Rightarrow> bool" where
  "page_matches path pre = (path = pre \<or> js_startsWith path (pre @ ''/''))"

definition pagePermission :: "string \<Rightarrow> (PermissionResource \<times> AccessAction) option" where
  "pagePermission pathname =
     (let stripped = strip_trailing_slash pathname;
          path = (if stripped = [] then ''/'' else stripped)
      in if path \<in> set [''/settings'', ''/settings/health'', ''/settings/runner'', ''/settings/version'']
         then Some (Runners, Read)
         else map_option snd (List.find (\<lambda>r. page_matches path (fst r)) pageRoutes))"

section \<open>The contract of a grant table\<close>

text \<open>
  What the clients of a grant table rely on: a decision \<open>allows\<close> that is closed
  downwards (write includes read) and grants nothing where the table has no entry.
\<close>

locale grant_table =
  fixes granted :: "'subject \<Rightarrow> 'resource \<Rightarrow> AccessAction option"
    and allows :: "'subject \<Rightarrow> 'resource \<Rightarrow> AccessAction \<Rightarrow> bool"
  assumes allows_granted: "allows s r a \<longleftrightarrow> granted s r = Some Write \<or> granted s r = Some a"
begin

lemma write_includes_read: "allows s r Write \<Longrightarrow> allows s r a"
  by (simp add: allows_granted)

lemma missing_denies: "granted s r = None \<Longrightarrow> \<not> allows s r a"
  by (simp add: allows_granted)

lemma read_only: "granted s r = Some Read \<Longrightarrow> allows s r a \<longleftrightarrow> a = Read"
  by (cases a) (simp_all add: allows_granted)

end

interpretation account: grant_table accountPermission hasPermission
  by unfold_locales (simp add: hasPermission_def Let_def)

lemma account_role_simps [simp]:
  "account_role (Some ''admin'') = Some Admin"
  "account_role (Some ''user'') = Some User"
  "account_role None = None"
  by (simp_all add: account_role_def)

lemma isAccountRole_iff: "isAccountRole role \<longleftrightarrow> account_role role \<noteq> None"
  by (simp add: isAccountRole_def account_role_def)

lemma accountPermission_unknown: "\<not> isAccountRole role \<Longrightarrow> accountPermission role r = None"
  by (simp add: isAccountRole_iff accountPermission_def)

lemma hasPermission_role: "hasPermission role r a \<Longrightarrow> isAccountRole role"
  by (cases "isAccountRole role") (auto simp: accountPermission_unknown account.missing_denies)

lemma hasPermission_admin:
  "hasPermission (Some ''admin'') r a \<longleftrightarrow>
     r \<in> {Models, Runners, Providers, ModelConfiguration, ModelPricing, Projects, ProjectGroups, Users}
     \<or> a = Read \<and> r \<in> {Guardrails, Policies, Playground, Routers, Endpoints, Audit}"
  by (cases r; cases a) (simp_all add: hasPermission_def accountPermission_def Let_def)

lemma hasPermission_user:
  "hasPermission (Some ''user'') r a \<longleftrightarrow>
     r \<in> {Guardrails, Policies, Playground, Routers, Endpoints, Models}
     \<or> a = Read \<and> r \<in> {Providers, ModelConfiguration, Runtime, Runners}"
  by (cases r; cases a) (simp_all add: hasPermission_def accountPermission_def Let_def)

end
