(* ===== verification/Route_Permissions.thy ===== *)
theory Route_Permissions
  imports Rbac
begin

text \<open>
  The route allowlist shared by session authorisation and token scopes
  (\<^verbatim>\<open>controller/server/http/token-permissions.ts\<close>): the table itself, the
  regular expression each route template is turned into, the first-match lookup and the two
  decisions derived from it. The equivalence of the regular-expression matcher with a comparison
  of path segments is what makes the table readable as a table of paths.
\<close>

section \<open>Route templates\<close>

text \<open>
  A template is compiled by replacing every \<open>:name\<close> (a colon followed by one or more
  characters other than a slash) by the class \<open>[^/]+\<close> and anchoring the result. Every other
  character of a template stands for itself; \<open>template_plain\<close> below checks that no template
  holds a character with a meaning in regular expressions.
\<close>

datatype route_token = Lit char | Segment

function (sequential) template_tokens :: "string \<Rightarrow> route_token list" where
  "template_tokens [] = []"
| "template_tokens (c # cs) =
     (if c = CHR '':'' \<and> takeWhile (\<lambda>x. x \<noteq> CHR ''/'') cs \<noteq> []
      then Segment # template_tokens (dropWhile (\<lambda>x. x \<noteq> CHR ''/'') cs)
      else Lit c # template_tokens cs)"
  by pat_completeness auto
termination
  by (relation "measure length") (auto simp: le_imp_less_Suc length_dropWhile_le)

text \<open>Anchored matching. \<open>Segment\<close> takes one character other than a slash and then either
  stops or goes on, which is the meaning of \<open>[^/]+\<close>.\<close>

function route_match :: "route_token list \<Rightarrow> string \<Rightarrow> bool" where
  "route_match [] s = (s = [])"
| "route_match (Lit c # ts) s = (case s of [] \<Rightarrow> False | x # xs \<Rightarrow> x = c \<and> route_match ts xs)"
| "route_match (Segment # ts) s =
     (case s of [] \<Rightarrow> False
      | x # xs \<Rightarrow> x \<noteq> CHR ''/'' \<and> (route_match ts xs \<or> route_match (Segment # ts) xs))"
  by pat_completeness auto
termination
  by (relation "measures [\<lambda>(ts, s). length s, \<lambda>(ts, s). length ts]") auto

declare route_match.simps(3) [simp del]

definition template_matches :: "string \<Rightarrow> string \<Rightarrow> bool" where
  "template_matches template path = route_match (template_tokens template) path"

section \<open>The table and its lookup\<close>

definition tokenRoutePermissions ::
  "(string \<times> string \<times> PermissionResource \<times> AccessAction) list" where
  "tokenRoutePermissions = [
     (''GET'', ''/api/v1/policies/:id/versions/:version/test-readiness'', Policies, Read),
     (''POST'', ''/api/v1/policies/:id/versions/:version/test-runs'', Policies, Write),
     (''GET'', ''/api/v1/policies/:id/versions/:version/test-runs/:runId'', Policies, Read),
     (''GET'', ''/api/v1/policies/:id/versions/:version/test-runs/:runId/evidence'', Policies, Read),
     (''GET'', ''/api/v1/test-runs/:runId/cases/:ordinal/evidence'', Guardrails, Read),
     (''GET'', ''/api/v1/projects'', Projects, Read),
     (''POST'', ''/api/v1/projects'', Projects, Write),
     (''GET'', ''/api/v1/projects/:projectId/members'', Projects, Read),
     (''GET'', ''/api/v1/projects/:projectId/member-candidates'', Projects, Read),
     (''PUT'', ''/api/v1/projects/:projectId/members/:userId'', Projects, Write),
     (''DELETE'', ''/api/v1/projects/:projectId/members/:userId'', Projects, Write),
     (''GET'', ''/api/v1/project-groups/:id/projects'', Projects, Read),
     (''GET'', ''/api/v1/projects/:id/runner'', Projects, Read),
     (''PUT'', ''/api/v1/projects/:id/runner'', Projects, Write),
     (''GET'', ''/api/v1/project-groups'', ProjectGroups, Read),
     (''GET'', ''/api/v1/project-groups/:id'', ProjectGroups, Read),
     (''GET'', ''/api/v1/project-groups/:id/pools'', ProjectGroups, Read),
     (''POST'', ''/api/v1/project-groups'', ProjectGroups, Write),
     (''PATCH'', ''/api/v1/project-groups/:id'', ProjectGroups, Write),
     (''DELETE'', ''/api/v1/project-groups/:id'', ProjectGroups, Write),
     (''POST'', ''/api/v1/project-groups/:id/pools'', ProjectGroups, Write),
     (''GET'', ''/api/v1/project-groups/:id/model-configuration'', ModelConfiguration, Read),
     (''PUT'', ''/api/v1/project-groups/:id/model-configuration'', ModelConfiguration, Write),
     (''PUT'', ''/api/v1/projects/:id/group'', Projects, Write),
     (''PUT'', ''/api/v1/runner-pools/:id/connectivity'', Runners, Write),
     (''GET'', ''/api/v1/project-admission-monitor'', ProjectGroups, Read),
     (''GET'', ''/api/v1/guardrail-capabilities'', Guardrails, Read),
     (''GET'', ''/api/v1/policy-catalog/detectors'', Policies, Read),
     (''GET'', ''/api/v1/policies/:id/definition'', Policies, Read),
     (''PUT'', ''/api/v1/policies/:id/definition'', Policies, Write),
     (''POST'', ''/api/v1/policies/:id/definition/test-runs'', Policies, Write),
     (''GET'', ''/api/v1/policies/:id/definition/test-runs/latest'', Policies, Read),
     (''GET'', ''/api/v1/policies/:id/definition/test-runs/:runId'', Policies, Read),
     (''POST'', ''/api/v1/policies/:id/definition/publish'', Policies, Write),
     (''POST'', ''/api/v1/model-configuration/draft/assignments/:target/candidate-validations'', ModelConfiguration, Write),
     (''GET'', ''/api/v1/model-configuration/draft/assignments/:target/candidate-validations/:validationId'', ModelConfiguration, Read),
     (''GET'', ''/api/v1/policies/:id/test-runs/:runId'', Policies, Read),
     (''GET'', ''/api/v1/routers/:id/revisions/:revision'', Routers, Read),
     (''GET'', ''/api/v1/model-configuration'', ModelConfiguration, Read),
     (''GET'', ''/api/v1/model-providers'', Providers, Read),
     (''POST'', ''/api/v1/model-providers'', Providers, Write),
     (''PATCH'', ''/api/v1/model-providers/:id'', Providers, Write),
     (''POST'', ''/api/v1/model-provider-discoveries'', Providers, Write),
     (''POST'', ''/api/v1/model-provider-registrations'', Providers, Write),
     (''POST'', ''/api/v1/model-providers/:id/connection-tests'', Providers, Write),
     (''POST'', ''/api/v1/model-providers/:id/model-discoveries'', Providers, Write),
     (''DELETE'', ''/api/v1/model-providers/:id'', Providers, Write),
     (''GET'', ''/api/v1/model-pricing'', ModelPricing, Read),
     (''GET'', ''/api/v1/model-pricing/catalog'', ModelPricing, Read),
     (''PUT'', ''/api/v1/models/:id/pricing'', ModelPricing, Write),
     (''GET'', ''/api/v1/guardrails/:id/usage-costs'', Guardrails, Read),
     (''GET'', ''/api/v1/models'', Models, Read),
     (''POST'', ''/api/v1/models'', Models, Write),
     (''POST'', ''/api/v1/models/:id/capability-tests'', Models, Write),
     (''POST'', ''/api/v1/models/:id/connection-tests'', Models, Write),
     (''PUT'', ''/api/v1/models/:id/runtime-settings'', Models, Write),
     (''PUT'', ''/api/v1/models/:id/protocol'', Models, Write),
     (''DELETE'', ''/api/v1/models/:id'', Models, Write),
     (''PUT'', ''/api/v1/model-configuration/draft'', ModelConfiguration, Write),
     (''PUT'', ''/api/v1/model-configuration/draft/assignments/:target'', ModelConfiguration, Write),
     (''POST'', ''/api/v1/model-configuration/draft/assignments/:target/validations'', ModelConfiguration, Write),
     (''POST'', ''/api/v1/model-configuration/draft/validations'', ModelConfiguration, Write),
     (''POST'', ''/api/v1/model-configuration/apply'', ModelConfiguration, Write),
     (''GET'', ''/api/v1/policies'', Policies, Read),
     (''GET'', ''/api/v1/guardrail-profiles'', Policies, Read),
     (''GET'', ''/api/v1/guardrail-profiles/:id/package'', Policies, Read),
     (''POST'', ''/api/v1/guardrail-profiles/import'', Policies, Write),
     (''GET'', ''/api/v1/policy-catalog/protection-presets'', Policies, Read),
     (''GET'', ''/api/v1/policies/:id'', Policies, Read),
     (''POST'', ''/api/v1/policies'', Policies, Write),
     (''PATCH'', ''/api/v1/policies/:id'', Policies, Write),
     (''DELETE'', ''/api/v1/policies/:id'', Policies, Write),
     (''GET'', ''/api/v1/policies/:id/draft/checks'', Policies, Read),
     (''GET'', ''/api/v1/policies/:id/test-runs/latest'', Policies, Read),
     (''POST'', ''/api/v1/policies/:id/test-runs'', Policies, Write),
     (''POST'', ''/api/v1/policies/:id/publish'', Policies, Write),
     (''GET'', ''/api/v1/policy-catalog/actions'', Policies, Read),
     (''GET'', ''/api/v1/authoring/capabilities'', Guardrails, Read),
     (''POST'', ''/api/v1/authoring/intent-analyses'', Guardrails, Write),
     (''POST'', ''/api/v1/authoring/document-analyses'', Guardrails, Write),
     (''GET'', ''/api/v1/guardrails'', Guardrails, Read),
     (''GET'', ''/api/v1/playground/models'', Playground, Read),
     (''POST'', ''/api/v1/playground/guardrails/:guardrailId/draft-previews'', Playground, Write),
     (''POST'', ''/api/v1/playground/guardrails/:guardrailId/draft-interactions'', Playground, Write),
     (''POST'', ''/api/v1/playground/guardrails/:guardrailId/interactions'', Playground, Write),
     (''POST'', ''/api/v1/authoring/plan-previews'', Guardrails, Write),
     (''POST'', ''/api/v1/guardrails'', Guardrails, Write),
     (''GET'', ''/api/v1/guardrails/:id'', Guardrails, Read),
     (''GET'', ''/api/v1/guardrails/:id/package'', Guardrails, Read),
     (''POST'', ''/api/v1/guardrail-packages'', Guardrails, Write),
     (''GET'', ''/api/v1/guardrail-packages/:packageId'', Guardrails, Read),
     (''POST'', ''/api/v1/guardrail-packages/:packageId/imports'', Guardrails, Write),
     (''POST'', ''/api/v1/guardrails/:id/versions/:version/environment-check'', Guardrails, Write),
     (''POST'', ''/api/v1/guardrails/:id/duplicate'', Guardrails, Write),
     (''PATCH'', ''/api/v1/guardrails/:id'', Guardrails, Write),
     (''POST'', ''/api/v1/guardrails/:id/publish'', Guardrails, Write),
     (''GET'', ''/api/v1/guardrails/:id/draft-changes'', Guardrails, Read),
     (''POST'', ''/api/v1/guardrails/:id/discard-draft'', Guardrails, Write),
     (''GET'', ''/api/v1/guardrails/:id/versions/:version/test-suite'', Guardrails, Read),
     (''POST'', ''/api/v1/guardrails/:id/versions/:version/test-runs'', Guardrails, Write),
     (''POST'', ''/api/v1/guardrails/:id/versions/:version/release'', Guardrails, Write),
     (''GET'', ''/api/v1/guardrails/:id/versions/:version/deletion-impact'', Guardrails, Read),
     (''DELETE'', ''/api/v1/guardrails/:id/versions/:version'', Guardrails, Write),
     (''GET'', ''/api/v1/guardrails/:id/protection-mode'', Guardrails, Read),
     (''PATCH'', ''/api/v1/guardrails/:id/protection-mode'', Guardrails, Write),
     (''GET'', ''/api/v1/guardrails/:id/logging'', Guardrails, Read),
     (''PATCH'', ''/api/v1/guardrails/:id/logging'', Guardrails, Write),
     (''GET'', ''/api/v1/guardrails/:id/deletion-impact'', Guardrails, Read),
     (''DELETE'', ''/api/v1/guardrails/:id'', Guardrails, Write),
     (''GET'', ''/api/v1/guardrails/:guardrailId/test-cases'', Guardrails, Read),
     (''POST'', ''/api/v1/guardrails/:guardrailId/test-cases'', Guardrails, Write),
     (''DELETE'', ''/api/v1/guardrails/:guardrailId/test-cases/:caseId'', Guardrails, Write),
     (''PATCH'', ''/api/v1/guardrails/:id/test-scope'', Guardrails, Write),
     (''GET'', ''/api/v1/test-runs'', Guardrails, Read),
     (''GET'', ''/api/v1/test-runs/:runId'', Guardrails, Read),
     (''GET'', ''/api/v1/test-runs/:runId/cases'', Guardrails, Read),
     (''GET'', ''/api/v1/test-runs/:runId/cases/:ordinal'', Guardrails, Read),
     (''GET'', ''/api/v1/test-runs/:runId/deletion-impact'', Guardrails, Read),
     (''DELETE'', ''/api/v1/test-runs/:runId'', Guardrails, Write),
     (''POST'', ''/api/v1/test-runs/:runId/cancel'', Guardrails, Write),
     (''POST'', ''/api/v1/guardrails/:guardrailId/test-runs'', Guardrails, Write),
     (''GET'', ''/api/v1/endpoints'', Endpoints, Read),
     (''POST'', ''/api/v1/endpoints'', Endpoints, Write),
     (''GET'', ''/api/v1/endpoints/:id'', Endpoints, Read),
     (''PATCH'', ''/api/v1/endpoints/:id'', Endpoints, Write),
     (''POST'', ''/api/v1/endpoints/:id/credentials'', Endpoints, Write),
     (''DELETE'', ''/api/v1/endpoints/:id/credentials/:credentialId'', Endpoints, Write),
     (''GET'', ''/api/v1/endpoints/:id/deletion-impact'', Endpoints, Read),
     (''DELETE'', ''/api/v1/endpoints/:id'', Endpoints, Write),
     (''POST'', ''/api/v1/playground/path-tests'', Playground, Write),
     (''GET'', ''/api/v1/system/version'', Runners, Read),
     (''GET'', ''/api/v1/system/health'', Runners, Read),
     (''GET'', ''/api/v1/runner-pools/:id'', Runners, Read),
     (''GET'', ''/api/v1/runner-pools'', Runners, Read),
     (''PATCH'', ''/api/v1/runner-pools/:id'', Runners, Write),
     (''DELETE'', ''/api/v1/runner-instances/:runnerId'', Runners, Write),
     (''GET'', ''/api/v1/routers'', Routers, Read),
     (''GET'', ''/api/v1/routers/:id'', Routers, Read),
     (''POST'', ''/api/v1/routers'', Routers, Write),
     (''PUT'', ''/api/v1/routers/:id/draft'', Routers, Write),
     (''DELETE'', ''/api/v1/routers/:id'', Routers, Write),
     (''POST'', ''/api/v1/routers/:id/publication-preview'', Routers, Write),
     (''GET'', ''/api/v1/routers/:id/change-requests'', Routers, Read),
     (''POST'', ''/api/v1/routers/:id/change-requests'', Routers, Write),
     (''GET'', ''/api/v1/routers/:id/change-requests/:changeId'', Routers, Read),
     (''POST'', ''/api/v1/routers/:id/change-requests/:changeId/approve'', Routers, Write),
     (''POST'', ''/api/v1/routers/:id/change-requests/:changeId/emergency-apply'', Routers, Write),
     (''POST'', ''/api/v1/routers/:id/change-requests/:changeId/reject'', Routers, Write),
     (''POST'', ''/api/v1/routers/:id/change-requests/:changeId/withdraw'', Routers, Write),
     (''POST'', ''/api/v1/routers/:id/change-requests/:changeId/revert'', Routers, Write),
     (''DELETE'', ''/api/v1/routers/:id/revisions/:revision'', Routers, Write),
     (''PUT'', ''/api/v1/routers/:id/endpoints'', Routers, Write),
     (''GET'', ''/api/v1/routers/:id/revisions'', Routers, Read),
     (''GET'', ''/api/v1/routers/:id/traffic-distribution'', Routers, Read),
     (''GET'', ''/api/v1/routers/:id/routes/:routeId/traffic-distribution'', Routers, Read),
     (''POST'', ''/api/v1/routers/:id/simulations'', Routers, Read),
     (''GET'', ''/api/v1/routing/selector-fields'', Routers, Read),
     (''GET'', ''/api/v1/telemetry/events'', Runtime, Read),
     (''GET'', ''/api/v1/telemetry/security-events'', Runtime, Read),
     (''GET'', ''/api/v1/telemetry/events/:id'', Runtime, Read),
     (''GET'', ''/api/v1/telemetry/endpoint-activity'', Runtime, Read),
     (''GET'', ''/api/v1/telemetry/metrics'', Runtime, Read),
     (''GET'', ''/api/v1/audit-events'', Audit, Read)]"

definition requiredTokenPermission ::
  "string \<Rightarrow> string \<Rightarrow> (string \<times> string \<times> PermissionResource \<times> AccessAction) option" where
  "requiredTokenPermission verb path =
     List.find (\<lambda>(m, template, _, _). m = verb \<and> template_matches template path)
       tokenRoutePermissions"

text \<open>\<open>/^\/api\/v1\/users(?:\/[^/]+)?$/\<close>\<close>

definition users_route :: "string \<Rightarrow> bool" where
  "users_route path = (path = ''/api/v1/users'' \<or>
     (js_startsWith path ''/api/v1/users/'' \<and> drop 14 path \<noteq> [] \<and> CHR ''/'' \<notin> set (drop 14 path)))"

definition requiredAccountPermission ::
  "string \<Rightarrow> string \<Rightarrow> (PermissionResource \<times> AccessAction) option" where
  "requiredAccountPermission verb path =
     (if verb = ''GET'' \<and> users_route path then Some (Users, Read)
      else map_option (\<lambda>(_, _, resource, action). (resource, action))
             (requiredTokenPermission verb path))"

datatype project_scope = Required | Optional

definition adminProjectScope :: "string \<Rightarrow> string \<Rightarrow> project_scope option" where
  "adminProjectScope verb path =
     (case requiredTokenPermission verb path of
        None \<Rightarrow> None
      | Some (_, _, resource, action) \<Rightarrow>
          if action \<noteq> Read then None
          else if path = ''/api/v1/models'' \<or> path = ''/api/v1/model-configuration'' then Some Optional
          else if path \<in> set [''/api/v1/guardrail-capabilities'', ''/api/v1/authoring/capabilities'',
                              ''/api/v1/policy-catalog/actions'', ''/api/v1/policy-catalog/detectors'']
               \<or> path = ''/api/v1/routing/selector-fields'' then None
          else if resource \<in> {Guardrails, Routers, Endpoints, Policies, Playground} then Some Required
          else None)"

section \<open>Templates as lists of path segments\<close>

text \<open>A template segment that starts with a colon accepts any nonempty path segment; every
  other one accepts itself only.\<close>

definition segment_accepts :: "string \<Rightarrow> string \<Rightarrow> bool" where
  "segment_accepts t p = (if t \<noteq> [] \<and> hd t = CHR '':'' then p \<noteq> [] else p = t)"

definition segment_plain :: "string \<Rightarrow> bool" where
  "segment_plain w = (if CHR '':'' \<in> set w then w \<noteq> [] \<and> hd w = CHR '':'' \<and> tl w \<noteq> []
     else list_all (\<lambda>c. c \<noteq> CHR 0x5C \<and> c \<notin> set ''^$.|?*+()[]{}'') w)"

definition template_plain :: "string \<Rightarrow> bool" where
  "template_plain t = list_all segment_plain (js_split CHR ''/'' t)"

abbreviation (input) until_slash :: "string \<Rightarrow> string" where
  "until_slash \<equiv> takeWhile (\<lambda>x. x \<noteq> CHR ''/'')"

abbreviation (input) from_slash :: "string \<Rightarrow> string" where
  "from_slash \<equiv> dropWhile (\<lambda>x. x \<noteq> CHR ''/'')"

lemma until_slash_all: "\<forall>x\<in>set (until_slash s). x \<noteq> CHR ''/''"
  by (induction s) auto

lemma from_slash_cases:
  obtains "from_slash s = []" | r where "from_slash s = CHR ''/'' # r" "length r < length s"
proof (cases "from_slash s")
  case (Cons x r)
  then have "x = CHR ''/''" by (auto simp: dropWhile_eq_Cons_conv)
  moreover have "length r < length s"
    using Cons length_dropWhile_le [of "\<lambda>x. x \<noteq> CHR ''/''" s] by simp
  ultimately show thesis using that Cons by blast
qed blast

lemma route_match_literals:
  "route_match (map Lit w @ ts) s \<longleftrightarrow> (\<exists>s'. s = w @ s' \<and> route_match ts s')"
  by (induction w arbitrary: s) (auto split: list.splits)

lemma template_tokens_literal:
  "CHR '':'' \<notin> set w \<Longrightarrow> template_tokens (w @ t) = map Lit w @ template_tokens t"
  by (induction w) auto

lemma route_match_segment:
  assumes "ts = [] \<or> (\<exists>us. ts = Lit CHR ''/'' # us)"
  shows "route_match (Segment # ts) s \<longleftrightarrow> until_slash s \<noteq> [] \<and> route_match ts (from_slash s)"
proof (induction s)
  case (Cons x xs)
  show ?case
  proof (cases "x = CHR ''/''")
    case False
    have "route_match ts xs \<or> until_slash xs \<noteq> [] \<and> route_match ts (from_slash xs) \<longleftrightarrow>
        route_match ts (from_slash xs)"
      using assms by (cases xs) auto
    with Cons False show ?thesis by (simp add: route_match.simps(3))
  qed (simp add: route_match.simps(3))
qed (simp add: route_match.simps(3))

text \<open>One step of both sides: the first segments are compared, the rest goes on behind the
  slashes.\<close>

lemma template_tokens_step:
  assumes "segment_plain (until_slash t)"
  shows "route_match (template_tokens t) s \<longleftrightarrow>
    segment_accepts (until_slash t) (until_slash s) \<and>
    route_match (template_tokens (from_slash t)) (from_slash s)"
proof (cases "CHR '':'' \<in> set (until_slash t)")
  case True
  with assms obtain u where t: "t = CHR '':'' # u" and u: "until_slash u \<noteq> []"
    by (cases t) (auto simp: segment_plain_def split: if_splits)
  have "template_tokens (from_slash u) = [] \<or> (\<exists>us. template_tokens (from_slash u) = Lit CHR ''/'' # us)"
    by (rule from_slash_cases [of u]; simp del: dropWhile_eq_Nil_conv)
  with t u show ?thesis
    by (simp add: route_match_segment segment_accepts_def)
next
  case False
  then have "template_tokens t = map Lit (until_slash t) @ template_tokens (from_slash t)"
    by (metis takeWhile_dropWhile_id template_tokens_literal)
  moreover have "(\<exists>s'. s = until_slash t @ s' \<and> route_match (template_tokens (from_slash t)) s') \<longleftrightarrow>
      until_slash s = until_slash t \<and> route_match (template_tokens (from_slash t)) (from_slash s)"
  proof (rule from_slash_cases [of t])
    assume t: "from_slash t = []"
    have "(\<exists>s'. s = until_slash t @ s' \<and> s' = []) \<longleftrightarrow> s = until_slash t" by simp
    also have "\<dots> \<longleftrightarrow> until_slash s = until_slash t \<and> from_slash s = []"
    proof
      assume "s = until_slash t"
      moreover have "\<forall>x\<in>set (until_slash t). x \<noteq> CHR ''/''" by (rule until_slash_all)
      ultimately have all: "\<forall>x\<in>set s. x \<noteq> CHR ''/''" by simp
      then have "until_slash s = s" by (simp only: takeWhile_eq_all_conv)
      with all \<open>s = until_slash t\<close> show "until_slash s = until_slash t \<and> from_slash s = []"
        by simp
    next
      assume "until_slash s = until_slash t \<and> from_slash s = []"
      then show "s = until_slash t" by (metis append_Nil2 takeWhile_dropWhile_id)
    qed
    finally show ?thesis by (simp add: t del: dropWhile_eq_Nil_conv)
  next
    fix r assume t: "from_slash t = CHR ''/'' # r"
    have all: "\<forall>x\<in>set (until_slash t). x \<noteq> CHR ''/''" by (rule until_slash_all)
    show ?thesis
    proof
      assume "\<exists>s'. s = until_slash t @ s' \<and> route_match (template_tokens (from_slash t)) s'"
      then obtain s' where s': "s = until_slash t @ s'"
        "route_match (Lit CHR ''/'' # template_tokens r) s'" by (auto simp: t)
      then obtain r' where "s = until_slash t @ CHR ''/'' # r'" "route_match (template_tokens r) r'"
        by (cases s') auto
      with all t show "until_slash s = until_slash t \<and> route_match (template_tokens (from_slash t)) (from_slash s)"
        by (simp add: takeWhile_append2 dropWhile_append2)
    next
      assume "until_slash s = until_slash t \<and> route_match (template_tokens (from_slash t)) (from_slash s)"
      then show "\<exists>s'. s = until_slash t @ s' \<and> route_match (template_tokens (from_slash t)) s'"
        by (metis takeWhile_dropWhile_id)
    qed
  qed
  moreover have "segment_accepts (until_slash t) (until_slash s) \<longleftrightarrow> until_slash s = until_slash t"
    using False by (cases "until_slash t") (auto simp: segment_accepts_def)
  ultimately show ?thesis by (simp add: route_match_literals)
qed

lemma template_matches_segments:
  "template_plain t \<Longrightarrow>
     template_matches t s \<longleftrightarrow>
       list_all2 segment_accepts (js_split CHR ''/'' t) (js_split CHR ''/'' s)"
proof (induction "length t" arbitrary: t s rule: less_induct)
  case less
  note unf = js_split_unfold [of "CHR ''/''"]
  have plain: "segment_plain (until_slash t)"
    using less.prems by (subst (asm) template_plain_def, subst (asm) unf) simp
  show ?case
  proof (rule from_slash_cases [of t])
    assume t: "from_slash t = []"
    show ?thesis
      unfolding template_matches_def
      by (subst template_tokens_step [OF plain], subst (2) unf, subst unf,
          rule from_slash_cases [of s]; simp add: t del: dropWhile_eq_Nil_conv)
  next
    fix r assume t: "from_slash t = CHR ''/'' # r" and r: "length r < length t"
    have "template_plain r"
      using less.prems by (subst (asm) template_plain_def, subst (asm) unf) (simp add: t template_plain_def)
    note IH = less.hyps [OF r this]
    show ?thesis
      unfolding template_matches_def
      by (subst template_tokens_step [OF plain], subst (2) unf, subst unf,
          rule from_slash_cases [of s];
          simp add: t IH [unfolded template_matches_def] del: dropWhile_eq_Nil_conv)
  qed
qed

section \<open>The table is a classification of requests\<close>

lemma table_plain: "list_all (\<lambda>(m, t, r, a). template_plain t) tokenRoutePermissions"
  by code_simp

text \<open>
  Rows that a common path may match carry the same class. The check walks the segments of
  the templates in parallel: at every level it keeps, for each leading segment, the rows that may
  still match a common path, and stops as soon as the rows left agree.
\<close>

definition is_param :: "string \<Rightarrow> bool" where
  "is_param w = (take 1 w = '':'')"

fun agree :: "('a \<times> 'c) list \<Rightarrow> bool" where
  "agree [] = True"
| "agree (row # rows) = list_all (\<lambda>r. snd r = snd row) rows"

lemma agree_all: "agree rows \<Longrightarrow> r \<in> set rows \<Longrightarrow> snd r = snd (hd rows)"
  by (cases rows) (auto simp: list_all_iff)

lemma agreeD: "agree rows \<Longrightarrow> (x, c) \<in> set rows \<Longrightarrow> (y, d) \<in> set rows \<Longrightarrow> c = d"
  by (metis agree_all snd_conv)

definition below :: "string \<Rightarrow> (string list \<times> 'c) list \<Rightarrow> (string list \<times> 'c) list" where
  "below h rows = map (\<lambda>r. (tl (fst r), snd r))
     (filter (\<lambda>r. fst r \<noteq> [] \<and> (is_param h \<or> is_param (hd (fst r)) \<or> hd (fst r) = h)) rows)"

lemma in_below:
  "(t # ts, c) \<in> set rows \<Longrightarrow> is_param h \<or> is_param t \<or> t = h \<Longrightarrow> (ts, c) \<in> set (below h rows)"
  by (force simp: below_def image_iff)

fun coherent_rows :: "nat \<Rightarrow> (string list \<times> 'c) list \<Rightarrow> bool" where
  "coherent_rows n [] = True"
| "coherent_rows n (row # rows) =
     (if agree (row # rows) then True
      else (case n of 0 \<Rightarrow> False
        | Suc m \<Rightarrow> agree (filter (\<lambda>r. fst r = []) (row # rows)) \<and>
            list_all (\<lambda>h. coherent_rows m (below h (row # rows)))
              (remdups (map (\<lambda>r. hd (fst r)) (filter (\<lambda>r. fst r \<noteq> []) (row # rows))))))"

lemma segment_accepts_param: "segment_accepts t p \<Longrightarrow> is_param t \<or> p = t"
  by (cases t) (auto simp: segment_accepts_def is_param_def split: if_splits)

lemma coherent_rows_sound:
  assumes "coherent_rows n rows" "(ts, c) \<in> set rows" "(us, d) \<in> set rows"
    and "list_all2 segment_accepts ts ps" "list_all2 segment_accepts us ps"
  shows "c = d"
  using assms
proof (induction n rows arbitrary: ts us ps rule: coherent_rows.induct)
  case (2 n row rows)
  let ?all = "row # rows"
  show ?case
  proof (cases "agree ?all")
    case True
    with "2.prems"(2,3) show ?thesis by (blast intro: agreeD)
  next
    case False
    with "2.prems"(1) obtain m where m: "n = Suc m" by (cases n) auto
    note c = "2.prems"(1) [simplified coherent_rows.simps m nat.case if_not_P [OF False]]
    show ?thesis
    proof (cases ps)
      case Nil
      with "2.prems"(4,5) have "ts = []" "us = []" by auto
      with "2.prems"(2,3) have "([], c) \<in> set (filter (\<lambda>r. fst r = []) ?all)"
        "([], d) \<in> set (filter (\<lambda>r. fst r = []) ?all)" by auto
      with c show ?thesis by (blast intro: agreeD)
    next
      case (Cons p ps')
      with "2.prems"(4,5) obtain t ts' u us' where tu: "ts = t # ts'" "us = u # us'"
        and acc: "segment_accepts t p" "segment_accepts u p"
        and rest: "list_all2 segment_accepts ts' ps'" "list_all2 segment_accepts us' ps'"
        by (auto simp: list_all2_Cons2)
      have h: "t \<in> set (remdups (map (\<lambda>r. hd (fst r)) (filter (\<lambda>r. fst r \<noteq> []) ?all)))"
        using "2.prems"(2) tu(1) by (force simp: image_iff)
      have "coherent_rows m (below t ?all)" using c h by (auto simp: list_all_iff)
      moreover have "(ts', c) \<in> set (below t ?all)"
        using "2.prems"(2) tu(1) by (blast intro: in_below)
      moreover have "(us', d) \<in> set (below t ?all)"
        using "2.prems"(3) tu(2) segment_accepts_param [OF acc(1)] segment_accepts_param [OF acc(2)]
        by (blast intro: in_below)
      ultimately show ?thesis using "2.IH" [OF False m h] rest by blast
    qed
  qed
qed simp

definition verb_rows ::
  "string \<Rightarrow> (string list \<times> PermissionResource \<times> AccessAction) list" where
  "verb_rows verb = map (\<lambda>(m, t, c). (js_split CHR ''/'' t, c))
     (filter (\<lambda>(m, _). m = verb) tokenRoutePermissions)"

lemma table_coherent_get: "coherent_rows 12 (verb_rows ''GET'')"
  by code_simp

lemma table_coherent_post: "coherent_rows 12 (verb_rows ''POST'')"
  by code_simp

lemma table_coherent_others:
  "list_all (\<lambda>verb. coherent_rows 12 (verb_rows verb)) [''PUT'', ''PATCH'', ''DELETE'']"
  by code_simp

lemma table_coherent:
  "list_all (\<lambda>verb. coherent_rows 12 (verb_rows verb))
     [''GET'', ''POST'', ''PUT'', ''PATCH'', ''DELETE'']"
  using table_coherent_get table_coherent_post table_coherent_others by simp

lemma verb_in_table: "(m, c) \<in> set tokenRoutePermissions \<Longrightarrow>
    m \<in> set [''GET'', ''POST'', ''PUT'', ''PATCH'', ''DELETE'']"
proof -
  have "list_all (\<lambda>(m, c). m \<in> set [''GET'', ''POST'', ''PUT'', ''PATCH'', ''DELETE'']) tokenRoutePermissions"
    by code_simp
  then show "(m, c) \<in> set tokenRoutePermissions \<Longrightarrow> m \<in> set [''GET'', ''POST'', ''PUT'', ''PATCH'', ''DELETE'']"
    by (auto simp: list_all_iff)
qed

lemma matching_rows_agree:
  assumes "(m, t, c) \<in> set tokenRoutePermissions" "(m, u, d) \<in> set tokenRoutePermissions"
    and "template_matches t path" "template_matches u path"
  shows "c = d"
proof -
  have plain: "template_plain t" "template_plain u"
    using table_plain assms(1,2) by (auto simp: list_all_iff)
  have "coherent_rows 12 (verb_rows m)"
    using table_coherent verb_in_table [OF assms(1)] by (auto simp: list_all_iff)
  moreover have "(js_split CHR ''/'' t, c) \<in> set (verb_rows m)" "(js_split CHR ''/'' u, d) \<in> set (verb_rows m)"
    using assms(1,2) by (force simp: verb_rows_def)+
  ultimately show ?thesis
    using assms(3,4) plain by (blast intro: coherent_rows_sound dest: template_matches_segments [THEN iffD1])
qed

lemma requiredTokenPermission_Some:
  "requiredTokenPermission verb path = Some (m, t, r, a) \<Longrightarrow>
     m = verb \<and> (verb, t, r, a) \<in> set tokenRoutePermissions \<and> template_matches t path"
  by (auto simp: requiredTokenPermission_def dest!: find_Some_mem)

text \<open>Claim C40. The route table is a classification: whatever row of the table with the request's
  method matches the path, the first-match lookup returns a row with the same module and access.
  The order of the rows, and the overlap of literal and parameter segments, never changes what
  permission a request needs.\<close>

theorem route_classification_order_independent:
  assumes "(verb, template, resource, action) \<in> set tokenRoutePermissions"
    and "template_matches template path"
  shows "\<exists>t. requiredTokenPermission verb path = Some (verb, t, resource, action)"
proof -
  let ?P = "\<lambda>(m, template, _, _). m = verb \<and> template_matches template path"
  have "List.find ?P tokenRoutePermissions \<noteq> None"
    using assms by (auto simp: find_None_iff)
  then obtain m t r a where f: "requiredTokenPermission verb path = Some (m, t, r, a)"
    unfolding requiredTokenPermission_def by (metis not_None_eq prod_cases4)
  note row = requiredTokenPermission_Some [OF f]
  then have "(resource, action) = (r, a)"
    by (intro matching_rows_agree [OF assms(1) _ assms(2)]) auto
  with f row show ?thesis by auto
qed

theorem route_classification_order_independent_witness:
  "\<exists>t. requiredTokenPermission ''GET'' ''/api/v1/policies/p1/test-runs/latest'' =
     Some (''GET'', t, Policies, Read)"
proof -
  have row: "(''GET'', ''/api/v1/policies/:id/test-runs/latest'', Policies, Read) \<in> set tokenRoutePermissions"
    by (simp add: tokenRoutePermissions_def)
  have "template_matches ''/api/v1/policies/:id/test-runs/latest'' ''/api/v1/policies/p1/test-runs/latest''"
    by code_simp
  from route_classification_order_independent [OF row this] show ?thesis .
qed

text \<open>For every row of the table, the regular expression built from its template accepts
  a path exactly when path and template have the same number of segments and every segment of
  the path equals the template's, or is nonempty where the template has a parameter.\<close>

theorem route_template_is_segmentwise:
  assumes "(verb, template, resource, action) \<in> set tokenRoutePermissions"
  shows "template_matches template path \<longleftrightarrow>
    list_all2 segment_accepts (js_split CHR ''/'' template) (js_split CHR ''/'' path)"
  using assms table_plain by (intro template_matches_segments) (auto simp: list_all_iff)

theorem route_template_is_segmentwise_witness:
  "\<not> template_matches ''/api/v1/projects'' ''/api/v1/projects/other/path''"
proof -
  have "(''GET'', ''/api/v1/projects'', Projects, Read) \<in> set tokenRoutePermissions"
    by (simp add: tokenRoutePermissions_def)
  note iff = route_template_is_segmentwise [OF this, of "''/api/v1/projects/other/path''"]
  have "\<not> list_all2 segment_accepts (js_split CHR ''/'' ''/api/v1/projects'')
      (js_split CHR ''/'' ''/api/v1/projects/other/path'')" by code_simp
  with iff show ?thesis by simp
qed

end
