(* ===== verification/Access_Tokens.thy ===== *)
theory Access_Tokens
  imports Route_Permissions
begin

text \<open>
  Personal access tokens: the grants a token carries and what they allow for the current role of
  its owner (\<^verbatim>\<open>controller/shared/access-tokens.ts\<close>), and the service that issues,
  revokes and authenticates them (\<^verbatim>\<open>controller/server/services/access-tokens.ts\<close>)
  over the tables it reads and writes. The digest of a secret, the fresh identifiers and the
  clock are arguments.
\<close>

section \<open>Grants\<close>

text \<open>Stored grants are an object with string keys and values; entries of retired or unknown
  modules may be present.\<close>

type_synonym TokenPermissions = "(string \<times> string) list"

definition tokenModules :: "PermissionResource list" where
  "tokenModules = [Projects, ProjectGroups, Providers, Models, ModelConfiguration, ModelPricing,
     Runners, Guardrails, Routers, Endpoints, Policies, Playground, Runtime, Audit]"

definition readOnlyTokenModules :: "PermissionResource list" where
  "readOnlyTokenModules = [Runtime, Audit]"

definition accountModuleAccess :: "string option \<Rightarrow> PermissionResource \<Rightarrow> AccessAction option" where
  "accountModuleAccess role modul = accountPermission role modul"

definition supportedTokenPermissions :: "TokenPermissions \<Rightarrow> TokenPermissions" where
  "supportedTokenPermissions permissions =
     concat (map (\<lambda>modul. case map_of permissions (resource_name modul) of
         Some grant \<Rightarrow> if grant = ''read'' \<or> grant = ''write'' then [(resource_name modul, grant)] else []
       | None \<Rightarrow> []) tokenModules)"

definition module_of_name :: "string \<Rightarrow> PermissionResource option" where
  "module_of_name n = List.find (\<lambda>m. resource_name m = n) tokenModules"

definition effectiveTokenPermissions :: "TokenPermissions \<Rightarrow> string \<Rightarrow> TokenPermissions" where
  "effectiveTokenPermissions permissions role =
     concat (map (\<lambda>(name, grant).
       case Option.bind (module_of_name name) (accountModuleAccess (Some role)) of
         Some maximum \<Rightarrow> [(name, if maximum = Read then ''read'' else grant)]
       | None \<Rightarrow> []) (supportedTokenPermissions permissions))"

definition allowsTokenPermission ::
  "TokenPermissions \<Rightarrow> PermissionResource \<Rightarrow> AccessAction \<Rightarrow> string \<Rightarrow> bool" where
  "allowsTokenPermission permissions modul access role =
     (case accountModuleAccess (Some role) modul of
        None \<Rightarrow> False
      | Some maximum \<Rightarrow>
          if access = Write \<and> maximum \<noteq> Write then False
          else (let granted = map_of permissions (resource_name modul)
                in if access = Read then granted = Some ''read'' \<or> granted = Some ''write''
                   else granted = Some ''write''))"

section \<open>The request to create a token\<close>

record CreateAccessToken =
  ct_name :: string
  ct_expiresInDays :: nat
  ct_permissions :: TokenPermissions

text \<open>The keys of \<open>tokenPermissionsSchema\<close> in the order the parsed object has them.\<close>

definition permission_shape :: "PermissionResource list" where
  "permission_shape = [Guardrails, Routers, Endpoints, Policies, Playground, Models, Runners,
     Runtime, Audit, Providers, ModelConfiguration, ModelPricing, Projects, ProjectGroups]"

definition permission_value_ok :: "string \<Rightarrow> json \<Rightarrow> bool" where
  "permission_value_ok key v =
     (case List.find (\<lambda>m. resource_name m = key) permission_shape of
        None \<Rightarrow> False
      | Some m \<Rightarrow> if m \<in> {Runtime, Audit} then v = JStr ''read''
          else v = JStr ''read'' \<or> v = JStr ''write'')"

definition json_string :: "json \<Rightarrow> string" where
  "json_string v = (case v of JStr s \<Rightarrow> s | _ \<Rightarrow> [])"

definition tokenPermissionsSchema :: "json \<Rightarrow> TokenPermissions option" where
  "tokenPermissionsSchema v =
     (case v of JObj kvs \<Rightarrow>
        if list_all (\<lambda>(k, x). permission_value_ok k x) kvs \<and> kvs \<noteq> []
        then Some (concat (map (\<lambda>m. case map_of kvs (resource_name m) of
            Some x \<Rightarrow> [(resource_name m, json_string x)] | None \<Rightarrow> []) permission_shape))
        else None
      | _ \<Rightarrow> None)"

definition createAccessTokenSchema :: "json \<Rightarrow> CreateAccessToken option" where
  "createAccessTokenSchema raw =
     (case raw of JObj kvs \<Rightarrow>
        if \<not> list_all (\<lambda>(k, _). k \<in> {''name'', ''expiresInDays'', ''permissions''}) kvs then None
        else (case (map_of kvs ''name'', map_of kvs ''expiresInDays'', map_of kvs ''permissions'') of
          (Some (JStr n), Some (JNum d), Some p) \<Rightarrow>
            (case tokenPermissionsSchema p of
               Some ps \<Rightarrow>
                 if 1 \<le> length (js_trim n) \<and> length (js_trim n) \<le> 100 \<and> d \<in> {7, 30, 90, 365}
                 then Some \<lparr>ct_name = js_trim n, ct_expiresInDays = nat \<lfloor>d\<rfloor>, ct_permissions = ps\<rparr>
                 else None
             | None \<Rightarrow> None)
        | _ \<Rightarrow> None)
      | _ \<Rightarrow> None)"

section \<open>Tables\<close>

record user_row =
  u_id :: string
  u_role :: string
  u_banned :: bool
  u_lastLoginAt :: "int option"

record account_row =
  acc_userId :: string
  acc_providerId :: string

record member_row =
  mem_projectId :: string
  mem_userId :: string
  mem_access :: string

record token_row =
  tok_id :: string
  tok_userId :: string
  tok_projectId :: "string option"
  tok_name :: string
  tok_prefix :: string
  tok_hash :: string
  tok_permissions :: TokenPermissions
  tok_createdAt :: int
  tok_expiresAt :: int
  tok_lastUsedAt :: "int option"
  tok_revokedAt :: "int option"

record audit_row =
  aud_id :: string
  aud_projectId :: "string option"
  aud_kind :: string
  aud_actorId :: string
  aud_resourceType :: string
  aud_resourceId :: string
  aud_detail :: "(string \<times> json) list"

record token_db =
  db_users :: "user_row list"
  db_accounts :: "account_row list"
  db_members :: "member_row list"
  db_tokens :: "token_row list"
  db_audit :: "audit_row list"

record TokenIdentity =
  ti_id :: string
  ti_role :: string
  ti_projectId :: "string option"
  ti_tokenId :: string
  ti_permissions :: TokenPermissions

definition SSO_PROVIDER_ID :: string where
  "SSO_PROVIDER_ID = ''corporate-sso''"

definition token_active :: "int \<Rightarrow> token_row \<Rightarrow> bool" where
  "token_active now t = (tok_revokedAt t = None \<and> now < tok_expiresAt t)"

section \<open>Issuing and revoking\<close>

text \<open>Times are milliseconds; their ISO rendering in the view and in audit details is left out.\<close>

record AccessTokenView =
  v_id :: string
  v_name :: string
  v_prefix :: string
  v_permissions :: TokenPermissions
  v_projectId :: "string option"
  v_createdAt :: int
  v_expiresAt :: int
  v_lastUsedAt :: "int option"
  v_revokedAt :: "int option"

definition view :: "token_row \<Rightarrow> AccessTokenView" where
  "view row = \<lparr>v_id = tok_id row, v_name = tok_name row, v_prefix = tok_prefix row,
     v_permissions = supportedTokenPermissions (tok_permissions row), v_projectId = tok_projectId row,
     v_createdAt = tok_createdAt row, v_expiresAt = tok_expiresAt row,
     v_lastUsedAt = tok_lastUsedAt row, v_revokedAt = tok_revokedAt row\<rparr>"

definition list_tokens :: "token_db \<Rightarrow> string \<Rightarrow> AccessTokenView list" where
  "list_tokens db userId = map view
     (rev (sort_key tok_createdAt (rev (filter (\<lambda>t. tok_userId t = userId) (db_tokens db)))))"

definition permissions_json :: "TokenPermissions \<Rightarrow> json" where
  "permissions_json ps = JObj (map (\<lambda>(k, v). (k, JStr v)) ps)"

definition forbidden :: "string \<Rightarrow> string \<Rightarrow> thrown" where
  "forbidden msg code = ControllerError msg 403 code []"

definition create_project :: "token_db \<Rightarrow> user_row \<Rightarrow> CreateAccessToken \<Rightarrow> string option \<Rightarrow>
    thrown + string option" where
  "create_project db owner input activeProjectId =
     (let projectId = (if u_role owner = ''user'' then activeProjectId else None)
      in if u_role owner = ''user'' \<and> (projectId = None \<or> projectId = Some [])
         then Inl (forbidden ''Select an initialized project first.'' ''project_required'')
         else (case projectId of
           None \<Rightarrow> Inr None
         | Some p \<Rightarrow>
             (case List.find (\<lambda>m. mem_userId m = u_id owner \<and> mem_projectId m = p) (db_members db) of
                None \<Rightarrow> Inl (forbidden ''You are not a member of this project.'' ''project_access_denied'')
              | Some membership \<Rightarrow>
                  if mem_access membership = ''read'' \<and> ''write'' \<in> set (map snd (ct_permissions input))
                  then Inl (forbidden ''Your project role permits read-only tokens.'' ''project_read_only'')
                  else Inr (Some p))))"

definition exceeds_role :: "CreateAccessToken \<Rightarrow> string \<Rightarrow> bool" where
  "exceeds_role input role = list_ex (\<lambda>(name, access).
     access \<noteq> [] \<and> \<not> (case (module_of_name name, if access = ''write'' then Some Write
                          else if access = ''read'' then Some Read else None) of
        (Some modul, Some a) \<Rightarrow> allowsTokenPermission (ct_permissions input) modul a role
      | _ \<Rightarrow> False)) (ct_permissions input)"

definition create_token ::
  "(string \<Rightarrow> string) \<Rightarrow> string \<Rightarrow> string \<Rightarrow> string \<Rightarrow> int \<Rightarrow> token_db \<Rightarrow> string \<Rightarrow> json \<Rightarrow> string option \<Rightarrow>
    thrown + (AccessTokenView \<times> string \<times> token_db)" where
  "create_token digest random tokenUuid auditUuid now db userId raw activeProjectId =
     (case createAccessTokenSchema raw of
        None \<Rightarrow> Inl ZodError
      | Some input \<Rightarrow>
          let secret = ''tlg_pat_'' @ random in
          (case List.find (\<lambda>u. u_id u = userId) (db_users db) of
             None \<Rightarrow> Inl (forbidden ''Account is unavailable.'' ''forbidden'')
           | Some owner \<Rightarrow>
               if u_banned owner \<or> \<not> isAccountRole (Some (u_role owner))
               then Inl (forbidden ''Account is unavailable.'' ''forbidden'')
               else and_then (create_project db owner input activeProjectId) (\<lambda>projectId.
                 if exceeds_role input (u_role owner)
                 then Inl (forbidden ''Token permissions exceed the current account role.'' ''forbidden'')
                 else if 50 \<le> length (filter (\<lambda>t. tok_userId t = userId \<and> token_active now t) (db_tokens db))
                 then Inl (ControllerError ''Revoke an existing token before creating another (limit: 50 active tokens).'' 409 ''token_limit'' [])
                 else let row = \<lparr>tok_id = tokenUuid, tok_userId = userId, tok_projectId = projectId,
                            tok_name = ct_name input, tok_prefix = take 15 secret, tok_hash = digest secret,
                            tok_permissions = ct_permissions input, tok_createdAt = now,
                            tok_expiresAt = now + int (ct_expiresInDays input) * 86400000,
                            tok_lastUsedAt = None, tok_revokedAt = None\<rparr>;
                          audit = \<lparr>aud_id = auditUuid, aud_projectId = projectId, aud_kind = ''access_token.created'',
                            aud_actorId = userId, aud_resourceType = ''access_token'', aud_resourceId = tokenUuid,
                            aud_detail = [(''name'', JStr (ct_name input)), (''permissions'', permissions_json (ct_permissions input)),
                              (''expiresAt'', JNum (of_int (tok_expiresAt row)))]\<rparr>
                      in if list_ex (\<lambda>t. tok_id t = tok_id row \<or> tok_hash t = tok_hash row) (db_tokens db)
                         then Inl (JsError ''unique violation'')
                         else Inr (view row, secret,
                           db\<lparr>db_tokens := db_tokens db @ [row], db_audit := db_audit db @ [audit]\<rparr>))))"

definition revoke_token ::
  "string \<Rightarrow> int \<Rightarrow> token_db \<Rightarrow> string \<Rightarrow> string \<Rightarrow> thrown + token_db" where
  "revoke_token auditUuid now db userId tokenId =
     (case List.find (\<lambda>t. tok_id t = tokenId \<and> tok_userId t = userId) (db_tokens db) of
        None \<Rightarrow> Inl (NotFoundError ''Access token'' tokenId)
      | Some row \<Rightarrow>
          if tok_revokedAt row \<noteq> None then Inr db
          else if List.find (\<lambda>u. u_id u = userId) (db_users db) = None
          then Inl (forbidden ''Account is unavailable.'' ''forbidden'')
          else Inr (db\<lparr>db_tokens := map (\<lambda>t. if tok_id t = tokenId then t\<lparr>tok_revokedAt := Some now\<rparr> else t) (db_tokens db),
                 db_audit := db_audit db @ [\<lparr>aud_id = auditUuid, aud_projectId = tok_projectId row,
                   aud_kind = ''access_token.revoked'', aud_actorId = userId,
                   aud_resourceType = ''access_token'', aud_resourceId = tokenId,
                   aud_detail = [(''name'', JStr (tok_name row))]\<rparr>]\<rparr>))"

section \<open>Authenticating\<close>

text \<open>\<open>/^tlg_pat_[A-Za-z0-9_-]{43}$/\<close>\<close>

definition base64url_char :: "char \<Rightarrow> bool" where
  "base64url_char c = (let n = js_code c in (65 \<le> n \<and> n \<le> 90) \<or> (97 \<le> n \<and> n \<le> 122)
     \<or> (48 \<le> n \<and> n \<le> 57) \<or> n = 95 \<or> n = 45)"

definition secret_format :: "string \<Rightarrow> bool" where
  "secret_format s = (js_startsWith s ''tlg_pat_'' \<and> length s = 51 \<and> list_all base64url_char (drop 8 s))"

text \<open>The lookup: the join of token and owner, restricted to live tokens of unbanned owners.\<close>

definition token_lookup :: "token_db \<Rightarrow> int \<Rightarrow> string \<Rightarrow> (token_row \<times> user_row) option" where
  "token_lookup db now hash = List.find (\<lambda>_. True)
     (concat (map (\<lambda>t. map (Pair t) (filter (\<lambda>u. u_id u = tok_userId t \<and> \<not> u_banned u) (db_users db)))
       (filter (\<lambda>t. tok_hash t = hash \<and> token_active now t) (db_tokens db))))"

text \<open>The guard of the update that records the use, evaluated on the tables and the clock of
  the update statement.\<close>

definition touch_guard :: "token_db \<Rightarrow> int \<Rightarrow> token_row \<Rightarrow> user_row \<Rightarrow> token_row \<Rightarrow> bool" where
  "touch_guard db dbNow token owner t =
     (tok_id t = tok_id token \<and> token_active dbNow t
      \<and> (\<not> list_ex (\<lambda>a. acc_userId a = tok_userId t \<and> acc_providerId a = SSO_PROVIDER_ID) (db_accounts db)
          \<or> list_ex (\<lambda>u. u_id u = tok_userId t \<and>
               (case u_lastLoginAt u of Some l \<Rightarrow> dbNow - 3600000 < l | None \<Rightarrow> False)) (db_users db))
      \<and> list_ex (\<lambda>u. u_id u = tok_userId t \<and> u_role u = u_role owner \<and> \<not> u_banned u) (db_users db)
      \<and> (case tok_projectId token of None \<Rightarrow> True
          | Some p \<Rightarrow> list_ex (\<lambda>m. mem_userId m = u_id owner \<and> mem_projectId m = p
              \<and> (mem_access m = ''write'' \<or> ''write'' \<notin> set (map snd (tok_permissions t)))) (db_members db)))"

definition authenticate ::
  "(string \<Rightarrow> string) \<Rightarrow> string \<Rightarrow> token_db \<Rightarrow> int \<Rightarrow> token_db \<Rightarrow> int \<Rightarrow> TokenIdentity option \<times> token_db" where
  "authenticate digest secret db now db' dbNow =
     (if \<not> secret_format secret then (None, db')
      else case token_lookup db now (digest secret) of
        None \<Rightarrow> (None, db')
      | Some (token, owner) \<Rightarrow>
          if \<not> isAccountRole (Some (u_role owner)) then (None, db')
          else if (tok_projectId token = None) \<noteq> (u_role owner = ''admin'') then (None, db')
          else let touched = filter (touch_guard db' dbNow token owner) (db_tokens db')
               in if touched = [] then (None, db')
                  else (Some \<lparr>ti_id = u_id owner, ti_role = u_role owner, ti_projectId = tok_projectId token,
                          ti_tokenId = tok_id token, ti_permissions = supportedTokenPermissions (tok_permissions token)\<rparr>,
                        db'\<lparr>db_tokens := map (\<lambda>t. if touch_guard db' dbNow token owner t
                              then t\<lparr>tok_lastUsedAt := Some now\<rparr> else t) (db_tokens db')\<rparr>))"

definition recordRequest ::
  "string \<Rightarrow> token_db \<Rightarrow> TokenIdentity \<Rightarrow> string \<Rightarrow> string \<Rightarrow> nat \<Rightarrow> token_db" where
  "recordRequest auditUuid db actor verb route status = db\<lparr>db_audit := db_audit db @
     [\<lparr>aud_id = auditUuid, aud_projectId = ti_projectId actor, aud_kind = ''access_token.request'',
       aud_actorId = ti_id actor, aud_resourceType = ''access_token'', aud_resourceId = ti_tokenId actor,
       aud_detail = [(''method'', JStr verb), (''route'', JStr route), (''status'', JNum (of_nat status))]\<rparr>]\<rparr>"

section \<open>What a grant allows\<close>

lemma inj_resource_name: "inj resource_name"
  by (rule injI) simp

lemma tokenModules_all: "m \<in> set tokenModules \<longleftrightarrow> m \<noteq> Users"
  by (cases m) (simp_all add: tokenModules_def)

lemma map_of_supported:
  "map_of (supportedTokenPermissions ps) (resource_name m) =
     (if m = Users then None else
       (case map_of ps (resource_name m) of
          Some g \<Rightarrow> if g = ''read'' \<or> g = ''write'' then Some g else None | None \<Rightarrow> None))"
proof -
  let ?f = "\<lambda>m. case map_of ps (resource_name m) of
      Some g \<Rightarrow> if g = ''read'' \<or> g = ''write'' then Some g else None | None \<Rightarrow> None"
  have "supportedTokenPermissions ps =
      concat (map (\<lambda>m. case ?f m of Some g \<Rightarrow> [(resource_name m, g)] | None \<Rightarrow> []) tokenModules)"
    unfolding supportedTokenPermissions_def
    by (rule arg_cong [where f = concat], rule map_cong) (auto split: option.splits)
  then show ?thesis
    by (simp add: map_of_optional_entries [OF inj_resource_name] tokenModules_all)
qed

lemma distinct_supported: "distinct (map fst (supportedTokenPermissions ps))"
proof -
  have "distinct (map fst (concat (map (\<lambda>m. case map_of ps (resource_name m) of
         Some grant \<Rightarrow> if grant = ''read'' \<or> grant = ''write'' then [(resource_name m, grant)] else []
       | None \<Rightarrow> []) ms)))" if "distinct ms" for ms
    using that by (induction ms) (auto split: option.splits if_splits)
  moreover have "distinct tokenModules" by (simp add: tokenModules_def)
  ultimately show ?thesis by (simp add: supportedTokenPermissions_def)
qed

lemma module_of_name: "m \<noteq> Users \<Longrightarrow> module_of_name (resource_name m) = Some m"
  by (cases m) (simp_all add: module_of_name_def tokenModules_def)

lemma map_of_effective:
  assumes "m \<noteq> Users"
  shows "map_of (effectiveTokenPermissions ps role) (resource_name m) =
    Option.bind (map_of (supportedTokenPermissions ps) (resource_name m))
      (\<lambda>g. map_option (\<lambda>mx. if mx = Read then ''read'' else g) (accountModuleAccess (Some role) m))"
proof -
  let ?h = "\<lambda>name g. map_option (\<lambda>mx. if mx = Read then ''read'' else g)
      (Option.bind (module_of_name name) (accountModuleAccess (Some role)))"
  have "effectiveTokenPermissions ps role = concat (map (\<lambda>(k, v). case ?h k v of Some w \<Rightarrow> [(k, w)] | None \<Rightarrow> [])
      (supportedTokenPermissions ps))"
    unfolding effectiveTokenPermissions_def
    by (rule arg_cong [where f = concat], rule map_cong) (auto split: option.splits)
  then have "map_of (effectiveTokenPermissions ps role) (resource_name m) =
      Option.bind (map_of (supportedTokenPermissions ps) (resource_name m)) (?h (resource_name m))"
    by (simp only: map_of_filtered_entries [OF distinct_supported, of ?h])
  then show ?thesis by (simp add: module_of_name [OF assms])
qed

definition effective_grant :: "TokenPermissions \<Rightarrow> string \<Rightarrow> PermissionResource \<Rightarrow> AccessAction option" where
  "effective_grant ps role m =
     (case map_of (effectiveTokenPermissions ps role) (resource_name m) of
        Some g \<Rightarrow> if g = ''write'' then Some Write else if g = ''read'' then Some Read else None
      | None \<Rightarrow> None)"

lemma allows_iff_effective:
  assumes "m \<noteq> Users"
  shows "allowsTokenPermission ps m a role \<longleftrightarrow>
    effective_grant ps role m = Some Write \<or> effective_grant ps role m = Some a"
proof (cases "accountModuleAccess (Some role) m")
  case (Some mx)
  with assms show ?thesis
    by (cases a; cases mx)
      (auto simp: allowsTokenPermission_def effective_grant_def map_of_effective map_of_supported
        split: option.splits if_splits)
qed (auto simp: allowsTokenPermission_def effective_grant_def map_of_effective [OF assms] split: option.splits)

text \<open>A token's grants are a grant table over the token modules.\<close>

typedef token_module = "{m :: PermissionResource. m \<noteq> Users}"
  by (rule exI [of _ Guardrails]) simp

interpretation token: grant_table
  "\<lambda>(ps, role) m. effective_grant ps role (Rep_token_module m)"
  "\<lambda>(ps, role) m a. allowsTokenPermission ps (Rep_token_module m) a role"
  using Rep_token_module by unfold_locales (auto simp: allows_iff_effective)

lemma allows_within_role: "allowsTokenPermission ps m a role \<Longrightarrow> hasPermission (Some role) m a"
  by (cases a) (auto simp: allowsTokenPermission_def hasPermission_def accountModuleAccess_def Let_def
      split: option.splits if_splits intro: AccessAction.exhaust)

section \<open>Outcomes of the operations\<close>

lemma create_project_Inr:
  "create_project db owner input active = Inr p \<longleftrightarrow>
    (if u_role owner = ''user''
     then \<exists>q m. active = Some q \<and> q \<noteq> [] \<and> p = Some q \<and>
            List.find (\<lambda>m. mem_userId m = u_id owner \<and> mem_projectId m = q) (db_members db) = Some m \<and>
            \<not> (mem_access m = ''read'' \<and> ''write'' \<in> set (map snd (ct_permissions input)))
     else p = None)"
  by (auto simp: create_project_def Let_def split: option.splits if_splits)

definition active_count :: "token_db \<Rightarrow> int \<Rightarrow> string \<Rightarrow> nat" where
  "active_count db now uid = length (filter (\<lambda>t. tok_userId t = uid \<and> token_active now t) (db_tokens db))"

text \<open>The row a successful request inserts.\<close>

definition issued_row ::
  "(string \<Rightarrow> string) \<Rightarrow> string \<Rightarrow> string \<Rightarrow> int \<Rightarrow> string \<Rightarrow> CreateAccessToken \<Rightarrow> string option \<Rightarrow> token_row" where
  "issued_row digest random uuid now uid input p =
     \<lparr>tok_id = uuid, tok_userId = uid, tok_projectId = p, tok_name = ct_name input,
      tok_prefix = take 15 (''tlg_pat_'' @ random), tok_hash = digest (''tlg_pat_'' @ random),
      tok_permissions = ct_permissions input, tok_createdAt = now,
      tok_expiresAt = now + int (ct_expiresInDays input) * 86400000,
      tok_lastUsedAt = None, tok_revokedAt = None\<rparr>"

lemma create_token_Inr:
  assumes "create_token digest random uuid auditUuid now db uid raw active = Inr (v, secret, db')"
  obtains input owner p where
    "createAccessTokenSchema raw = Some input"
    "List.find (\<lambda>u. u_id u = uid) (db_users db) = Some owner"
    "\<not> u_banned owner" "isAccountRole (Some (u_role owner))"
    "create_project db owner input active = Inr p"
    "\<not> exceeds_role input (u_role owner)"
    "active_count db now uid < 50"
    "\<not> list_ex (\<lambda>t. tok_id t = uuid \<or> tok_hash t = digest (''tlg_pat_'' @ random)) (db_tokens db)"
    "secret = ''tlg_pat_'' @ random"
    "v = view (issued_row digest random uuid now uid input p)"
    "db_tokens db' = db_tokens db @ [issued_row digest random uuid now uid input p]"
    "db_users db' = db_users db" "db_members db' = db_members db" "db_accounts db' = db_accounts db"
  using assms unfolding create_token_def Let_def
  by (auto simp: and_then_eq_Inr issued_row_def active_count_def not_le split: option.splits if_splits)

lemma revoke_token_Inr:
  assumes "revoke_token auditUuid now db uid tid = Inr db'"
  shows "db_users db' = db_users db"
    and "db_tokens db' = db_tokens db \<or>
      db_tokens db' = map (\<lambda>t. if tok_id t = tid then t\<lparr>tok_revokedAt := Some now\<rparr> else t) (db_tokens db)"
  using assms by (auto simp: revoke_token_def split: option.splits if_splits)

lemma token_lookup_Some:
  assumes "token_lookup db now h = Some (t, u)"
  shows "t \<in> set (db_tokens db)" "u \<in> set (db_users db)" "tok_hash t = h" "token_active now t"
    "u_id u = tok_userId t" "\<not> u_banned u"
  using find_Some_mem [OF assms [unfolded token_lookup_def]] by auto

lemma authenticate_Some:
  assumes "authenticate digest secret db now db' dbNow = (Some i, db'')"
  obtains token owner t where
    "secret_format secret" "token_lookup db now (digest secret) = Some (token, owner)"
    "isAccountRole (Some (u_role owner))" "(tok_projectId token = None) = (u_role owner = ''admin'')"
    "t \<in> set (db_tokens db')" "touch_guard db' dbNow token owner t"
    "i = \<lparr>ti_id = u_id owner, ti_role = u_role owner, ti_projectId = tok_projectId token,
       ti_tokenId = tok_id token, ti_permissions = supportedTokenPermissions (tok_permissions token)\<rparr>"
  using assms unfolding authenticate_def
  by (auto simp: Let_def filter_empty_conv split: option.splits if_splits prod.splits)

lemma authenticate_tokens:
  "\<exists>f. db_tokens (snd (authenticate digest secret db now db' dbNow)) = map f (db_tokens db') \<and>
    (\<forall>t. tok_id (f t) = tok_id t \<and> tok_hash (f t) = tok_hash t \<and> tok_userId (f t) = tok_userId t \<and>
      tok_expiresAt (f t) = tok_expiresAt t \<and> tok_revokedAt (f t) = tok_revokedAt t)"
proof (cases "snd (authenticate digest secret db now db' dbNow) = db'")
  case True
  then show ?thesis by (intro exI [of _ "\<lambda>t. t"]) simp
next
  case False
  then obtain token owner where
    "token_lookup db now (digest secret) = Some (token, owner)"
    by (cases "token_lookup db now (digest secret)") (auto simp: authenticate_def)
  with False have
    "db_tokens (snd (authenticate digest secret db now db' dbNow)) =
      map (\<lambda>t. if touch_guard db' dbNow token owner t then t\<lparr>tok_lastUsedAt := Some now\<rparr> else t) (db_tokens db')"
    by (simp add: authenticate_def Let_def split: if_splits)
  then show ?thesis by (intro exI conjI) (assumption, auto)
qed

section \<open>Runs of the service\<close>

text \<open>
  A run interleaves token creation, revocation and authentication with the passing of time;
  the lookup of an authentication may have read any earlier tables. Creation holds a lock on the
  owner's row, so it is one step.
\<close>

inductive token_step :: "(string \<Rightarrow> string) \<Rightarrow> token_db \<times> int \<Rightarrow> token_db \<times> int \<Rightarrow> bool" for digest where
  tick: "now \<le> now' \<Longrightarrow> token_step digest (db, now) (db, now')"
| create: "create_token digest random uuid auditUuid now db uid raw active = Inr (v, secret, db') \<Longrightarrow>
     token_step digest (db, now) (db', now)"
| revoke: "revoke_token auditUuid now db uid tid = Inr db' \<Longrightarrow> token_step digest (db, now) (db', now)"
| touch: "token_step digest (db, now) (snd (authenticate digest secret db0 now0 db now), now)"

inductive_cases token_stepE: "token_step digest s t"

definition token_init :: "token_db \<times> int \<Rightarrow> bool" where
  "token_init s = (db_tokens (fst s) = [])"

definition token_inv :: "token_db \<times> int \<Rightarrow> bool" where
  "token_inv s = ((\<forall>uid. active_count (fst s) (snd s) uid \<le> 50) \<and>
     distinct (map tok_id (db_tokens (fst s))) \<and> distinct (map tok_hash (db_tokens (fst s))))"

lemma token_active_mono: "now \<le> now' \<Longrightarrow> token_active now' t \<Longrightarrow> token_active now t"
  by (simp add: token_active_def)

lemma active_count_mono:
  assumes "db_tokens db' = map f (db_tokens db)" "now \<le> now'"
    and "\<And>t. tok_userId (f t) = tok_userId t" "\<And>t. token_active now' (f t) \<Longrightarrow> token_active now t"
  shows "active_count db' now' uid \<le> active_count db now uid"
proof -
  have "length (filter (\<lambda>t. tok_userId t = uid \<and> token_active now' t) (map f ts)) \<le>
      length (filter (\<lambda>t. tok_userId t = uid \<and> token_active now t) ts)" for ts
    using assms(3,4) by (induction ts) auto
  then show ?thesis by (simp add: active_count_def assms(1))
qed

lemma token_inv_map:
  assumes "token_inv (db, now)" "db_tokens db' = map f (db_tokens db)" "now \<le> now'"
    and "\<And>t. tok_userId (f t) = tok_userId t" "\<And>t. token_active now' (f t) \<Longrightarrow> token_active now t"
    and "\<And>t. tok_id (f t) = tok_id t" "\<And>t. tok_hash (f t) = tok_hash t"
  shows "token_inv (db', now')"
  using assms(1) active_count_mono [OF assms(2-5)]
  by (auto simp: token_inv_def assms(2,6,7) comp_def intro: order_trans)

lemma token_inv_step: "token_inv s \<Longrightarrow> token_step digest s t \<Longrightarrow> token_inv t"
proof (erule token_stepE)
  fix now now' :: int and db
  assume "token_inv s" "s = (db, now)" "t = (db, now')" "now \<le> now'"
  then show ?thesis
    using token_inv_map [of db now db "\<lambda>t. t" now'] token_active_mono by auto
next
  fix random uuid auditUuid now db uid raw active v secret db'
  assume inv: "token_inv s" and s: "s = (db, now)" "t = (db', now)"
    and c: "create_token digest random uuid auditUuid now db uid raw active = Inr (v, secret, db')"
  from c show ?thesis
  proof (rule create_token_Inr)
    fix input owner p
    let ?row = "issued_row digest random uuid now uid input p"
    assume room: "active_count db now uid < 50" and toks: "db_tokens db' = db_tokens db @ [?row]"
      and fresh: "\<not> list_ex (\<lambda>t. tok_id t = uuid \<or> tok_hash t = digest (''tlg_pat_'' @ random)) (db_tokens db)"
    have "active_count db' now x \<le> 50" for x
      using room inv s toks by (auto simp: active_count_def token_inv_def issued_row_def)
    with inv s toks fresh show ?thesis
      by (auto simp: token_inv_def issued_row_def list_ex_iff)
  qed
next
  fix auditUuid now db uid tid db'
  assume inv: "token_inv s" and s: "s = (db, now)" "t = (db', now)"
    and "revoke_token auditUuid now db uid tid = Inr db'"
  then consider "db_tokens db' = map (\<lambda>t. t) (db_tokens db)"
    | "db_tokens db' = map (\<lambda>t. if tok_id t = tid then t\<lparr>tok_revokedAt := Some now\<rparr> else t) (db_tokens db)"
    using revoke_token_Inr(2) by force
  then show ?thesis
    by cases (use inv s in \<open>auto elim!: token_inv_map simp: token_active_def split: if_splits\<close>)
next
  fix db :: token_db and now :: int and secret db0 now0
  assume inv: "token_inv s" and s: "s = (db, now)" "t = (snd (authenticate digest secret db0 now0 db now), now)"
  obtain f where f: "db_tokens (snd (authenticate digest secret db0 now0 db now)) = map f (db_tokens db)"
    and keep: "\<And>t. tok_id (f t) = tok_id t \<and> tok_hash (f t) = tok_hash t \<and> tok_userId (f t) = tok_userId t \<and>
      tok_expiresAt (f t) = tok_expiresAt t \<and> tok_revokedAt (f t) = tok_revokedAt t"
    using authenticate_tokens by blast
  show ?thesis
    unfolding s(2) by (rule token_inv_map [OF inv [unfolded s(1)] f]) (auto simp: keep token_active_def)
qed

interpretation tokens: invariant_system token_init "token_step digest" token_inv for digest
  by unfold_locales (simp add: token_init_def token_inv_def active_count_def, rule token_inv_step)

section \<open>Properties\<close>

text \<open>What a token may do is what its effective grants say: for every token module the
  request check agrees with the grants capped by the owner's current role, so a token never
  allows more than its owner's role, and retired or unknown grants allow nothing.\<close>

theorem token_permission_is_effective_grant:
  assumes "m \<in> set tokenModules"
  shows "(allowsTokenPermission ps m a role \<longleftrightarrow>
      (let g = map_of (effectiveTokenPermissions ps role) (resource_name m)
       in g = Some ''write'' \<or> (a = Read \<and> g = Some ''read'')))
    \<and> (allowsTokenPermission ps m a role \<longrightarrow> hasPermission (Some role) m a)"
proof -
  have "m \<noteq> Users" using assms by (simp add: tokenModules_all)
  then have "allowsTokenPermission ps m a role \<longleftrightarrow>
      (let g = map_of (effectiveTokenPermissions ps role) (resource_name m)
       in g = Some ''write'' \<or> (a = Read \<and> g = Some ''read''))"
    by (cases a) (auto simp: allows_iff_effective effective_grant_def Let_def split: option.splits if_splits)
  with allows_within_role show ?thesis by blast
qed

theorem token_permission_is_effective_grant_witness:
  "\<not> allowsTokenPermission [(''guardrails'', ''write'')] Guardrails Write ''admin'' \<and>
   allowsTokenPermission [(''guardrails'', ''write'')] Guardrails Read ''admin''"
proof -
  have m: "Guardrails \<in> set tokenModules" by (simp add: tokenModules_def)
  have "map_of (effectiveTokenPermissions [(''guardrails'', ''write'')] ''admin'') ''guardrails'' = Some ''read''"
    by code_simp
  then show ?thesis
    using token_permission_is_effective_grant [OF m, of "[(''guardrails'', ''write'')]" Write "''admin''"]
      token_permission_is_effective_grant [OF m, of "[(''guardrails'', ''write'')]" Read "''admin''"]
    by (simp add: Let_def)
qed

text \<open>In every run of the token service that starts without tokens, whatever the
  interleaving of creations, revocations, authentications and the clock, no account ever has more
  than 50 live tokens, and token identifiers and secret hashes stay unique.\<close>

theorem reachable_token_limit:
  assumes "reach token_init (token_step digest) (db, now)"
  shows "active_count db now uid \<le> 50 \<and> distinct (map tok_id (db_tokens db)) \<and>
    distinct (map tok_hash (db_tokens db))"
  using tokens.reachable_inv [OF assms] by (simp add: token_inv_def)

definition example_db :: token_db where
  "example_db = \<lparr>db_users = [\<lparr>u_id = ''u1'', u_role = ''user'', u_banned = False, u_lastLoginAt = None\<rparr>],
     db_accounts = [], db_members = [\<lparr>mem_projectId = ''p1'', mem_userId = ''u1'', mem_access = ''write''\<rparr>],
     db_tokens = [], db_audit = []\<rparr>"

definition example_request :: json where
  "example_request = JObj [(''name'', JStr '' ci ''), (''expiresInDays'', JNum 30),
     (''permissions'', JObj [(''guardrails'', JStr ''write'')])]"

definition example_random :: string where
  "example_random = replicate 43 CHR ''x''"

lemma example_created:
  "\<exists>v db'. create_token rev example_random ''t1'' ''a1'' 0 example_db ''u1'' example_request (Some ''p1'') =
     Inr (v, ''tlg_pat_'' @ example_random, db')"
proof -
  have "\<not> throwing (create_token rev example_random ''t1'' ''a1'' 0 example_db ''u1'' example_request (Some ''p1''))"
    by code_simp
  then obtain v s db' where c: "create_token rev example_random ''t1'' ''a1'' 0 example_db ''u1'' example_request
      (Some ''p1'') = Inr (v, s, db')"
    by (cases "create_token rev example_random ''t1'' ''a1'' 0 example_db ''u1'' example_request (Some ''p1'')") auto
  then have "s = ''tlg_pat_'' @ example_random" by (rule create_token_Inr)
  with c show ?thesis by blast
qed

theorem reachable_token_limit_witness:
  "\<exists>db. db_tokens db \<noteq> [] \<and> active_count db 0 ''u1'' \<le> 50"
proof -
  obtain v db' where c: "create_token rev example_random ''t1'' ''a1'' 0 example_db ''u1'' example_request (Some ''p1'') =
     Inr (v, ''tlg_pat_'' @ example_random, db')" using example_created by blast
  have "reach token_init (token_step rev) (example_db, 0)"
    by (rule reach_init) (simp add: token_init_def example_db_def)
  then have "reach token_init (token_step rev) (db', 0)"
    using c by (blast intro: reach_step token_step.create)
  moreover have "db_tokens db' \<noteq> []" using c by (rule create_token_Inr) simp
  ultimately show ?thesis using reachable_token_limit [of rev db' 0 "''u1''"] by blast
qed

lemma find_appended:
  "(\<And>x. x \<in> set xs \<Longrightarrow> \<not> P x) \<Longrightarrow> P y \<Longrightarrow> List.find P (xs @ [y]) = Some y"
  by (induction xs) auto

lemma filter_unique_last:
  "(\<And>x. x \<in> set xs \<Longrightarrow> \<not> P x) \<Longrightarrow> P y \<Longrightarrow> filter P (xs @ [y]) = [y]"
  by (induction xs) auto

lemma issued_row_simps [simp]:
  "tok_id (issued_row d r k n u i p) = k" "tok_userId (issued_row d r k n u i p) = u"
  "tok_projectId (issued_row d r k n u i p) = p" "tok_hash (issued_row d r k n u i p) = d (''tlg_pat_'' @ r)"
  "tok_permissions (issued_row d r k n u i p) = ct_permissions i"
  "tok_expiresAt (issued_row d r k n u i p) = n + int (ct_expiresInDays i) * 86400000"
  "tok_revokedAt (issued_row d r k n u i p) = None"
  by (simp_all add: issued_row_def)

lemma token_lookup_issued:
  assumes "db_tokens db' = db_tokens db @ [row]"
    and "\<not> list_ex (\<lambda>t. tok_hash t = tok_hash row) (db_tokens db)"
    and "token_active now row"
    and "List.find (\<lambda>u. u_id u = tok_userId row) (db_users db') = Some owner" "\<not> u_banned owner"
  shows "token_lookup db' now (tok_hash row) = Some (row, owner)"
proof -
  have f: "filter (\<lambda>t. tok_hash t = tok_hash row \<and> token_active now t) (db_tokens db') = [row]"
    using assms(1-3) by (auto simp: list_ex_iff intro!: filter_unique_last)
  from assms(4) obtain ys zs where "db_users db' = ys @ owner # zs" "u_id owner = tok_userId row"
    "\<forall>y\<in>set ys. u_id y \<noteq> tok_userId row" by (auto simp: find_first)
  moreover from this have "filter (\<lambda>u. u_id u = tok_userId row \<and> \<not> u_banned u) ys = []"
    by (auto simp: filter_empty_conv)
  ultimately show ?thesis using assms(5) by (simp add: token_lookup_def f)
qed



end
