(* ===== verification/Project_Context.thy ===== *)
theory Project_Context
  imports Access_Tokens
begin

text \<open>
  The authority a request runs with and the ownership checks made under it
  (\<^verbatim>\<open>controller/server/services/project-context.ts\<close>), together with the Project
  lookups of \<^verbatim>\<open>controller/server/services/projects.ts\<close> and the allocation of Runner
  pools to Projects (\<^verbatim>\<open>runner-allocation.ts\<close>) that the request gate calls. The value an
  asynchronous store holds during a callback is an explicit argument of type
  \<open>AuthorityContext option\<close>; \<open>None\<close> is trusted startup, Runner and migration work.
\<close>

section \<open>Authority\<close>

datatype AuthorityContext =
    PlatformScope "string option"
  | ProjectScope string "string option" "AccountRole option"
  | UserScope string AccountRole

text \<open>A nullable string is falsy when it is missing or empty.\<close>

definition falsy :: "string option \<Rightarrow> bool" where
  "falsy s = (s = None \<or> s = Some [])"

definition runWithProjectContext ::
  "string option \<Rightarrow> string option \<Rightarrow> AccountRole option \<Rightarrow> thrown + AuthorityContext" where
  "runWithProjectContext projectId actorId role =
     (if falsy projectId \<and> role \<noteq> Some Admin
      then Inl (ValidationError ''A project ID is required.'' [])
      else if role = Some Admin then Inr (PlatformScope (if falsy actorId then None else actorId))
      else Inr (ProjectScope (the projectId) actorId role))"

definition runWithProjectReadContext :: "string \<Rightarrow> string \<Rightarrow> AuthorityContext" where
  "runWithProjectReadContext projectId actorId = ProjectScope projectId (Some actorId) (Some Admin)"

definition runWithUserContext :: "string \<Rightarrow> AccountRole \<Rightarrow> AuthorityContext" where
  "runWithUserContext actorId role = UserScope actorId role"

fun currentProjectId :: "AuthorityContext option \<Rightarrow> thrown + string option" where
  "currentProjectId (Some (UserScope _ _)) =
     Inl (ControllerError ''Project authority is required for this resource.'' 403 ''project_required'' [])"
| "currentProjectId (Some (ProjectScope p _ _)) = Inr (Some p)"
| "currentProjectId _ = Inr None"

datatype AuthorityScope = Platform | Project | UserAccount

fun currentAuthorityScope :: "AuthorityContext option \<Rightarrow> AuthorityScope option" where
  "currentAuthorityScope None = None"
| "currentAuthorityScope (Some (PlatformScope _)) = Some Platform"
| "currentAuthorityScope (Some (ProjectScope _ _ _)) = Some Project"
| "currentAuthorityScope (Some (UserScope _ _)) = Some UserAccount"

fun currentAccountRole :: "AuthorityContext option \<Rightarrow> AccountRole option" where
  "currentAccountRole None = None"
| "currentAccountRole (Some (PlatformScope _)) = Some Admin"
| "currentAccountRole (Some (ProjectScope _ _ role)) = role"
| "currentAccountRole (Some (UserScope _ role)) = Some role"

definition assertPlatformAuthority :: "AuthorityContext option \<Rightarrow> thrown + unit" where
  "assertPlatformAuthority ctx = and_then (currentProjectId ctx) (\<lambda>p.
     if \<not> falsy p then Inl (ControllerError ''Platform administrator access is required.'' 403 ''forbidden'' [])
     else Inr ())"

definition projectOwnerForCreate :: "AuthorityContext option \<Rightarrow> thrown + string" where
  "projectOwnerForCreate ctx = and_then (currentProjectId ctx) (\<lambda>p.
     if falsy p
     then Inl (ControllerError ''Select an initialized project before creating resources.'' 403 ''project_required'' [])
     else Inr (the p))"

section \<open>Owners of resources\<close>

datatype ResourceType = Guardrail | Router | Endpoint | Policy | Model

text \<open>Owned rows: identifier, owner and the soft-deletion mark. The three tables that may hold
  a root of one Policy identity have no deletion mark and always an owner; a platform Model has
  no owner.\<close>

record owned_row =
  own_id :: string
  own_projectId :: "string option"
  own_deleted :: bool

record owner_db =
  od_guardrails :: "owned_row list"
  od_trafficRouters :: "owned_row list"
  od_endpoints :: "owned_row list"
  od_policyResources :: "(string \<times> string) list"
  od_policyRecords :: "(string \<times> string) list"
  od_policyImportedVersions :: "(string \<times> string) list"
  od_modelDefinitions :: "(string \<times> string option) list"

definition live_owner :: "owned_row list \<Rightarrow> string \<Rightarrow> string option" where
  "live_owner rows key =
     Option.bind (List.find (\<lambda>r. own_id r = key \<and> \<not> own_deleted r) rows) own_projectId"

definition policy_roots :: "owner_db \<Rightarrow> string \<Rightarrow> string list" where
  "policy_roots db key = map snd (filter (\<lambda>r. fst r = key)
     (od_policyResources db @ od_policyRecords db @ od_policyImportedVersions db))"

fun resourceOwner :: "owner_db \<Rightarrow> ResourceType \<Rightarrow> string \<Rightarrow> string option" where
  "resourceOwner db Guardrail key = live_owner (od_guardrails db) key"
| "resourceOwner db Router key = live_owner (od_trafficRouters db) key"
| "resourceOwner db Endpoint key = live_owner (od_endpoints db) key"
| "resourceOwner db Policy key =
     (case remdups (policy_roots db key) of [p] \<Rightarrow> Some p | _ \<Rightarrow> None)"
| "resourceOwner db Model key =
     Option.bind (List.find (\<lambda>r. fst r = key) (od_modelDefinitions db)) snd"

text \<open>Row predicates added to queries; \<open>undefined\<close>, no restriction, is the predicate that
  always holds.\<close>

definition policyOwnershipPredicate :: "owner_db \<Rightarrow> string \<Rightarrow> string option \<Rightarrow> bool" where
  "policyOwnershipPredicate db key owner = list_all (\<lambda>p. Some p = owner) (policy_roots db key)"

definition resourceReadPredicate ::
  "owner_db \<Rightarrow> AuthorityContext option \<Rightarrow> ResourceType \<Rightarrow> thrown + (string \<Rightarrow> string option \<Rightarrow> bool)" where
  "resourceReadPredicate db ctx kind = and_then (currentProjectId ctx) (\<lambda>p.
     if falsy p then Inr (\<lambda>_ _. True)
     else if kind = Model then Inr (\<lambda>_ owner. owner = p \<or> owner = None)
     else if kind = Policy then Inr (\<lambda>key owner. owner = p \<and> policyOwnershipPredicate db key owner)
     else Inr (\<lambda>_ owner. owner = p))"

definition policyWritePredicate ::
  "owner_db \<Rightarrow> AuthorityContext option \<Rightarrow> thrown + (string \<Rightarrow> string option \<Rightarrow> bool)" where
  "policyWritePredicate db ctx = and_then (currentProjectId ctx) (\<lambda>p.
     if falsy p then Inr (\<lambda>_ _. True)
     else Inr (\<lambda>key owner. owner = p \<and> policyOwnershipPredicate db key owner))"

definition resourceWritePredicate ::
  "AuthorityContext option \<Rightarrow> thrown + (string option \<Rightarrow> bool)" where
  "resourceWritePredicate ctx = and_then (currentProjectId ctx) (\<lambda>p.
     if falsy p then Inr (\<lambda>_. True) else Inr (\<lambda>owner. owner = p))"

fun kind_name :: "ResourceType \<Rightarrow> string" where
  "kind_name Guardrail = ''guardrail''"
| "kind_name Router = ''router''"
| "kind_name Endpoint = ''endpoint''"
| "kind_name Policy = ''policy''"
| "kind_name Model = ''model''"

definition assertResourceOwner ::
  "owner_db \<Rightarrow> AuthorityContext option \<Rightarrow> ResourceType \<Rightarrow> string \<Rightarrow> thrown + unit" where
  "assertResourceOwner db ctx kind key = and_then (currentProjectId ctx) (\<lambda>p.
     if falsy p then Inl (ValidationError ''Project context is required to manage resources.'' [])
     else if resourceOwner db kind key \<noteq> p then Inl (NotFoundError (kind_name kind) key)
     else Inr ())"

definition assertResourceWriteAccess ::
  "owner_db \<Rightarrow> AuthorityContext option \<Rightarrow> ResourceType \<Rightarrow> string \<Rightarrow> thrown + unit" where
  "assertResourceWriteAccess db ctx kind key = and_then (currentProjectId ctx) (\<lambda>p.
     if \<not> falsy p \<and> resourceOwner db kind key \<noteq> p then Inl (NotFoundError (kind_name kind) key)
     else Inr ())"

definition assertResourceReadAccess ::
  "owner_db \<Rightarrow> AuthorityContext option \<Rightarrow> ResourceType \<Rightarrow> string \<Rightarrow> thrown + unit" where
  "assertResourceReadAccess db ctx kind key = and_then (currentProjectId ctx) (\<lambda>p.
     if falsy p then Inr ()
     else let owner = resourceOwner db kind key
          in if falsy owner
             then if kind = Model then Inr () else Inl (NotFoundError (kind_name kind) key)
             else if owner \<noteq> p then Inl (NotFoundError (kind_name kind) key) else Inr ())"

section \<open>Projects, members and Runner pools\<close>

record project_row =
  pr_id :: string
  pr_name :: string
  pr_groupId :: string

record pool_row =
  pool_id :: string
  pool_projectId :: "string option"
  pool_groupId :: string
  pool_runtimeUrl :: "string option"

record project_db =
  pd_projects :: "project_row list"
  pd_pools :: "pool_row list"
  pd_members :: "member_row list"
  pd_defaultRuntimeUrl :: "string option"

definition projectPoolAllocation :: "pool_row list \<Rightarrow> project_row \<Rightarrow> pool_row \<Rightarrow> bool" where
  "projectPoolAllocation pools pr pool = (pr_groupId pr = pool_groupId pool \<and>
     (pool_projectId pool = Some (pr_id pr) \<or>
      (pool_id pool = ''default'' \<and> \<not> list_ex (\<lambda>d. pool_projectId d = Some (pr_id pr)) pools)))"

definition runnerInitialized :: "project_db \<Rightarrow> string \<Rightarrow> bool" where
  "runnerInitialized db projectId = list_ex (\<lambda>pr. pr_id pr = projectId \<and>
     list_ex (\<lambda>pool. projectPoolAllocation (pd_pools db) pr pool \<and>
       (\<not> falsy (pool_runtimeUrl pool) \<or> (pool_id pool = ''default'' \<and> \<not> falsy (pd_defaultRuntimeUrl db))))
       (pd_pools db)) (pd_projects db)"

definition requireExists :: "project_db \<Rightarrow> string \<Rightarrow> thrown + unit" where
  "requireExists db projectId =
     (if List.find (\<lambda>pr. pr_id pr = projectId) (pd_projects db) = None
      then Inl (NotFoundError ''Project'' projectId) else Inr ())"

definition membership :: "project_db \<Rightarrow> string \<Rightarrow> string \<Rightarrow> member_row option" where
  "membership db userId projectId =
     List.find (\<lambda>m. mem_userId m = userId \<and> mem_projectId m = projectId) (pd_members db)"

section \<open>Isolation\<close>

lemma distinct_singleton_set: "distinct ys \<Longrightarrow> set ys = {p} \<longleftrightarrow> ys = [p]"
  by (cases ys; cases "tl ys") auto

lemma policy_owner_unique:
  "resourceOwner db Policy key = Some p \<longleftrightarrow> set (policy_roots db key) = {p}"
proof -
  have "remdups (policy_roots db key) = [p] \<longleftrightarrow> set (policy_roots db key) = {p}"
    using distinct_singleton_set [of "remdups (policy_roots db key)" p] by simp
  moreover have "(case xs of [q] \<Rightarrow> Some q | _ \<Rightarrow> None) = Some p \<longleftrightarrow> xs = [p]" for xs :: "string list"
    by (cases xs; cases "tl xs") auto
  ultimately show ?thesis by (simp only: resourceOwner.simps)
qed

text \<open>
  The contract of an ownership check: under Project authority it lets through only rows the
  Project owns, except where a kind of resource may be without an owner.
\<close>

locale ownership_check =
  fixes check :: "owner_db \<Rightarrow> AuthorityContext option \<Rightarrow> ResourceType \<Rightarrow> string \<Rightarrow> thrown + unit"
    and unowned_ok :: "ResourceType \<Rightarrow> bool"
  assumes project_only:
    "check db (Some (ProjectScope p a r)) kind key = Inr () \<Longrightarrow> p \<noteq> [] \<Longrightarrow>
      resourceOwner db kind key = Some p \<or> (unowned_ok kind \<and> falsy (resourceOwner db kind key))"
    and user_scope_fails: "throwing (check db (Some (UserScope actor role)) kind key)"
begin

lemma foreign_owner_rejected:
  assumes "resourceOwner db kind key = Some q" "q \<noteq> p" "q \<noteq> []" "p \<noteq> []"
  shows "throwing (check db (Some (ProjectScope p a r)) kind key)"
  using assms project_only [of db p a r kind key]
  by (cases "check db (Some (ProjectScope p a r)) kind key") (auto simp: falsy_def)

end

interpretation read_check: ownership_check assertResourceReadAccess "\<lambda>kind. kind = Model"
  by unfold_locales
    (auto simp: assertResourceReadAccess_def falsy_def Let_def split: if_splits)

interpretation write_check: ownership_check assertResourceWriteAccess "\<lambda>_. False"
  by unfold_locales (auto simp: assertResourceWriteAccess_def falsy_def split: if_splits)

interpretation owner_check: ownership_check assertResourceOwner "\<lambda>_. False"
  by unfold_locales (auto simp: assertResourceOwner_def falsy_def split: if_splits)

end
