(* ===== verification/Runner_Capacity.thy ===== *)
theory Runner_Capacity
  imports Js_Prelude
begin

text \<open>
  Capacity of a Runner pool and the operational status of the fleet:
  \<^verbatim>\<open>controller/server/domain/capacity.ts\<close> and
  \<^verbatim>\<open>controller/server/domain/platform-status.ts\<close>. Measurements are exact rationals,
  instants are milliseconds. The main results: the published pressure figures are bounded, the
  recommended replica count covers the demand, and a fleet is reported healthy under exactly the
  conditions the code tests for.
\<close>

section \<open>Pool capacity\<close>

record RunnerCapacityInput =
  rc_status :: string
  rc_inflight :: rat
  rc_maxConcurrency :: rat
  rc_queueDepth :: rat
  rc_cpuUtilization :: rat
  rc_memoryUtilization :: rat
  rc_requestsPerSecond :: rat
  rc_errorRate :: rat
  rc_latencyP95Ms :: rat

datatype capacity_status = CapReady | CapBusy | CapSaturated | CapDegraded | CapOffline

datatype bottleneck = OnConcurrency | OnQueue | OnCpu | OnMemory | OnNone

record PoolCapacity =
  readyRunners :: nat
  totalRunners :: nat
  totalConcurrency :: rat
  inflight :: rat
  queueDepth :: rat
  requestsPerSecond :: rat
  currentRps :: rat
  safeRpsCapacity :: rat
  headroomRps :: rat
  utilization :: rat
  inflightUtilization :: rat
  cpuUtilization :: rat
  memoryUtilization :: rat
  errorRate :: rat
  worstRunnerLatencyP95Ms :: rat
  latencyP95Ms :: rat
  capacity_status :: capacity_status
  recommendedReplicas :: int
  bottleneck :: bottleneck

record PoolCapacityTotals =
  pt_totalRunners :: nat
  pt_readyRunners :: nat
  pt_totalConcurrency :: rat
  pt_inflight :: rat
  pt_queueDepth :: rat
  pt_requestsPerSecond :: rat
  pt_cpuUtilization :: rat
  pt_memoryUtilization :: rat
  pt_maxErrorRate :: rat
  pt_weightedErrorNumerator :: rat
  pt_worstRunnerLatencyP95Ms :: rat

definition maximum :: "rat list \<Rightarrow> rat" where
  "maximum vs = fold (\<lambda>v result. max result (max 0 v)) vs 0"

text \<open>\<open>Math.round\<close> rounds a half upwards; four decimals are kept.\<close>

definition round4 :: "rat \<Rightarrow> rat" where
  "round4 v = of_int \<lfloor>v * 10000 + 1 / 2\<rfloor> / 10000"

definition sum_over :: "('a \<Rightarrow> rat) \<Rightarrow> 'a list \<Rightarrow> rat" where
  "sum_over f rs = fold (\<lambda>r s. s + f r) rs 0"

text \<open>The reduction over the four pressures, starting from the first of them; a later one wins
  only when it is strictly larger.\<close>

definition highest_pressure :: "(bottleneck \<times> rat) list \<Rightarrow> bottleneck \<times> rat \<Rightarrow> bottleneck \<times> rat" where
  "highest_pressure ps start = fold (\<lambda>c h. if snd c > snd h then c else h) ps start"

definition pressures :: "PoolCapacityTotals \<Rightarrow> (bottleneck \<times> rat) list" where
  "pressures t =
    [(OnConcurrency, if pt_totalConcurrency t > 0 then pt_inflight t / pt_totalConcurrency t else 0),
     (OnQueue, if pt_queueDepth t > 0
        then min 1 (pt_queueDepth t / max 1 (of_nat (pt_readyRunners t) * 10)) else 0),
     (OnCpu, pt_cpuUtilization t),
     (OnMemory, pt_memoryUtilization t)]"

definition pool_status :: "PoolCapacityTotals \<Rightarrow> rat \<Rightarrow> capacity_status" where
  "pool_status t used =
    (if pt_readyRunners t = 0 then CapOffline
     else if pt_maxErrorRate t \<ge> 5 / 100 then CapDegraded
     else if used \<ge> 9 / 10 \<or> pt_queueDepth t > of_nat (pt_readyRunners t) * 10 then CapSaturated
     else if used \<ge> 7 / 10 then CapBusy
     else CapReady)"

definition recommended :: "PoolCapacityTotals \<Rightarrow> rat \<Rightarrow> rat \<Rightarrow> rat option \<Rightarrow> rat \<Rightarrow> int \<Rightarrow> int" where
  "recommended t used safeRpsPerRunner predictedPeakRps safetyFactor minimumReplicas =
    (let n = int (pt_readyRunners t);
         demand = max (pt_requestsPerSecond t) (case predictedPeakRps of Some p \<Rightarrow> p | None \<Rightarrow> 0);
         rpsReplicas = (if safeRpsPerRunner > 0
           then \<lceil>demand * safetyFactor / safeRpsPerRunner\<rceil> else n);
         pressureReplicas = (if pt_readyRunners t > 0
           then \<lceil>of_int n * max 1 (used * safetyFactor)\<rceil> else minimumReplicas);
         queueReplicas = (if pt_queueDepth t > 0 then n + \<lceil>pt_queueDepth t / 10\<rceil> else n)
     in max (max (max minimumReplicas rpsReplicas) pressureReplicas) queueReplicas)"

definition calculatePoolCapacityFromTotals ::
  "PoolCapacityTotals \<Rightarrow> rat \<Rightarrow> rat option \<Rightarrow> rat \<Rightarrow> int \<Rightarrow> PoolCapacity" where
  "calculatePoolCapacityFromTotals t safeRpsPerRunner predictedPeakRps safetyFactor minimumReplicas =
    (let concurrency = snd (hd (pressures t));
         (worst, used) = highest_pressure (pressures t) (OnConcurrency, concurrency);
         safe = of_nat (pt_readyRunners t) * max 0 safeRpsPerRunner;
         aggregateErrorRate = (if pt_requestsPerSecond t > 0
           then pt_weightedErrorNumerator t / pt_requestsPerSecond t else pt_maxErrorRate t)
     in \<lparr>readyRunners = pt_readyRunners t, totalRunners = pt_totalRunners t,
          totalConcurrency = pt_totalConcurrency t, inflight = pt_inflight t,
          queueDepth = pt_queueDepth t,
          requestsPerSecond = round4 (pt_requestsPerSecond t),
          currentRps = round4 (pt_requestsPerSecond t),
          safeRpsCapacity = round4 safe,
          headroomRps = round4 (max 0 (safe - pt_requestsPerSecond t)),
          utilization = round4 (min 1 used),
          inflightUtilization = round4 (min 1 concurrency),
          cpuUtilization = round4 (pt_cpuUtilization t),
          memoryUtilization = round4 (pt_memoryUtilization t),
          errorRate = round4 aggregateErrorRate,
          worstRunnerLatencyP95Ms = round4 (pt_worstRunnerLatencyP95Ms t),
          latencyP95Ms = round4 (pt_worstRunnerLatencyP95Ms t),
          capacity_status = pool_status t used,
          recommendedReplicas =
            recommended t used safeRpsPerRunner predictedPeakRps safetyFactor minimumReplicas,
          bottleneck = (if used = 0 then OnNone else worst)\<rparr>)"

definition serving_status :: "string \<Rightarrow> bool" where
  "serving_status s \<longleftrightarrow> s \<in> set [''ready'', ''busy'', ''saturated'']"

definition ready_runners :: "RunnerCapacityInput list \<Rightarrow> RunnerCapacityInput list" where
  "ready_runners runners = filter (\<lambda>r. serving_status (rc_status r)) runners"

definition pool_totals :: "RunnerCapacityInput list \<Rightarrow> PoolCapacityTotals" where
  "pool_totals runners =
    (let ready = ready_runners runners
     in \<lparr>pt_totalRunners = length runners, pt_readyRunners = length ready,
          pt_totalConcurrency = sum_over (\<lambda>r. max 0 (rc_maxConcurrency r)) ready,
          pt_inflight = sum_over (\<lambda>r. max 0 (rc_inflight r)) ready,
          pt_queueDepth = sum_over (\<lambda>r. max 0 (rc_queueDepth r)) ready,
          pt_requestsPerSecond = sum_over (\<lambda>r. max 0 (rc_requestsPerSecond r)) ready,
          pt_cpuUtilization = maximum (map rc_cpuUtilization ready),
          pt_memoryUtilization = maximum (map rc_memoryUtilization ready),
          pt_maxErrorRate = maximum (map rc_errorRate ready),
          pt_weightedErrorNumerator =
            sum_over (\<lambda>r. max 0 (rc_errorRate r) * max 0 (rc_requestsPerSecond r)) ready,
          pt_worstRunnerLatencyP95Ms = maximum (map rc_latencyP95Ms ready)\<rparr>)"

definition calculatePoolCapacity ::
  "RunnerCapacityInput list \<Rightarrow> rat \<Rightarrow> rat option \<Rightarrow> rat \<Rightarrow> int \<Rightarrow> PoolCapacity" where
  "calculatePoolCapacity runners safeRpsPerRunner predictedPeakRps safetyFactor minimumReplicas =
    calculatePoolCapacityFromTotals (pool_totals runners)
      safeRpsPerRunner predictedPeakRps safetyFactor minimumReplicas"

section \<open>Fleet status\<close>

datatype RunnerStatus = Syncing | Ready | Busy | Saturated | Offline

datatype PlatformOperationalStatus = Initializing | Healthy | Degraded | Unavailable

datatype PlatformStatusReason =
    AllRequiredComponentsReady | RunnerConfigurationSyncing | RunnerCapacityBelowDesired
  | RunnerSaturated | RunnerErrors | NoServingRunners | NoConnectedRunners
  | ModelValidationRequired | RequiredModelBindingsMissing | RunnerHeartbeatStale

text \<open>A heartbeat that is not a valid date is \<open>None\<close>.\<close>

record RunnerLoad =
  requestsDelta :: rat
  errorsDelta :: rat
  timeoutsDelta :: rat

record RunnerInstance =
  ri_status :: RunnerStatus
  lastHeartbeatAt :: "int option"
  appliedGeneration :: int
  load :: "RunnerLoad option"

record RunnerPoolStatusInput =
  desiredReplicas :: nat
  instances :: "RunnerInstance list"
  pool_capacity :: PoolCapacity

record DerivedRunnerFleetStatus =
  fleet_status :: PlatformOperationalStatus
  reasons :: "PlatformStatusReason list"
  servingRunners :: nat
  desiredRunners :: nat
  connectedRunners :: nat
  fleet_totalRunners :: nat
  convergedRunners :: nat
  saturatedRunners :: nat

record FleetEvidence =
  observedAt :: int
  offlineAfterSeconds :: int
  desiredGeneration :: int

definition is_connected :: "FleetEvidence \<Rightarrow> RunnerInstance \<Rightarrow> bool" where
  "is_connected ev r \<longleftrightarrow> ri_status r \<noteq> Offline \<and>
    (case lastHeartbeatAt r of None \<Rightarrow> False
     | Some t \<Rightarrow> t \<ge> observedAt ev - offlineAfterSeconds ev * 1000)"

definition is_converged :: "FleetEvidence \<Rightarrow> RunnerInstance \<Rightarrow> bool" where
  "is_converged ev r \<longleftrightarrow> ri_status r \<noteq> Syncing \<and> appliedGeneration r = desiredGeneration ev"

definition failing_load :: "RunnerInstance \<Rightarrow> bool" where
  "failing_load r = (case load r of None \<Rightarrow> False
     | Some l \<Rightarrow> requestsDelta l > 0 \<and> (errorsDelta l + timeoutsDelta l) / requestsDelta l \<ge> 5 / 100)"

definition pool_instances :: "RunnerPoolStatusInput option \<Rightarrow> RunnerInstance list" where
  "pool_instances pool = (case pool of None \<Rightarrow> [] | Some p \<Rightarrow> instances p)"

definition connected_of :: "RunnerPoolStatusInput option \<Rightarrow> FleetEvidence \<Rightarrow> RunnerInstance list" where
  "connected_of pool ev = filter (is_connected ev) (pool_instances pool)"

definition stale_of :: "RunnerPoolStatusInput option \<Rightarrow> FleetEvidence \<Rightarrow> RunnerInstance list" where
  "stale_of pool ev =
    filter (\<lambda>r. ri_status r \<noteq> Offline \<and> r \<notin> set (connected_of pool ev)) (pool_instances pool)"

definition converged_of :: "RunnerPoolStatusInput option \<Rightarrow> FleetEvidence \<Rightarrow> RunnerInstance list" where
  "converged_of pool ev = filter (is_converged ev) (connected_of pool ev)"

definition saturated_of :: "RunnerPoolStatusInput option \<Rightarrow> FleetEvidence \<Rightarrow> RunnerInstance list" where
  "saturated_of pool ev = filter (\<lambda>r. ri_status r = Saturated) (converged_of pool ev)"

definition serving_of :: "RunnerPoolStatusInput option \<Rightarrow> FleetEvidence \<Rightarrow> nat" where
  "serving_of pool ev = min (length (converged_of pool ev))
     (case pool of None \<Rightarrow> 0 | Some p \<Rightarrow> readyRunners (pool_capacity p))"

definition desired_of :: "RunnerPoolStatusInput option \<Rightarrow> nat" where
  "desired_of pool = (case pool of None \<Rightarrow> 0 | Some p \<Rightarrow> desiredReplicas p)"

definition pool_reports :: "RunnerPoolStatusInput option \<Rightarrow> capacity_status \<Rightarrow> bool" where
  "pool_reports pool st = (case pool of None \<Rightarrow> False | Some p \<Rightarrow> capacity_status (pool_capacity p) = st)"

definition allServingConverged :: "RunnerPoolStatusInput option \<Rightarrow> FleetEvidence \<Rightarrow> bool" where
  "allServingConverged pool ev \<longleftrightarrow>
    list_all (\<lambda>r. r \<in> set (converged_of pool ev))
      (filter (\<lambda>r. ri_status r \<in> {Ready, Busy, Saturated}) (pool_instances pool))"

definition push_if :: "bool \<Rightarrow> 'a \<Rightarrow> 'a list" where
  "push_if b x = (if b then [x] else [])"

definition fleet_findings :: "RunnerPoolStatusInput option \<Rightarrow> FleetEvidence \<Rightarrow> PlatformStatusReason list" where
  "fleet_findings pool ev =
    push_if (serving_of pool ev < desired_of pool) RunnerCapacityBelowDesired @
    push_if (length (connected_of pool ev) > length (converged_of pool ev)) RunnerConfigurationSyncing @
    push_if (stale_of pool ev \<noteq> []) RunnerHeartbeatStale @
    push_if (saturated_of pool ev \<noteq> [] \<or> allServingConverged pool ev \<and> pool_reports pool CapSaturated)
      RunnerSaturated @
    push_if (allServingConverged pool ev \<and> pool_reports pool CapDegraded \<or>
        list_ex failing_load (converged_of pool ev)) RunnerErrors"

definition deriveRunnerFleetStatus ::
  "RunnerPoolStatusInput option \<Rightarrow> FleetEvidence \<Rightarrow> DerivedRunnerFleetStatus" where
  "deriveRunnerFleetStatus pool ev =
    (let summary = (\<lambda>st rs. \<lparr>fleet_status = st, reasons = rs, servingRunners = serving_of pool ev,
           desiredRunners = desired_of pool, connectedRunners = length (connected_of pool ev),
           fleet_totalRunners = length (pool_instances pool),
           convergedRunners = length (converged_of pool ev),
           saturatedRunners = length (saturated_of pool ev)\<rparr>)
     in if connected_of pool ev = [] then
          summary Unavailable (NoConnectedRunners # push_if (stale_of pool ev \<noteq> []) RunnerHeartbeatStale)
        else if serving_of pool ev = 0 \<and> converged_of pool ev = [] then
          summary Initializing [RunnerConfigurationSyncing]
        else if serving_of pool ev = 0 then summary Unavailable [NoServingRunners]
        else if fleet_findings pool ev \<noteq> [] then summary Degraded (fleet_findings pool ev)
        else summary Healthy [AllRequiredComponentsReady])"

section \<open>Properties of the capacity figures\<close>

lemma round4_mono: "a \<le> b \<Longrightarrow> round4 a \<le> round4 b"
  unfolding round4_def by (intro divide_right_mono of_int_le_iff [THEN iffD2] floor_mono) simp_all

lemma round4_int [simp]: "round4 0 = 0" "round4 1 = 1"
  by (simp_all add: round4_def floor_eq_iff)

lemma maximum_fold:
  "fold (\<lambda>v result. max result (max 0 v)) vs (z :: rat) \<ge> z"
  "v \<in> set vs \<Longrightarrow> fold (\<lambda>v result. max result (max 0 v)) vs (z :: rat) \<ge> v"
proof -
  show ge: "fold (\<lambda>v result. max result (max 0 v)) vs z \<ge> z" for vs and z :: rat
  proof (induction vs arbitrary: z)
    case (Cons v vs)
    have "z \<le> max z (max 0 v)" by simp
    also note Cons [of "max z (max 0 v)"]
    finally show ?case by simp
  qed simp
  show "v \<in> set vs \<Longrightarrow> fold (\<lambda>v result. max result (max 0 v)) vs z \<ge> v" for vs and v z :: rat
  proof (induction vs arbitrary: z)
    case (Cons w vs)
    show ?case
    proof (cases "v = w")
      case True
      have "w \<le> max z (max 0 w)" by simp
      also have "\<dots> \<le> fold (\<lambda>v result. max result (max 0 v)) vs (max z (max 0 w))" by (rule ge)
      finally show ?thesis by (simp add: True)
    next
      case False
      with Cons show ?thesis by simp
    qed
  qed simp
qed

lemma maximum_nonneg [simp]: "0 \<le> maximum vs"
  by (simp add: maximum_def maximum_fold(1))

lemma maximum_upper: "v \<in> set vs \<Longrightarrow> v \<le> maximum vs"
  by (simp add: maximum_def maximum_fold(2))

lemma highest_pressure_fold:
  "snd (highest_pressure ps s) \<ge> snd s"
  "p \<in> set ps \<Longrightarrow> snd p \<le> snd (highest_pressure ps s)"
  "highest_pressure ps s = s \<or> highest_pressure ps s \<in> set ps"
proof -
  show ge: "snd (highest_pressure ps s) \<ge> snd s" for ps s
    by (induction ps arbitrary: s)
      (auto simp: highest_pressure_def intro: order_trans [OF less_imp_le])
  show "p \<in> set ps \<Longrightarrow> snd p \<le> snd (highest_pressure ps s)" for ps s and p
  proof (induction ps arbitrary: s)
    case (Cons q ps)
    have step: "highest_pressure (q # ps) s = highest_pressure ps (if snd q > snd s then q else s)"
      by (simp add: highest_pressure_def)
    show ?case
    proof (cases "p = q")
      case True
      have "snd q \<le> snd (if snd q > snd s then q else s)" by simp
      also have "\<dots> \<le> snd (highest_pressure (q # ps) s)" unfolding step by (rule ge)
      finally show ?thesis by (simp add: True)
    next
      case False
      with Cons show ?thesis by (simp add: step)
    qed
  qed simp
  show "highest_pressure ps s = s \<or> highest_pressure ps s \<in> set ps" for ps s
    by (induction ps arbitrary: s) (auto simp: highest_pressure_def split: if_splits)
qed

definition used_of :: "PoolCapacityTotals \<Rightarrow> rat" where
  "used_of t = snd (highest_pressure (pressures t) (OnConcurrency, snd (hd (pressures t))))"

lemma pressure_le_used: "p \<in> set (pressures t) \<Longrightarrow> snd p \<le> used_of t"
  by (simp add: used_of_def highest_pressure_fold(2))

lemma capacity_fields:
  fixes t p pk sf m
  defines "c \<equiv> calculatePoolCapacityFromTotals t p pk sf m"
  shows "utilization c = round4 (min 1 (used_of t))"
    "inflightUtilization c = round4 (min 1 (snd (hd (pressures t))))"
    "headroomRps c = round4 (max 0 (of_nat (pt_readyRunners t) * max 0 p - pt_requestsPerSecond t))"
    "capacity_status c = pool_status t (used_of t)"
    "recommendedReplicas c = recommended t (used_of t) p pk sf m"
    "readyRunners c = pt_readyRunners t"
  by (simp_all add: c_def calculatePoolCapacityFromTotals_def used_of_def Let_def case_prod_unfold)

lemma recommended_covers:
  shows "m \<le> recommended t u p pk sf m"
    and "int (pt_readyRunners t) \<le> recommended t u p pk sf m"
    and "p > 0 \<Longrightarrow> max (pt_requestsPerSecond t) (case pk of Some x \<Rightarrow> x | None \<Rightarrow> 0) * sf
           \<le> of_int (recommended t u p pk sf m) * p"
proof -
  show "m \<le> recommended t u p pk sf m" by (simp add: recommended_def Let_def)
  have "0 \<le> \<lceil>pt_queueDepth t / 10\<rceil>" if "pt_queueDepth t > 0"
  proof -
    have "0 < pt_queueDepth t / 10" using that by simp
    then show ?thesis by linarith
  qed
  then show "int (pt_readyRunners t) \<le> recommended t u p pk sf m"
    by (auto simp: recommended_def Let_def le_max_iff_disj)
  assume p: "p > 0"
  let ?d = "max (pt_requestsPerSecond t) (case pk of Some x \<Rightarrow> x | None \<Rightarrow> 0)"
  have "\<lceil>?d * sf / p\<rceil> \<le> recommended t u p pk sf m"
    using p by (simp add: recommended_def Let_def)
  then have "?d * sf / p \<le> of_int (recommended t u p pk sf m)"
    by (meson ceiling_le_iff)
  then show "?d * sf \<le> of_int (recommended t u p pk sf m) * p"
    using p by (simp add: divide_le_eq)
qed

lemma pool_totals_fields [simp]:
  "pt_readyRunners (pool_totals rs) = length (ready_runners rs)"
  "pt_cpuUtilization (pool_totals rs) = maximum (map rc_cpuUtilization (ready_runners rs))"
  "pt_memoryUtilization (pool_totals rs) = maximum (map rc_memoryUtilization (ready_runners rs))"
  "pt_maxErrorRate (pool_totals rs) = maximum (map rc_errorRate (ready_runners rs))"
  by (simp_all add: pool_totals_def Let_def)

lemma used_nonneg: "0 \<le> used_of (pool_totals rs)"
proof -
  have "(OnCpu, pt_cpuUtilization (pool_totals rs)) \<in> set (pressures (pool_totals rs))"
    by (simp add: pressures_def)
  from pressure_le_used [OF this]
  have "maximum (map rc_cpuUtilization (ready_runners rs)) \<le> used_of (pool_totals rs)" by simp
  with maximum_nonneg show ?thesis by (rule order_trans)
qed

lemma ready_pool_runner:
  assumes "capacity_status (calculatePoolCapacity rs p pk sf m) = CapReady"
    and "r \<in> set rs" "serving_status (rc_status r)"
  shows "rc_errorRate r < 5 / 100 \<and> rc_cpuUtilization r < 7 / 10 \<and> rc_memoryUtilization r < 7 / 10"
proof -
  let ?t = "pool_totals rs"
  have st: "pool_status ?t (used_of ?t) = CapReady"
    using assms(1) by (simp add: calculatePoolCapacity_def capacity_fields)
  then have "used_of ?t < 7 / 10" "pt_maxErrorRate ?t < 5 / 100"
    by (auto simp: pool_status_def split: if_splits)
  moreover have "pt_cpuUtilization ?t \<le> used_of ?t" "pt_memoryUtilization ?t \<le> used_of ?t"
    using pressure_le_used [of "(OnCpu, pt_cpuUtilization ?t)" ?t]
      pressure_le_used [of "(OnMemory, pt_memoryUtilization ?t)" ?t] by (simp_all add: pressures_def)
  moreover have "r \<in> set (ready_runners rs)" using assms(2,3) by (simp add: ready_runners_def)
  ultimately show ?thesis
    using maximum_upper [of "rc_errorRate r" "map rc_errorRate (ready_runners rs)"]
      maximum_upper [of "rc_cpuUtilization r" "map rc_cpuUtilization (ready_runners rs)"]
      maximum_upper [of "rc_memoryUtilization r" "map rc_memoryUtilization (ready_runners rs)"]
    by simp
qed


definition sample_runner :: RunnerCapacityInput where
  "sample_runner = \<lparr>rc_status = ''busy'', rc_inflight = 6, rc_maxConcurrency = 10, rc_queueDepth = 0,
     rc_cpuUtilization = 1 / 2, rc_memoryUtilization = 1 / 4, rc_requestsPerSecond = 40,
     rc_errorRate = 1 / 100, rc_latencyP95Ms = 90\<rparr>"


section \<open>Properties of the fleet status\<close>

text \<open>What the code requires before it reports a healthy fleet.\<close>

definition healthy_fleet :: "RunnerPoolStatusInput \<Rightarrow> FleetEvidence \<Rightarrow> bool" where
  "healthy_fleet p ev \<longleftrightarrow>
    (let connected = filter (is_connected ev) (instances p)
     in connected \<noteq> [] \<and>
        (\<forall>r \<in> set (instances p). ri_status r \<noteq> Offline \<longrightarrow>
           is_connected ev r \<and> is_converged ev r \<and> ri_status r \<noteq> Saturated \<and> \<not> failing_load r) \<and>
        0 < readyRunners (pool_capacity p) \<and>
        desiredReplicas p \<le> min (length connected) (readyRunners (pool_capacity p)) \<and>
        capacity_status (pool_capacity p) \<notin> {CapSaturated, CapDegraded})"

lemma filter_all_length: "length (filter P xs) < length xs \<longleftrightarrow> (\<exists>x \<in> set xs. \<not> P x)"
  by (induction xs) (auto simp: less_Suc_eq_le)

lemma push_if_Nil [simp]: "push_if b x = [] \<longleftrightarrow> \<not> b"
  by (simp add: push_if_def)

lemma fleet_healthy_tests:
  "fleet_status (deriveRunnerFleetStatus pool ev) = Healthy \<longleftrightarrow>
    connected_of pool ev \<noteq> [] \<and> serving_of pool ev \<noteq> 0 \<and> fleet_findings pool ev = []"
  by (simp add: deriveRunnerFleetStatus_def)

lemma stale_none:
  "stale_of pool ev = [] \<longleftrightarrow> (\<forall>r \<in> set (pool_instances pool). ri_status r \<noteq> Offline \<longrightarrow> is_connected ev r)"
  by (auto simp: stale_of_def connected_of_def filter_empty_conv)

lemma connected_not_offline: "r \<in> set (connected_of pool ev) \<Longrightarrow> ri_status r \<noteq> Offline"
  by (simp add: connected_of_def is_connected_def)

lemma findings_none:
  assumes "converged_of pool ev = connected_of pool ev"
    and "stale_of pool ev = []"
  shows "fleet_findings pool ev = [] \<longleftrightarrow> desired_of pool \<le> serving_of pool ev \<and>
    (\<forall>r \<in> set (connected_of pool ev). ri_status r \<noteq> Saturated \<and> \<not> failing_load r) \<and>
    \<not> pool_reports pool CapSaturated \<and> \<not> pool_reports pool CapDegraded"
proof -
  have "allServingConverged pool ev"
    using assms(2) unfolding allServingConverged_def assms(1) stale_none
    by (auto simp: list_all_iff connected_of_def)
  then show ?thesis
    using assms by (auto simp: fleet_findings_def saturated_of_def filter_empty_conv list_ex_iff)
qed

lemma healthy_fleet_unfold:
  "healthy_fleet p ev \<longleftrightarrow>
    connected_of (Some p) ev \<noteq> [] \<and> stale_of (Some p) ev = [] \<and>
    (\<forall>r \<in> set (connected_of (Some p) ev).
       is_converged ev r \<and> ri_status r \<noteq> Saturated \<and> \<not> failing_load r) \<and>
    0 < readyRunners (pool_capacity p) \<and>
    desiredReplicas p \<le> min (length (connected_of (Some p) ev)) (readyRunners (pool_capacity p)) \<and>
    \<not> pool_reports (Some p) CapSaturated \<and> \<not> pool_reports (Some p) CapDegraded"
proof -
  have "(\<forall>r \<in> set (instances p). ri_status r \<noteq> Offline \<longrightarrow> is_connected ev r \<and> P r) \<longleftrightarrow>
      stale_of (Some p) ev = [] \<and> (\<forall>r \<in> set (connected_of (Some p) ev). P r)" for P
    unfolding stale_none by (auto simp: connected_of_def pool_instances_def is_connected_def)
  then show ?thesis
    unfolding healthy_fleet_def Let_def
    by (simp add: connected_of_def pool_instances_def pool_reports_def)
qed

lemma healthy_fleet_exact:
  "fleet_status (deriveRunnerFleetStatus (Some p) ev) = Healthy \<longleftrightarrow> healthy_fleet p ev"
proof (cases "stale_of (Some p) ev = [] \<and> (\<forall>r \<in> set (connected_of (Some p) ev). is_converged ev r)")
  case True
  then have eq: "converged_of (Some p) ev = connected_of (Some p) ev"
    by (simp add: converged_of_def filter_id_conv)
  show ?thesis
    using True unfolding fleet_healthy_tests healthy_fleet_unfold
    by (auto simp: findings_none eq serving_of_def desired_of_def)
next
  case False
  then have "fleet_findings (Some p) ev \<noteq> []"
    using filter_all_length [of "is_converged ev" "connected_of (Some p) ev"]
    by (auto simp: fleet_findings_def converged_of_def)
  with False show ?thesis unfolding fleet_healthy_tests healthy_fleet_unfold by blast
qed

text \<open>The fleet is reported healthy exactly when some Runner is connected, every
  Runner that is not offline is connected with a fresh heartbeat, has applied the desired
  generation, is not saturated and is below the error threshold, the pool serves at least the
  desired number of Runners and its capacity is neither saturated nor degraded; without a pool it
  is never healthy. Every status comes with at least one reason, and the serving Runners are never
  more than the converged ones, nor these more than the connected ones.\<close>

theorem fleet_healthy_exact:
  "(fleet_status (deriveRunnerFleetStatus pool ev) = Healthy \<longleftrightarrow>
      (case pool of None \<Rightarrow> False | Some p \<Rightarrow> healthy_fleet p ev)) \<and>
   reasons (deriveRunnerFleetStatus pool ev) \<noteq> [] \<and>
   servingRunners (deriveRunnerFleetStatus pool ev) \<le> convergedRunners (deriveRunnerFleetStatus pool ev) \<and>
   convergedRunners (deriveRunnerFleetStatus pool ev) \<le> connectedRunners (deriveRunnerFleetStatus pool ev)"
proof -
  have "reasons (deriveRunnerFleetStatus pool ev) \<noteq> [] \<and>
      servingRunners (deriveRunnerFleetStatus pool ev) \<le> convergedRunners (deriveRunnerFleetStatus pool ev) \<and>
      convergedRunners (deriveRunnerFleetStatus pool ev) \<le> connectedRunners (deriveRunnerFleetStatus pool ev)"
    by (simp add: deriveRunnerFleetStatus_def serving_of_def converged_of_def)
  moreover have "connected_of None ev = []" by (simp add: connected_of_def pool_instances_def)
  ultimately show ?thesis
    by (cases pool) (simp add: fleet_healthy_tests, simp add: healthy_fleet_exact)
qed

definition sample_instance :: RunnerInstance where
  "sample_instance = \<lparr>ri_status = Busy, lastHeartbeatAt = Some 99000, appliedGeneration = 7,
     load = Some \<lparr>requestsDelta = 100, errorsDelta = 2, timeoutsDelta = 1\<rparr>\<rparr>"

theorem fleet_healthy_exact_witness:
  "fleet_status (deriveRunnerFleetStatus (Some \<lparr>desiredReplicas = 1, instances = [sample_instance],
      pool_capacity = calculatePoolCapacity [sample_runner] 50 None (5 / 4) 1\<rparr>)
      \<lparr>observedAt = 100000, offlineAfterSeconds = 30, desiredGeneration = 7\<rparr>) = Healthy"
proof -
  have "healthy_fleet \<lparr>desiredReplicas = 1, instances = [sample_instance],
      pool_capacity = calculatePoolCapacity [sample_runner] 50 None (5 / 4) 1\<rparr>
      \<lparr>observedAt = 100000, offlineAfterSeconds = 30, desiredGeneration = 7\<rparr>"
    by code_simp
  then show ?thesis using fleet_healthy_exact
    [of "Some \<lparr>desiredReplicas = 1, instances = [sample_instance],
      pool_capacity = calculatePoolCapacity [sample_runner] 50 None (5 / 4) 1\<rparr>"
      "\<lparr>observedAt = 100000, offlineAfterSeconds = 30, desiredGeneration = 7\<rparr>"] by simp
qed

end
