(* ===== verification/Admission_Monitor.thy ===== *)
theory Admission_Monitor
  imports Project_Context Runner_Capacity
begin

text \<open>
  The admission monitor: \<^verbatim>\<open>controller/server/services/admission-monitor.ts\<close> and the report
  contract of \<^verbatim>\<open>controller/shared/admission-monitor.ts\<close>. Every accepted heartbeat may carry a
  report of a Runner's admission counters; the monitor keeps the last report of each Runner, the
  counter differences between two reports, and bounded histories of what its monitor_view showed. The clock
  readings and the inventory read from the database are arguments; a payload is its byte length with
  the value its text decodes to, if it does. Main results: the monitor's state is bounded and holds
  only valid reports and intervals, and an available figure is backed by a current report of every
  Runner concerned, with occupancy at most 100 percent and a percentile inside its bucket.
\<close>

section \<open>The report contract\<close>

record Outcomes =
  oc_admitted :: int
  oc_queue_full :: int
  oc_queue_timeout :: int
  oc_rate_limited :: int
  oc_cancelled :: int
  oc_unavailable :: int

record Histogram =
  hi_buckets :: "int list"
  hi_count :: int
  hi_totalSeconds :: rat

record AdmissionProject =
  ap_projectId :: string
  ap_active :: int
  ap_queued :: int
  ap_limit :: int
  ap_outcomes :: Outcomes
  ap_wait :: Histogram
  ap_held :: Histogram

record AdmissionSnapshot =
  sn_capacity :: int
  sn_monotonicSeconds :: rat
  sn_projects :: "AdmissionProject list"

datatype AdmissionReport = ReportUnavailable string | ReportAvailable AdmissionSnapshot

definition admissionBucketSeconds :: "rat list" where
  "admissionBucketSeconds = [1 / 1000, 5 / 1000, 1 / 100, 25 / 1000, 5 / 100, 1 / 10, 1 / 4, 1 / 2,
     1, 2, 5, 10, 30, 60]"

definition admissionSnapshotMaxBytes :: int where
  "admissionSnapshotMaxBytes = 65536"

definition admissionSnapshotMaxProjects :: nat where
  "admissionSnapshotMaxProjects = 64"

definition whole :: "int \<Rightarrow> json option \<Rightarrow> int option" where
  "whole upper v = (case v of Some (JNum r) \<Rightarrow>
     (if of_int \<lfloor>r\<rfloor> = r \<and> 0 \<le> r \<and> r \<le> of_int upper then Some \<lfloor>r\<rfloor> else None) | _ \<Rightarrow> None)"

definition counter :: "json option \<Rightarrow> int option" where
  "counter v = whole 10000000000 v"

definition gauge :: "json option \<Rightarrow> int option" where
  "gauge v = whole 1000000 v"

definition positive_gauge :: "int option \<Rightarrow> int option" where
  "positive_gauge x = (case x of Some i \<Rightarrow> if 0 < i then Some i else None | None \<Rightarrow> None)"

definition seconds :: "json option \<Rightarrow> rat option" where
  "seconds v = (case v of Some (JNum r) \<Rightarrow> if 0 \<le> r \<and> r \<le> 9007199254740991 then Some r else None | _ \<Rightarrow> None)"

definition identity :: "json option \<Rightarrow> string option" where
  "identity v = (case v of Some (JStr s) \<Rightarrow>
     if s \<noteq> [] \<and> length s \<le> 256 \<and> s = js_trim s then Some s else None | _ \<Rightarrow> None)"

definition strictObject :: "string list \<Rightarrow> json option \<Rightarrow> (string \<times> json) list option" where
  "strictObject allowed v = (case v of Some (JObj es) \<Rightarrow>
     if list_all (\<lambda>(k, _). k \<in> set allowed) es then Some es else None | _ \<Rightarrow> None)"

fun nondecreasing :: "int list \<Rightarrow> bool" where
  "nondecreasing (x # y # zs) \<longleftrightarrow> x \<le> y \<and> nondecreasing (y # zs)"
| "nondecreasing _ \<longleftrightarrow> True"

definition cumulative :: "int list \<Rightarrow> int \<Rightarrow> bool" where
  "cumulative bs n \<longleftrightarrow> bs \<noteq> [] \<and> last bs = n \<and> nondecreasing bs"

definition histogram_schema :: "json option \<Rightarrow> Histogram option" where
  "histogram_schema v = Option.bind (strictObject [''buckets'', ''count'', ''totalSeconds''] v) (\<lambda>es.
     Option.bind (case map_of es ''buckets'' of Some (JArr xs) \<Rightarrow> those (map (\<lambda>x. counter (Some x)) xs) | _ \<Rightarrow> None) (\<lambda>bs.
     Option.bind (counter (map_of es ''count'')) (\<lambda>n.
     Option.bind (seconds (map_of es ''totalSeconds'')) (\<lambda>t.
       if length bs = length admissionBucketSeconds + 1 \<and> cumulative bs n
       then Some \<lparr>hi_buckets = bs, hi_count = n, hi_totalSeconds = t\<rparr> else None))))"

definition outcomes_schema :: "json option \<Rightarrow> Outcomes option" where
  "outcomes_schema v = Option.bind (strictObject [''admitted'', ''queue_full'', ''queue_timeout'',
      ''rate_limited'', ''cancelled'', ''unavailable''] v) (\<lambda>es.
     Option.bind (counter (map_of es ''admitted'')) (\<lambda>a.
     Option.bind (counter (map_of es ''queue_full'')) (\<lambda>f.
     Option.bind (counter (map_of es ''queue_timeout'')) (\<lambda>t.
     Option.bind (counter (map_of es ''rate_limited'')) (\<lambda>r.
     Option.bind (counter (map_of es ''cancelled'')) (\<lambda>c.
     Option.bind (counter (map_of es ''unavailable'')) (\<lambda>u.
       Some \<lparr>oc_admitted = a, oc_queue_full = f, oc_queue_timeout = t, oc_rate_limited = r,
         oc_cancelled = c, oc_unavailable = u\<rparr>)))))))"

definition project_schema :: "json option \<Rightarrow> AdmissionProject option" where
  "project_schema v = Option.bind (strictObject [''projectId'', ''active'', ''queued'', ''limit'',
      ''outcomes'', ''wait'', ''held''] v) (\<lambda>es.
     Option.bind (identity (map_of es ''projectId'')) (\<lambda>i.
     Option.bind (gauge (map_of es ''active'')) (\<lambda>a.
     Option.bind (gauge (map_of es ''queued'')) (\<lambda>q.
     Option.bind (positive_gauge (gauge (map_of es ''limit''))) (\<lambda>l.
     Option.bind (outcomes_schema (map_of es ''outcomes'')) (\<lambda>oc.
     Option.bind (histogram_schema (map_of es ''wait'')) (\<lambda>w.
     Option.bind (histogram_schema (map_of es ''held'')) (\<lambda>h.
       if a \<le> l \<and> hi_count w = oc_admitted oc
       then Some \<lparr>ap_projectId = i, ap_active = a, ap_queued = q, ap_limit = l, ap_outcomes = oc,
         ap_wait = w, ap_held = h\<rparr>
       else None))))))))"

definition unavailable_reasons :: "string list" where
  "unavailable_reasons = [''disabled'', ''cardinality_limit'', ''payload_limit'', ''instrumentation_unavailable'']"

definition available_schema :: "json \<Rightarrow> AdmissionSnapshot option" where
  "available_schema v =
    Option.bind (strictObject [''version'', ''available'', ''capacity'', ''monotonicSeconds'', ''projects''] (Some v)) (\<lambda>es.
     Option.bind (positive_gauge (gauge (map_of es ''capacity''))) (\<lambda>c.
     Option.bind (seconds (map_of es ''monotonicSeconds'')) (\<lambda>t.
     Option.bind (case map_of es ''projects'' of Some (JArr xs) \<Rightarrow> those (map (\<lambda>x. project_schema (Some x)) xs) | _ \<Rightarrow> None) (\<lambda>ps.
       if map_of es ''version'' = Some (JNum 1) \<and> ps \<noteq> [] \<and> length ps \<le> admissionSnapshotMaxProjects \<and>
          distinct (map ap_projectId ps) \<and> sum_list (map ap_active ps) \<le> c
       then Some \<lparr>sn_capacity = c, sn_monotonicSeconds = t, sn_projects = ps\<rparr> else None))))"

definition unavailable_schema :: "json \<Rightarrow> string option" where
  "unavailable_schema v =
    Option.bind (strictObject [''version'', ''available'', ''reason''] (Some v)) (\<lambda>es.
      case map_of es ''reason'' of Some (JStr s) \<Rightarrow>
        if map_of es ''version'' = Some (JNum 1) \<and> s \<in> set unavailable_reasons then Some s else None
      | _ \<Rightarrow> None)"

definition admissionSnapshotSchema :: "json \<Rightarrow> AdmissionReport option" where
  "admissionSnapshotSchema v = (case v of JObj es \<Rightarrow>
     (case map_of es ''available'' of
        Some (JBool False) \<Rightarrow> map_option ReportUnavailable (unavailable_schema v)
      | Some (JBool True) \<Rightarrow> map_option ReportAvailable (available_schema v)
      | _ \<Rightarrow> None)
   | _ \<Rightarrow> None)"

section \<open>Sources\<close>

record SourceIdentity =
  si_runnerId :: string
  si_bootId :: string
  si_controlSessionId :: "string option"
  si_poolId :: string
  si_sequence :: int

record Interval =
  iv_seconds :: rat
  iv_outcomes :: Outcomes
  iv_wait :: Histogram
  iv_held :: Histogram

record Source =
  so_identity :: SourceIdentity
  so_receivedAt :: rat
  so_snapshot :: "AdmissionSnapshot option"
  so_reason :: "string option"
  so_intervals :: "(string \<times> Interval) list"
  so_intervalReason :: string

record Payload =
  pay_bytes :: int
  pay_json :: "json option"

definition outcomes_minus :: "Outcomes \<Rightarrow> Outcomes \<Rightarrow> Outcomes" where
  "outcomes_minus a b = \<lparr>oc_admitted = oc_admitted a - oc_admitted b, oc_queue_full = oc_queue_full a - oc_queue_full b,
     oc_queue_timeout = oc_queue_timeout a - oc_queue_timeout b, oc_rate_limited = oc_rate_limited a - oc_rate_limited b,
     oc_cancelled = oc_cancelled a - oc_cancelled b, oc_unavailable = oc_unavailable a - oc_unavailable b\<rparr>"

definition outcome_list :: "Outcomes \<Rightarrow> int list" where
  "outcome_list a = [oc_admitted a, oc_queue_full a, oc_queue_timeout a, oc_rate_limited a, oc_cancelled a, oc_unavailable a]"

definition total :: "Outcomes \<Rightarrow> int" where
  "total a = sum_list (outcome_list a)"

definition rejected :: "Outcomes \<Rightarrow> int" where
  "rejected a = oc_queue_full a + oc_queue_timeout a + oc_rate_limited a + oc_unavailable a"

definition histogram_minus :: "Histogram \<Rightarrow> Histogram \<Rightarrow> Histogram option" where
  "histogram_minus a b =
    (let buckets = map2 (-) (hi_buckets a) (hi_buckets b);
         n = hi_count a - hi_count b; t = hi_totalSeconds a - hi_totalSeconds b
     in if n < 0 \<or> t < 0 \<or> list_ex (\<lambda>v. v < 0) buckets \<or> \<not> nondecreasing buckets \<or>
           buckets = [] \<or> last buckets \<noteq> n
        then None else Some \<lparr>hi_buckets = buckets, hi_count = n, hi_totalSeconds = t\<rparr>)"

definition difference :: "AdmissionProject \<Rightarrow> AdmissionProject \<Rightarrow> rat \<Rightarrow> Interval option" where
  "difference row before secs =
    (let outcomes = outcomes_minus (ap_outcomes row) (ap_outcomes before)
     in if list_ex (\<lambda>v. v < 0) (outcome_list outcomes) \<or> ap_limit row \<noteq> ap_limit before then None
        else (case (histogram_minus (ap_wait row) (ap_wait before), histogram_minus (ap_held row) (ap_held before)) of
          (Some w, Some h) \<Rightarrow> Some \<lparr>iv_seconds = secs, iv_outcomes = outcomes, iv_wait = w, iv_held = h\<rparr>
        | _ \<Rightarrow> None))"

record AdmissionValues =
  av_active :: "rat option"
  av_queued :: "rat option"
  av_capacity :: "rat option"
  av_occupancyPercent :: "rat option"
  av_attempts :: "rat option"
  av_admitted :: "rat option"
  av_rejected :: "rat option"
  av_cancelled :: "rat option"
  av_attemptsPerSecond :: "rat option"
  av_admittedPerSecond :: "rat option"
  av_rejectedPerSecond :: "rat option"
  av_waitP95Ms :: "rat option"
  av_heldP95Ms :: "rat option"

definition nullValues :: AdmissionValues where
  "nullValues = \<lparr>av_active = None, av_queued = None, av_capacity = None, av_occupancyPercent = None,
     av_attempts = None, av_admitted = None, av_rejected = None, av_cancelled = None,
     av_attemptsPerSecond = None, av_admittedPerSecond = None, av_rejectedPerSecond = None,
     av_waitP95Ms = None, av_heldP95Ms = None\<rparr>"

text \<open>The first bucket whose cumulative count reaches the rank, with linear interpolation inside it.\<close>

definition first_at_least :: "rat \<Rightarrow> int list \<Rightarrow> nat option" where
  "first_at_least rank buckets = List.find (\<lambda>i. of_int (buckets ! i) \<ge> rank) [0..<length buckets]"

definition sum_buckets :: "Histogram list \<Rightarrow> int list" where
  "sum_buckets hs = map (\<lambda>i. sum_list (map (\<lambda>h. hi_buckets h ! i) hs)) [0..<length admissionBucketSeconds + 1]"

definition p95 :: "Histogram list \<Rightarrow> rat option" where
  "p95 hs =
    (let n = sum_list (map hi_count hs); buckets = sum_buckets hs; rank = of_int n * (95 / 100)
     in if n = 0 then None
        else (case first_at_least rank buckets of
          None \<Rightarrow> None
        | Some i \<Rightarrow> if i = length admissionBucketSeconds then None
            else (let lower = (if i = 0 then 0 else admissionBucketSeconds ! (i - 1));
                      upper = admissionBucketSeconds ! i;
                      before = (if i = 0 then 0 else buckets ! (i - 1));
                      width = buckets ! i - before
                  in Some ((lower + (upper - lower) * (rank - of_int before) / of_int width) * 1000))))"

definition aggregate :: "(AdmissionProject \<times> Interval option) list \<Rightarrow> int \<Rightarrow> bool \<Rightarrow> AdmissionValues" where
  "aggregate rows capacity intervalsAvailable =
    (let sum = (\<lambda>read. sum_list (map (\<lambda>r. read (fst r)) rows));
         intervals = (if intervalsAvailable then map (\<lambda>r. the (snd r)) rows else []);
         active = sum ap_active;
         rate = (\<lambda>read. if intervalsAvailable
           then Some (sum_list (map (\<lambda>iv. of_int (read (iv_outcomes iv)) / iv_seconds iv) intervals)) else None)
     in \<lparr>av_active = Some (of_int active), av_queued = Some (of_int (sum ap_queued)),
         av_capacity = Some (of_int capacity),
         av_occupancyPercent = (if capacity > 0 then Some (of_int active / of_int capacity * 100) else None),
         av_attempts = Some (of_int (sum (\<lambda>p. total (ap_outcomes p)))),
         av_admitted = Some (of_int (sum (\<lambda>p. oc_admitted (ap_outcomes p)))),
         av_rejected = Some (of_int (sum (\<lambda>p. rejected (ap_outcomes p)))),
         av_cancelled = Some (of_int (sum (\<lambda>p. oc_cancelled (ap_outcomes p)))),
         av_attemptsPerSecond = rate total, av_admittedPerSecond = rate oc_admitted,
         av_rejectedPerSecond = rate rejected,
         av_waitP95Ms = (if intervalsAvailable then p95 (map iv_wait intervals) else None),
         av_heldP95Ms = (if intervalsAvailable then p95 (map iv_held intervals) else None)\<rparr>)"

section \<open>The monitor\<close>

record Point =
  pt_at :: int
  pt_values :: AdmissionValues

record InventoryPool =
  ip_id :: string
  ip_name :: string
  ip_groupId :: string
  ip_projectIds :: "string list"

record InventoryRunner =
  ir_runnerId :: string
  ir_bootId :: string
  ir_controlSessionId :: "string option"
  ir_poolId :: string
  ir_status :: RunnerStatus
  ir_disconnectedAt :: "int option"
  ir_sessionCurrent :: bool

record InventoryProject =
  ij_id :: string
  ij_name :: string
  ij_groupId :: string

record AdmissionInventory =
  inv_groups :: "(string \<times> string) list"
  inv_projects :: "InventoryProject list"
  inv_pools :: "InventoryPool list"
  inv_runners :: "InventoryRunner list"

text \<open>The cache keys are the JSON texts of these two values; as they determine the text, the values
  themselves are compared. \<open>None\<close> is the empty initial signature.\<close>

type_synonym placement = "(string \<times> string) list \<times> InventoryPool list \<times> InventoryProject list \<times>
  (string \<times> string \<times> string option \<times> string) list"

type_synonym signature = "(string \<times> int option \<times> string option) list"

record Cache =
  ca_placement :: placement
  ca_signature :: "signature option"
  ca_touched :: rat
  ca_history :: "(string \<times> Point list) list"

record Monitor =
  mo_staleAfterMs :: rat
  mo_sources :: "(string \<times> Source) list"
  mo_caches :: "(string \<times> Cache) list"

definition maxSources :: nat where "maxSources = 32"
definition maxProjects :: nat where "maxProjects = 128"
definition maxGroups :: nat where "maxGroups = 32"
definition maxPools :: nat where "maxPools = 32"
definition maxHistory :: nat where "maxHistory = 60"
definition maxFilters :: nat where "maxFilters = 4"
definition retentionMs :: rat where "retentionMs = 600000"

definition new_monitor :: "rat option \<Rightarrow> Monitor" where
  "new_monitor staleAfterMs = \<lparr>mo_staleAfterMs = max 15000 (min 120000 (case staleAfterMs of Some x \<Rightarrow> x | None \<Rightarrow> 30000)),
     mo_sources = [], mo_caches = []\<rparr>"

definition retained :: "rat \<Rightarrow> rat \<Rightarrow> bool" where
  "retained now since \<longleftrightarrow> \<not> (now - since > retentionMs \<or> now < since)"

definition prune :: "rat \<Rightarrow> Monitor \<Rightarrow> Monitor" where
  "prune now m = m\<lparr>mo_sources := filter (\<lambda>(_, s). retained now (so_receivedAt s)) (mo_sources m),
     mo_caches := filter (\<lambda>(_, c). retained now (ca_touched c)) (mo_caches m)\<rparr>"

definition read_payload :: "Payload option \<Rightarrow> AdmissionSnapshot option \<times> string option" where
  "read_payload payload = (case payload of
     None \<Rightarrow> (None, Some ''missing_report'')
   | Some p \<Rightarrow>
      if pay_bytes p = 0 then (None, Some ''missing_report'')
      else if pay_bytes p > admissionSnapshotMaxBytes then (None, Some ''payload_limit'')
      else (case Option.bind (pay_json p) admissionSnapshotSchema of
        None \<Rightarrow> (None, Some ''invalid_report'')
      | Some (ReportUnavailable reason) \<Rightarrow> (None, Some reason)
      | Some (ReportAvailable snapshot) \<Rightarrow> (Some snapshot, None)))"

definition same_stream :: "SourceIdentity \<Rightarrow> SourceIdentity \<Rightarrow> bool" where
  "same_stream a b \<longleftrightarrow> si_bootId a = si_bootId b \<and> si_controlSessionId a = si_controlSessionId b"

definition add_interval ::
  "rat \<Rightarrow> AdmissionSnapshot \<Rightarrow> AdmissionProject \<Rightarrow> (string \<times> Interval) list \<Rightarrow> (string \<times> Interval) list" where
  "add_interval secs before row acc =
    (case Option.bind (List.find (\<lambda>p. ap_projectId p = ap_projectId row) (sn_projects before))
       (\<lambda>b. difference row b secs) of
       None \<Rightarrow> acc | Some iv \<Rightarrow> AList.update (ap_projectId row) iv acc)"

definition project_intervals :: "AdmissionSnapshot \<Rightarrow> AdmissionSnapshot \<Rightarrow> (string \<times> Interval) list" where
  "project_intervals snapshot before =
    fold (add_interval (sn_monotonicSeconds snapshot - sn_monotonicSeconds before) before)
      (sn_projects snapshot) []"

definition source_intervals ::
  "rat \<Rightarrow> rat \<Rightarrow> SourceIdentity \<Rightarrow> AdmissionSnapshot option \<Rightarrow> Source option \<Rightarrow> (string \<times> Interval) list \<times> string" where
  "source_intervals stale now ident snapshot previous =
    (case (snapshot, Option.bind previous so_snapshot) of
       (Some snap, Some before) \<Rightarrow>
         if same_stream (so_identity (the previous)) ident \<and> si_poolId (so_identity (the previous)) = si_poolId ident
         then (let secs = sn_monotonicSeconds snap - sn_monotonicSeconds before in
           if secs > 0 \<and> secs \<le> 120 \<and> now - so_receivedAt (the previous) \<le> stale * 2
           then (let ivs = project_intervals snap before
                 in (ivs, if length ivs = length (sn_projects snap) then ''available'' else ''counter_reset''))
           else ([], ''counter_reset''))
         else ([], ''first_observation'')
     | _ \<Rightarrow> ([], ''first_observation''))"

definition record_report :: "rat \<Rightarrow> SourceIdentity \<Rightarrow> Payload option \<Rightarrow> Monitor \<Rightarrow> Monitor" where
  "record_report now ident payload m0 =
    (let m = prune now m0; previous = map_of (mo_sources m) (si_runnerId ident)
     in if (case previous of None \<Rightarrow> False
          | Some s \<Rightarrow> same_stream (so_identity s) ident \<and> si_sequence (so_identity s) \<ge> si_sequence ident) then m
        else if previous = None \<and> length (mo_sources m) \<ge> maxSources then m
        else (let (snapshot, reason) = read_payload payload;
                  (ivs, why) = source_intervals (mo_staleAfterMs m) now ident snapshot previous
              in m\<lparr>mo_sources := AList.update (si_runnerId ident)
                   \<lparr>so_identity = ident, so_receivedAt = now, so_snapshot = snapshot, so_reason = reason,
                    so_intervals = ivs, so_intervalReason = why\<rparr> (mo_sources m)\<rparr>))"

record Inspected =
  is_runner :: InventoryRunner
  is_source :: "Source option"
  is_reason :: "string option"
  is_age :: "rat option"

definition first_reason :: "(bool \<times> string) list \<Rightarrow> string option" where
  "first_reason rs = map_option snd (List.find fst rs)"

definition stranger :: "AdmissionInventory \<Rightarrow> string \<Rightarrow> AdmissionProject \<Rightarrow> bool" where
  "stranger stock poolId row = (case List.find (\<lambda>p. ip_id p = poolId) (inv_pools stock) of None \<Rightarrow> True
     | Some p \<Rightarrow> ap_projectId row \<notin> set (ip_projectIds p))"

definition source_of_runner :: "InventoryRunner \<Rightarrow> Source \<Rightarrow> bool" where
  "source_of_runner r s \<longleftrightarrow> si_bootId (so_identity s) = ir_bootId r \<and>
    si_controlSessionId (so_identity s) = ir_controlSessionId r \<and> si_poolId (so_identity s) = ir_poolId r"

definition source_problem :: "rat \<Rightarrow> rat \<Rightarrow> AdmissionInventory \<Rightarrow> InventoryRunner \<Rightarrow> Source \<Rightarrow> string option" where
  "source_problem stale now stock r s =
    (let age = now - so_receivedAt s in
     if age < 0 \<or> age > stale then Some ''stale''
     else if so_reason s \<noteq> None then so_reason s
     else if (case so_snapshot s of None \<Rightarrow> False
        | Some snap \<Rightarrow> list_ex (stranger stock (ir_poolId r)) (sn_projects snap)) then Some ''project_group_mismatch''
     else None)"

definition inspect :: "rat \<Rightarrow> AdmissionInventory \<Rightarrow> Monitor \<Rightarrow> InventoryRunner \<Rightarrow> Inspected" where
  "inspect now stock m r =
    (let source = map_of (mo_sources m) (ir_runnerId r);
         age = map_option (\<lambda>s. now - so_receivedAt s) source;
         reason = (if ir_status r = Offline \<or> ir_disconnectedAt r \<noteq> None then Some ''offline''
           else if ir_status r = Syncing then Some ''runner_syncing''
           else if \<not> ir_sessionCurrent r then Some ''missing_current_session_report''
           else (case source of None \<Rightarrow> Some ''missing_current_session_report''
             | Some s \<Rightarrow> if \<not> source_of_runner r s then Some ''missing_current_session_report''
                 else source_problem (mo_staleAfterMs m) now stock r s))
     in \<lparr>is_runner = r, is_source = source, is_reason = reason,
          is_age = (case age of None \<Rightarrow> None | Some a \<Rightarrow> if a < 0 then None else Some a)\<rparr>)"

datatype Kind = GroupKind | ProjectKind

record EntityRow =
  er_id :: string
  er_name :: string
  er_groupId :: string

record Entity =
  en_row :: EntityRow
  en_projectIds :: "string list"
  en_poolIds :: "string list"
  en_available :: bool
  en_intervalAvailable :: bool
  en_reason :: "string option"
  en_reportingSources :: nat
  en_expectedSources :: nat
  en_values :: AdmissionValues
  en_history :: "Point list"

definition entity_rows :: "AdmissionInventory \<Rightarrow> Kind \<Rightarrow> EntityRow list" where
  "entity_rows stock kind = (case kind of
     GroupKind \<Rightarrow> map (\<lambda>(i, n). \<lparr>er_id = i, er_name = n, er_groupId = i\<rparr>) (inv_groups stock)
   | ProjectKind \<Rightarrow> map (\<lambda>p. \<lparr>er_id = ij_id p, er_name = ij_name p, er_groupId = ij_groupId p\<rparr>) (inv_projects stock))"

definition entity_pools :: "AdmissionInventory \<Rightarrow> Kind \<Rightarrow> EntityRow \<Rightarrow> InventoryPool list" where
  "entity_pools stock kind row = filter (\<lambda>p. ip_groupId p = er_groupId row \<and>
     (kind = GroupKind \<or> er_id row \<in> set (ip_projectIds p))) (inv_pools stock)"

definition expected_of :: "AdmissionInventory \<Rightarrow> Inspected list \<Rightarrow> Kind \<Rightarrow> EntityRow \<Rightarrow> Inspected list" where
  "expected_of stock inspected kind row =
    filter (\<lambda>i. ir_poolId (is_runner i) \<in> ip_id ` set (entity_pools stock kind row)) inspected"

definition reports :: "Inspected \<Rightarrow> bool" where
  "reports i \<longleftrightarrow> is_reason i = None \<and> Option.bind (is_source i) so_snapshot \<noteq> None"

definition snapshot_of :: "Inspected \<Rightarrow> AdmissionSnapshot" where
  "snapshot_of i = the (Option.bind (is_source i) so_snapshot)"

definition selected_of :: "Kind \<Rightarrow> EntityRow \<Rightarrow> Inspected list \<Rightarrow> (AdmissionProject \<times> Interval option) list" where
  "selected_of kind row reporting = concat (map (\<lambda>i.
     map (\<lambda>p. (p, map_of (so_intervals (the (is_source i))) (ap_projectId p)))
       (filter (\<lambda>p. kind = GroupKind \<or> ap_projectId p = er_id row) (sn_projects (snapshot_of i)))) reporting)"

definition kind_name :: "Kind \<Rightarrow> string" where
  "kind_name kind = (case kind of GroupKind \<Rightarrow> ''group'' | ProjectKind \<Rightarrow> ''project'')"

text \<open>One row of the view, without its history.\<close>

definition measure_entity :: "AdmissionInventory \<Rightarrow> Inspected list \<Rightarrow> Kind \<Rightarrow> EntityRow \<Rightarrow> Entity" where
  "measure_entity stock inspected kind row =
    (let expected = expected_of stock inspected kind row;
         reporting = filter reports expected;
         available = (expected \<noteq> [] \<and> length reporting = length expected);
         selected = selected_of kind row reporting;
         configured = (kind = GroupKind \<or> selected \<noteq> []);
         good = (available \<and> configured);
         intervalsAvailable = (good \<and> list_all (\<lambda>x. snd x \<noteq> None) selected);
         values = (if good then aggregate selected
           (case kind of GroupKind \<Rightarrow> sum_list (map (\<lambda>i. sn_capacity (snapshot_of i)) reporting)
            | ProjectKind \<Rightarrow> sum_list (map (\<lambda>x. ap_limit (fst x)) selected)) intervalsAvailable else nullValues);
         reason = (if expected = [] then Some ''no_registered_runners''
           else if \<not> available then (case List.find (\<lambda>i. is_reason i \<noteq> None) expected of
             Some i \<Rightarrow> is_reason i | None \<Rightarrow> Some ''missing_report'')
           else if \<not> configured then Some ''not_configured''
           else if \<not> intervalsAvailable then Some ''interval_unavailable'' else None)
     in \<lparr>en_row = row,
         en_projectIds = (case kind of
           GroupKind \<Rightarrow> map ij_id (filter (\<lambda>p. ij_groupId p = er_groupId row) (inv_projects stock))
         | ProjectKind \<Rightarrow> [er_id row]),
         en_poolIds = map ip_id (entity_pools stock kind row), en_available = good,
         en_intervalAvailable = intervalsAvailable, en_reason = reason,
         en_reportingSources = length reporting, en_expectedSources = length expected,
         en_values = values, en_history = []\<rparr>)"

text \<open>The history of a row gets the measured point when the signature of the sources changed; beyond
  the limit the oldest point goes.\<close>

definition push_history :: "int \<Rightarrow> AdmissionValues \<Rightarrow> Point list \<Rightarrow> Point list" where
  "push_history now values h = (let h' = h @ [\<lparr>pt_at = now, pt_values = values\<rparr>]
     in if length h' > maxHistory then tl h' else h')"

definition add_entity ::
  "bool \<Rightarrow> int \<Rightarrow> Kind \<Rightarrow> Entity \<Rightarrow> Entity list \<times> (string \<times> Point list) list \<Rightarrow> Entity list \<times> (string \<times> Point list) list" where
  "add_entity fresh now kind e acc =
    (let key = kind_name kind @ '':'' @ er_id (en_row e);
         old = (case map_of (snd acc) key of None \<Rightarrow> [] | Some h \<Rightarrow> h);
         h = (if fresh then push_history now (en_values e) old else old)
     in (fst acc @ [e\<lparr>en_history := h\<rparr>], if fresh then AList.update key h (snd acc) else snd acc))"

definition entities ::
  "AdmissionInventory \<Rightarrow> Inspected list \<Rightarrow> bool \<Rightarrow> int \<Rightarrow> Kind \<Rightarrow> (string \<times> Point list) list \<Rightarrow>
   Entity list \<times> (string \<times> Point list) list" where
  "entities stock inspected fresh now kind history =
    fold (\<lambda>row. add_entity fresh now kind (measure_entity stock inspected kind row)) (entity_rows stock kind) ([], history)"

record View =
  vw_available :: bool
  vw_reason :: "string option"
  vw_groups :: "Entity list"
  vw_projects :: "Entity list"
  vw_sources :: "(string \<times> string \<times> bool \<times> string option \<times> rat option) list"

fun drop_oldest :: "(string \<times> Cache) list \<Rightarrow> (string \<times> Cache) list" where
  "drop_oldest cs = (if length cs > maxFilters then drop_oldest (tl cs) else cs)"

declare drop_oldest.simps [simp del]

definition inventory_overflow :: "AdmissionInventory \<Rightarrow> bool" where
  "inventory_overflow stock \<longleftrightarrow> length (inv_groups stock) > maxGroups \<or> length (inv_pools stock) > maxPools \<or>
    length (inv_projects stock) > maxProjects \<or> length (inv_runners stock) > maxSources"

definition placement_of :: "AdmissionInventory \<Rightarrow> placement" where
  "placement_of stock = (inv_groups stock, inv_pools stock, inv_projects stock,
     map (\<lambda>r. (ir_runnerId r, ir_bootId r, ir_controlSessionId r, ir_poolId r)) (inv_runners stock))"

definition signature_of :: "Inspected list \<Rightarrow> signature" where
  "signature_of inspected = map (\<lambda>i. (ir_runnerId (is_runner i),
     map_option (\<lambda>s. si_sequence (so_identity s)) (is_source i), is_reason i)) inspected"

definition monitor_view :: "AuthorityContext option \<Rightarrow> string option \<Rightarrow> AdmissionInventory \<Rightarrow> rat \<Rightarrow> int \<Rightarrow> Monitor \<Rightarrow> thrown + View \<times> Monitor" where
  "monitor_view ctx poolId stock now wall m0 = and_then (assertPlatformAuthority ctx) (\<lambda>_.
    (let m = prune now m0 in
     if inventory_overflow stock
     then Inr (\<lparr>vw_available = False, vw_reason = Some ''inventory_limit'', vw_groups = [], vw_projects = [],
       vw_sources = []\<rparr>, m)
     else
       (let inspected = map (inspect now stock m) (inv_runners stock);
            key = (case poolId of None \<Rightarrow> ''*'' | Some p \<Rightarrow> p);
            blank = \<lparr>ca_placement = placement_of stock, ca_signature = None, ca_touched = now, ca_history = []\<rparr>;
            cache = (case map_of (mo_caches m) key of None \<Rightarrow> blank
              | Some c \<Rightarrow> if ca_placement c \<noteq> placement_of stock then blank else c);
            fresh = (ca_signature cache \<noteq> Some (signature_of inspected));
            (groups, h1) = entities stock inspected fresh wall GroupKind (ca_history cache);
            (projects, h2) = entities stock inspected fresh wall ProjectKind h1;
            cache' = cache\<lparr>ca_signature := Some (signature_of inspected), ca_touched := now, ca_history := h2\<rparr>;
            caches = drop_oldest (filter (\<lambda>(k, _). k \<noteq> key) (mo_caches m) @ [(key, cache')]);
            ok = list_ex en_available groups
        in Inr (\<lparr>vw_available = ok, vw_reason = (if ok then None else Some ''measurements_unavailable''),
             vw_groups = groups, vw_projects = projects,
             vw_sources = map (\<lambda>i. (ir_runnerId (is_runner i), ir_poolId (is_runner i), is_reason i = None,
               is_reason i, is_age i)) inspected\<rparr>, m\<lparr>mo_caches := caches\<rparr>))))"

section \<open>Valid reports and intervals\<close>

definition histogram_ok :: "Histogram \<Rightarrow> bool" where
  "histogram_ok h \<longleftrightarrow> length (hi_buckets h) = length admissionBucketSeconds + 1 \<and> cumulative (hi_buckets h) (hi_count h) \<and>
    0 \<le> hi_count h \<and> (\<forall>b \<in> set (hi_buckets h). 0 \<le> b)"

definition outcomes_ok :: "Outcomes \<Rightarrow> bool" where
  "outcomes_ok a \<longleftrightarrow> (\<forall>v \<in> set (outcome_list a). 0 \<le> v)"

definition project_ok :: "AdmissionProject \<Rightarrow> bool" where
  "project_ok p \<longleftrightarrow> 0 \<le> ap_active p \<and> ap_active p \<le> ap_limit p \<and> 0 < ap_limit p \<and> outcomes_ok (ap_outcomes p) \<and>
    histogram_ok (ap_wait p) \<and> histogram_ok (ap_held p) \<and> hi_count (ap_wait p) = oc_admitted (ap_outcomes p)"

definition snapshot_ok :: "AdmissionSnapshot \<Rightarrow> bool" where
  "snapshot_ok sn \<longleftrightarrow> 0 < sn_capacity sn \<and> (\<forall>p \<in> set (sn_projects sn). project_ok p) \<and>
    distinct (map ap_projectId (sn_projects sn)) \<and> sn_projects sn \<noteq> [] \<and>
    length (sn_projects sn) \<le> admissionSnapshotMaxProjects \<and>
    sum_list (map ap_active (sn_projects sn)) \<le> sn_capacity sn"

definition interval_ok :: "Interval \<Rightarrow> bool" where
  "interval_ok iv \<longleftrightarrow> 0 < iv_seconds iv \<and> iv_seconds iv \<le> 120 \<and> outcomes_ok (iv_outcomes iv) \<and>
    histogram_ok (iv_wait iv) \<and> histogram_ok (iv_held iv)"

lemma those_mem: "those (map f xs) = Some ys \<Longrightarrow> y \<in> set ys \<Longrightarrow> \<exists>x. f x = Some y"
  by (induction xs arbitrary: ys) (auto split: option.splits)

lemma whole_nonneg: "whole n v = Some i \<Longrightarrow> 0 \<le> i"
  by (auto simp: whole_def split: option.splits json.splits if_splits)

lemma counter_nonneg: "counter v = Some i \<Longrightarrow> 0 \<le> i"
  by (simp add: counter_def whole_nonneg)

lemma gauge_nonneg: "gauge v = Some i \<Longrightarrow> 0 \<le> i"
  by (simp add: gauge_def whole_nonneg)

lemma positive_pos: "positive_gauge x = Some i \<Longrightarrow> 0 < i"
  by (auto simp: positive_gauge_def split: option.splits if_splits)

lemma histogram_schema_ok:
  assumes "histogram_schema v = Some h"
  shows "histogram_ok h"
proof -
  obtain es bs n where bs: "(case map_of es ''buckets'' of Some (JArr xs) \<Rightarrow> those (map (\<lambda>x. counter (Some x)) xs) | _ \<Rightarrow> None) = Some bs"
    and n: "counter (map_of es ''count'') = Some n" and h: "hi_buckets h = bs" "hi_count h = n"
    and len: "length bs = length admissionBucketSeconds + 1" "cumulative bs n"
    using assms unfolding histogram_schema_def by (auto simp: bind_eq_Some_conv split: if_splits)
  obtain xs where "those (map (\<lambda>x. counter (Some x)) xs) = Some bs"
    using bs by (auto split: option.splits json.splits)
  then have "\<forall>b \<in> set bs. 0 \<le> b" using counter_nonneg by (blast dest: those_mem)
  with n len show ?thesis by (simp add: histogram_ok_def h counter_nonneg)
qed

lemma outcomes_schema_ok: "outcomes_schema v = Some oc \<Longrightarrow> outcomes_ok oc"
  unfolding outcomes_schema_def outcomes_ok_def outcome_list_def
  by (auto simp: bind_eq_Some_conv dest!: counter_nonneg)

lemma project_schema_ok: "project_schema v = Some p \<Longrightarrow> project_ok p"
  unfolding project_schema_def project_ok_def
  by (auto simp: bind_eq_Some_conv dest!: gauge_nonneg positive_pos histogram_schema_ok outcomes_schema_ok
      split: if_splits)

lemma available_schema_ok:
  assumes "available_schema v = Some sn"
  shows "snapshot_ok sn"
proof -
  obtain es c t ps where c: "positive_gauge (gauge (map_of es ''capacity'')) = Some c"
    and ps: "(case map_of es ''projects'' of Some (JArr xs) \<Rightarrow> those (map (\<lambda>x. project_schema (Some x)) xs) | _ \<Rightarrow> None) = Some ps"
    and ok: "ps \<noteq> []" "length ps \<le> admissionSnapshotMaxProjects" "distinct (map ap_projectId ps)"
      "sum_list (map ap_active ps) \<le> c"
    and sn: "sn = \<lparr>sn_capacity = c, sn_monotonicSeconds = t, sn_projects = ps\<rparr>"
    using assms unfolding available_schema_def by (auto simp: bind_eq_Some_conv split: if_splits)
  obtain xs where "those (map (\<lambda>x. project_schema (Some x)) xs) = Some ps"
    using ps by (auto split: option.splits json.splits)
  then have "\<forall>p \<in> set ps. project_ok p" using project_schema_ok by (blast dest: those_mem)
  with ok positive_pos [OF c] show ?thesis by (simp add: snapshot_ok_def sn)
qed

lemma read_payload_ok: "read_payload p = (Some sn, r) \<Longrightarrow> snapshot_ok sn \<and> r = None"
  by (auto simp: read_payload_def admissionSnapshotSchema_def bind_eq_Some_conv dest!: available_schema_ok
      split: option.splits if_splits AdmissionReport.splits json.splits bool.splits)

lemma read_payload_reason: "read_payload p = (None, r) \<Longrightarrow> r \<noteq> None"
  by (auto simp: read_payload_def split: option.splits if_splits AdmissionReport.splits)

lemma histogram_minus_ok:
  assumes "histogram_minus a b = Some h" "histogram_ok a" "histogram_ok b"
  shows "histogram_ok h"
  using assms by (auto simp: histogram_minus_def histogram_ok_def cumulative_def Let_def list_ex_iff not_less
      split: if_splits)

lemma difference_ok:
  assumes "difference row before secs = Some iv" "project_ok row" "project_ok before" "0 < secs" "secs \<le> 120"
  shows "interval_ok iv"
  using assms unfolding difference_def interval_ok_def Let_def project_ok_def outcomes_ok_def
  by (auto simp: list_ex_iff not_less dest: histogram_minus_ok split: option.splits if_splits)

lemma update_values: "(k, x) \<in> set (AList.update j y al) \<Longrightarrow> x = y \<or> (k, x) \<in> set al"
  by (induction al) (auto split: if_splits)

lemma add_interval_ok:
  assumes "project_ok row" "snapshot_ok before" "0 < secs" "secs \<le> 120" "\<forall>(k, iv) \<in> set acc. interval_ok iv"
  shows "\<forall>(k, iv) \<in> set (add_interval secs before row acc). interval_ok iv"
proof (cases "Option.bind (List.find (\<lambda>p. ap_projectId p = ap_projectId row) (sn_projects before))
    (\<lambda>b. difference row b secs)")
  case None
  with assms(5) show ?thesis by (simp add: add_interval_def)
next
  case (Some iv)
  then obtain b where "List.find (\<lambda>p. ap_projectId p = ap_projectId row) (sn_projects before) = Some b"
    and d: "difference row b secs = Some iv" by (auto simp: bind_eq_Some_conv)
  then have "project_ok b" using assms(2) by (auto simp: snapshot_ok_def dest: find_Some_mem)
  then have "interval_ok iv" using difference_ok [OF d] assms by simp
  with Some assms(5) show ?thesis by (auto simp: add_interval_def dest!: update_values)
qed

lemma project_intervals_ok:
  assumes "snapshot_ok sn" "snapshot_ok before"
    and "0 < sn_monotonicSeconds sn - sn_monotonicSeconds before" "sn_monotonicSeconds sn - sn_monotonicSeconds before \<le> 120"
  shows "\<forall>(k, iv) \<in> set (project_intervals sn before). interval_ok iv"
  unfolding project_intervals_def
proof (rule fold_invariant [where Q = project_ok])
  show "project_ok x" if "x \<in> set (sn_projects sn)" for x
    using assms(1) that by (simp add: snapshot_ok_def)
qed (simp, rule add_interval_ok [OF _ assms(2-4)])

definition source_ok :: "Source \<Rightarrow> bool" where
  "source_ok s \<longleftrightarrow> (\<forall>sn. so_snapshot s = Some sn \<longrightarrow> snapshot_ok sn \<and> so_reason s = None) \<and>
    (so_snapshot s = None \<longrightarrow> so_reason s \<noteq> None) \<and> (\<forall>(k, iv) \<in> set (so_intervals s). interval_ok iv)"

lemma source_intervals_ok:
  assumes "source_intervals stale now ident (Some sn) previous = (ivs, why)" "snapshot_ok sn"
    and "\<forall>s. previous = Some s \<longrightarrow> source_ok s"
  shows "\<forall>(k, iv) \<in> set ivs. interval_ok iv"
proof (cases "Option.bind previous so_snapshot")
  case (Some before)
  then have "snapshot_ok before" using assms(3) by (auto simp: source_ok_def bind_eq_Some_conv)
  with assms(1,2) Some show ?thesis
    using project_intervals_ok [of sn before]
    by (auto simp: source_intervals_def Let_def split: if_splits)
qed (use assms(1) in \<open>simp add: source_intervals_def\<close>)

lemma source_intervals_None: "fst (source_intervals stale now ident None previous) = []"
  by (simp add: source_intervals_def)

section \<open>The monitor's invariant\<close>

definition histories_ok :: "(string \<times> Point list) list \<Rightarrow> bool" where
  "histories_ok hs \<longleftrightarrow> (\<forall>(j, h) \<in> set hs. length h \<le> maxHistory)"

definition monitor_ok :: "Monitor \<Rightarrow> bool" where
  "monitor_ok m \<longleftrightarrow> 15000 \<le> mo_staleAfterMs m \<and> mo_staleAfterMs m \<le> 120000 \<and>
    length (mo_sources m) \<le> maxSources \<and> distinct (map fst (mo_sources m)) \<and>
    (\<forall>(k, s) \<in> set (mo_sources m). source_ok s) \<and>
    length (mo_caches m) \<le> maxFilters \<and> distinct (map fst (mo_caches m)) \<and>
    (\<forall>(k, c) \<in> set (mo_caches m). histories_ok (ca_history c))"

inductive monitor_step :: "Monitor \<Rightarrow> Monitor \<Rightarrow> bool" where
  ms_record: "monitor_step m (record_report now ident payload m)"
| ms_view: "monitor_view ctx poolId stock now wall m = Inr (v, m') \<Longrightarrow> monitor_step m m'"

definition monitor_init :: "Monitor \<Rightarrow> bool" where
  "monitor_init m \<longleftrightarrow> (\<exists>st. m = new_monitor st)"

lemma prune_ok: "monitor_ok m \<Longrightarrow> monitor_ok (prune now m)"
  by (auto simp: monitor_ok_def prune_def distinct_map_filter intro: order_trans [OF length_filter_le])

lemma length_update: "length (AList.update k v al) = (if k \<in> fst ` set al then length al else Suc (length al))"
  by (induction al) auto

lemma record_report_ok:
  assumes "monitor_ok m"
  shows "monitor_ok (record_report now ident payload m)"
proof -
  let ?m = "prune now m"
  let ?prev = "map_of (mo_sources ?m) (si_runnerId ident)"
  have ok: "monitor_ok ?m" using assms by (rule prune_ok)
  obtain sn r where rp: "read_payload payload = (sn, r)" by (cases "read_payload payload")
  obtain ivs why where si: "source_intervals (mo_staleAfterMs ?m) now ident sn ?prev = (ivs, why)"
    by (cases "source_intervals (mo_staleAfterMs ?m) now ident sn ?prev")
  let ?s = "\<lparr>so_identity = ident, so_receivedAt = now, so_snapshot = sn, so_reason = r, so_intervals = ivs,
    so_intervalReason = why\<rparr>"
  have prev: "\<forall>s. ?prev = Some s \<longrightarrow> source_ok s"
    using ok by (auto simp: monitor_ok_def dest: map_of_SomeD)
  have s_ok: "source_ok ?s"
  proof (cases sn)
    case None
    then show ?thesis using rp si read_payload_reason source_intervals_None [of "mo_staleAfterMs ?m" now ident ?prev]
      by (auto simp: source_ok_def)
  next
    case (Some x)
    then have "snapshot_ok x" "r = None" using rp read_payload_ok by auto
    then show ?thesis using Some si source_intervals_ok [OF _ _ prev] by (auto simp: source_ok_def)
  qed
  let ?u = "AList.update (si_runnerId ident) ?s (mo_sources ?m)"
  have upd: "monitor_ok (?m\<lparr>mo_sources := ?u\<rparr>)" if "\<not> (?prev = None \<and> length (mo_sources ?m) \<ge> maxSources)"
  proof -
    have "length ?u \<le> maxSources" using that ok
      by (auto simp: length_update map_of_eq_None_iff monitor_ok_def)
    moreover have "distinct (map fst ?u)" using ok by (simp add: monitor_ok_def distinct_update)
    moreover have "\<forall>(k, s) \<in> set ?u. source_ok s" using ok s_ok by (auto simp: monitor_ok_def dest!: update_values)
    ultimately show ?thesis using ok by (simp add: monitor_ok_def)
  qed
  then show ?thesis using ok by (simp add: record_report_def Let_def rp si split: option.split)
qed

lemma push_history_bound: "length h \<le> maxHistory \<Longrightarrow> length (push_history now v h) \<le> maxHistory"
  by (simp add: push_history_def Let_def)

lemma add_entity_histories:
  assumes "histories_ok (snd acc)"
  shows "histories_ok (snd (add_entity fresh now kind e acc))"
proof -
  define key where "key = kind_name kind @ '':'' @ er_id (en_row e)"
  define old where "old = (case map_of (snd acc) key of None \<Rightarrow> [] | Some h \<Rightarrow> h)"
  have "length old \<le> maxHistory"
    using assms by (auto simp: old_def histories_ok_def dest: map_of_SomeD split: option.splits)
  then have "length (push_history now (en_values e) old) \<le> maxHistory" by (rule push_history_bound)
  then show ?thesis
    using assms unfolding add_entity_def Let_def key_def [symmetric] old_def [symmetric]
    by (auto simp: histories_ok_def dest!: update_values)
qed

lemma entities_histories: "histories_ok hs \<Longrightarrow> histories_ok (snd (entities stock ins fresh now kind hs))"
  unfolding entities_def
  by (rule fold_invariant [where Q = "\<lambda>_. True" and P = "\<lambda>acc. histories_ok (snd acc)"])
    (simp_all add: add_entity_histories)

lemma drop_oldest_suffix: "suffix (drop_oldest cs) cs"
proof (induction cs rule: drop_oldest.induct)
  case (1 cs)
  then show ?case
    by (subst drop_oldest.simps) (auto intro: suffix_order.trans [OF _ suffix_tl])
qed

lemma distinct_map_suffix: "suffix xs ys \<Longrightarrow> distinct (map f ys) \<Longrightarrow> distinct (map f xs)"
  by (auto simp: suffix_def)

lemma drop_oldest_length: "length (drop_oldest cs) \<le> maxFilters"
proof (induction cs rule: drop_oldest.induct)
  case (1 cs)
  then show ?case by (subst drop_oldest.simps) auto
qed

text \<open>What a successful view computed.\<close>

lemma view_shape:
  assumes "monitor_view ctx poolId stock now wall m = Inr (v, m')"
  obtains (overflow) "m' = prune now m" "vw_groups v = []" "vw_projects v = []"
  | (shown) key c fresh sig h1 groups h2 projects where
      "histories_ok (ca_history c) \<or> c \<in> snd ` set (mo_caches (prune now m))"
      "entities stock (map (inspect now stock (prune now m)) (inv_runners stock)) fresh wall GroupKind (ca_history c) = (groups, h1)"
      "entities stock (map (inspect now stock (prune now m)) (inv_runners stock)) fresh wall ProjectKind h1 = (projects, h2)"
      "vw_groups v = groups" "vw_projects v = projects"
      "m' = (prune now m)\<lparr>mo_caches := drop_oldest (filter (\<lambda>(k, _). k \<noteq> key) (mo_caches (prune now m)) @
         [(key, c\<lparr>ca_signature := Some sig, ca_touched := now, ca_history := h2\<rparr>)])\<rparr>"
proof (cases "inventory_overflow stock")
  case True
  with assms show thesis by (intro overflow) (auto simp: monitor_view_def and_then_eq_Inr Let_def)
next
  case False
  let ?m = "prune now m"
  let ?ins = "map (inspect now stock ?m) (inv_runners stock)"
  define key where "key = (case poolId of None \<Rightarrow> ''*'' | Some p \<Rightarrow> p)"
  define blank where "blank = \<lparr>ca_placement = placement_of stock, ca_signature = None, ca_touched = now, ca_history = []\<rparr>"
  define c where "c = (case map_of (mo_caches ?m) key of None \<Rightarrow> blank
    | Some c \<Rightarrow> if ca_placement c \<noteq> placement_of stock then blank else c)"
  define fresh where "fresh = (ca_signature c \<noteq> Some (signature_of ?ins))"
  obtain groups h1 where g: "entities stock ?ins fresh wall GroupKind (ca_history c) = (groups, h1)" by fastforce
  obtain projects h2 where p: "entities stock ?ins fresh wall ProjectKind h1 = (projects, h2)" by fastforce
  have "c = blank \<or> c \<in> snd ` set (mo_caches ?m)"
    by (force simp: c_def dest: map_of_SomeD split: option.splits)
  then have "histories_ok (ca_history c) \<or> c \<in> snd ` set (mo_caches ?m)"
    by (auto simp: blank_def histories_ok_def)
  moreover have "(v, m') = (\<lparr>vw_available = list_ex en_available groups,
      vw_reason = (if list_ex en_available groups then None else Some ''measurements_unavailable''),
      vw_groups = groups, vw_projects = projects,
      vw_sources = map (\<lambda>i. (ir_runnerId (is_runner i), ir_poolId (is_runner i), is_reason i = None,
        is_reason i, is_age i)) ?ins\<rparr>,
      ?m\<lparr>mo_caches := drop_oldest (filter (\<lambda>(k, _). k \<noteq> key) (mo_caches ?m) @
        [(key, c\<lparr>ca_signature := Some (signature_of ?ins), ca_touched := now, ca_history := h2\<rparr>)])\<rparr>)"
    using assms False unfolding monitor_view_def and_then_eq_Inr Let_def key_def [symmetric] blank_def [symmetric]
      c_def [symmetric] fresh_def [symmetric] g p by (auto simp: g p)
  ultimately show thesis by (intro shown [OF _ g p]) auto
qed

lemma view_ok:
  assumes ok: "monitor_ok m" and v: "monitor_view ctx poolId stock now wall m = Inr (v, m')"
  shows "monitor_ok m'"
  using v
proof (cases rule: view_shape)
  case overflow
  with ok show ?thesis by (simp add: prune_ok)
next
  case (shown key c fresh sig h1 groups h2 projects)
  let ?m = "prune now m"
  let ?cs = "filter (\<lambda>(k, _). k \<noteq> key) (mo_caches ?m) @
    [(key, c\<lparr>ca_signature := Some sig, ca_touched := now, ca_history := h2\<rparr>)]"
  have okp: "monitor_ok ?m" using ok by (rule prune_ok)
  have "histories_ok (ca_history c)" using shown(1) okp by (auto simp: monitor_ok_def)
  then have "histories_ok h2" using entities_histories shown(2,3) by (metis snd_conv)
  then have h: "\<forall>(k, c) \<in> set ?cs. histories_ok (ca_history c)"
    using okp by (auto simp: monitor_ok_def)
  have d: "distinct (map fst ?cs)" using okp by (auto simp: monitor_ok_def distinct_map_filter)
  have "distinct (map fst (drop_oldest ?cs))"
    by (rule distinct_map_suffix [OF drop_oldest_suffix d])
  moreover have "\<forall>(k, c) \<in> set (drop_oldest ?cs). histories_ok (ca_history c)"
    using h set_mono_suffix [OF drop_oldest_suffix [of ?cs]] by blast
  ultimately show ?thesis
    using okp drop_oldest_length [of ?cs] by (simp add: shown(6) monitor_ok_def)
qed

interpretation monitor: invariant_system monitor_init monitor_step monitor_ok
proof
  show "monitor_ok m" if "monitor_init m" for m
    using that by (auto simp: monitor_init_def new_monitor_def monitor_ok_def)
  show "monitor_ok m'" if "monitor_ok m" "monitor_step m m'" for m m'
    using that(2,1) by cases (auto intro: record_report_ok view_ok)
qed

section \<open>Figures of the view\<close>

lemma bucket_bounds:
  assumes "i < length admissionBucketSeconds"
  shows "0 \<le> (if i = 0 then 0 else admissionBucketSeconds ! (i - 1)) \<and>
    (if i = 0 then 0 else admissionBucketSeconds ! (i - 1)) < admissionBucketSeconds ! i \<and>
    admissionBucketSeconds ! i \<le> 60"
proof -
  have "list_all (\<lambda>i. 0 \<le> (if i = 0 then 0 else admissionBucketSeconds ! (i - 1)) \<and>
    (if i = 0 then 0 else admissionBucketSeconds ! (i - 1)) < admissionBucketSeconds ! i \<and>
    admissionBucketSeconds ! i \<le> 60) [0..<length admissionBucketSeconds]" by code_simp
  with assms show ?thesis by (simp add: list_all_iff)
qed

lemma interpolated:
  fixes lower upper rank before b :: rat
  assumes "0 \<le> lower" "lower < upper" "upper \<le> 60" "before < rank" "rank \<le> b"
  shows "0 < (lower + (upper - lower) * (rank - before) / (b - before)) * 1000 \<and>
    (lower + (upper - lower) * (rank - before) / (b - before)) * 1000 \<le> 60000"
proof -
  let ?q = "(rank - before) / (b - before)"
  define e where "e = (upper - lower) * ?q"
  have q: "0 < ?q" "?q \<le> 1" using assms by (simp_all add: divide_le_eq)
  have "0 < e" unfolding e_def by (rule mult_pos_pos) (use q(1) assms in simp_all)
  moreover have "e \<le> (upper - lower) * 1" unfolding e_def by (rule mult_left_mono) (use q(2) assms in simp_all)
  ultimately have "0 < lower + e" "lower + e \<le> 60" using assms(1-3) by simp_all
  moreover have "(upper - lower) * (rank - before) / (b - before) = e" by (simp add: e_def)
  ultimately show ?thesis by simp
qed

lemma p95_bounds:
  assumes "p95 hs = Some v" "\<forall>h \<in> set hs. histogram_ok h"
  shows "0 < v \<and> v \<le> 60000"
proof -
  let ?n = "sum_list (map hi_count hs)" and ?b = "sum_buckets hs"
  let ?rank = "of_int ?n * (95 / 100) :: rat"
  obtain i where n: "?n \<noteq> 0" and i: "first_at_least ?rank ?b = Some i" "i \<noteq> length admissionBucketSeconds"
    and v: "v = ((if i = 0 then 0 else admissionBucketSeconds ! (i - 1)) +
      (admissionBucketSeconds ! i - (if i = 0 then 0 else admissionBucketSeconds ! (i - 1))) *
      (?rank - of_int (if i = 0 then 0 else ?b ! (i - 1))) /
      of_int (?b ! i - (if i = 0 then 0 else ?b ! (i - 1)))) * 1000"
    using assms(1) unfolding p95_def Let_def by (auto split: option.splits if_splits)
  have "0 \<le> ?n" using assms(2) by (intro sum_list_nonneg) (auto simp: histogram_ok_def)
  with n have rank: "0 < ?rank" by simp
  from i(1) have fi: "i < length ?b" "?rank \<le> of_int (?b ! i)" "\<forall>j < i. of_int (?b ! j) < ?rank"
    by (auto simp: first_at_least_def find_Some_iff not_le)
  have "i < length admissionBucketSeconds" using fi(1) i(2) by (simp add: sum_buckets_def)
  note bb = bucket_bounds [OF this]
  have before: "of_int (if i = 0 then 0 else ?b ! (i - 1)) < ?rank" using fi(3) rank by simp
  show ?thesis
    unfolding v of_int_diff by (rule interpolated) (use bb before fi(2) in auto)
qed

definition runner_backed :: "rat \<Rightarrow> AdmissionInventory \<Rightarrow> Monitor \<Rightarrow> InventoryRunner \<Rightarrow> bool" where
  "runner_backed now stock m r \<longleftrightarrow> ir_status r \<noteq> Offline \<and> ir_status r \<noteq> Syncing \<and> ir_disconnectedAt r = None \<and>
    ir_sessionCurrent r \<and>
    (\<exists>s sn. map_of (mo_sources m) (ir_runnerId r) = Some s \<and> source_of_runner r s \<and>
       0 \<le> now - so_receivedAt s \<and> now - so_receivedAt s \<le> mo_staleAfterMs m \<and> so_snapshot s = Some sn \<and>
       (\<forall>row \<in> set (sn_projects sn). \<not> stranger stock (ir_poolId r) row))"

lemma inspect_backed:
  assumes "reports (inspect now stock m r)"
  shows "runner_backed now stock m r"
proof -
  let ?i = "inspect now stock m r"
  from assms have none: "is_reason ?i = None" by (simp add: reports_def)
  from assms obtain s sn where s: "map_of (mo_sources m) (ir_runnerId r) = Some s" "so_snapshot s = Some sn"
    by (auto simp: reports_def inspect_def Let_def bind_eq_Some_conv)
  have "ir_status r \<noteq> Offline \<and> ir_status r \<noteq> Syncing \<and> ir_disconnectedAt r = None \<and> ir_sessionCurrent r \<and>
      source_of_runner r s \<and> source_problem (mo_staleAfterMs m) now stock r s = None"
    using none by (auto simp: inspect_def Let_def s split: if_splits)
  moreover from this have "0 \<le> now - so_receivedAt s \<and> now - so_receivedAt s \<le> mo_staleAfterMs m \<and>
      \<not> list_ex (stranger stock (ir_poolId r)) (sn_projects sn)"
    by (auto simp: source_problem_def Let_def s split: if_splits)
  ultimately show ?thesis using s unfolding runner_backed_def by (auto simp: list_ex_iff)
qed

lemma reports_snapshot_ok:
  assumes "monitor_ok m" "reports (inspect now stock m r)"
  shows "snapshot_ok (snapshot_of (inspect now stock m r)) \<and>
    (\<forall>(k, iv) \<in> set (so_intervals (the (is_source (inspect now stock m r)))). interval_ok iv)"
proof -
  from assms(2) obtain s sn where s: "map_of (mo_sources m) (ir_runnerId r) = Some s" "so_snapshot s = Some sn"
    by (auto simp: reports_def inspect_def Let_def bind_eq_Some_conv)
  then have "source_ok s" using assms(1) by (auto simp: monitor_ok_def dest: map_of_SomeD)
  with s show ?thesis by (auto simp: snapshot_of_def inspect_def Let_def source_ok_def)
qed

lemma selected_ok:
  assumes "\<forall>i \<in> set rep. snapshot_ok (snapshot_of i) \<and> (\<forall>(k, iv) \<in> set (so_intervals (the (is_source i))). interval_ok iv)"
    and "(p, iv) \<in> set (selected_of kind row rep)"
  shows "project_ok p \<and> (\<forall>x. iv = Some x \<longrightarrow> interval_ok x)"
proof -
  from assms(2) obtain i where i: "i \<in> set rep" "p \<in> set (sn_projects (snapshot_of i))"
    "iv = map_of (so_intervals (the (is_source i))) (ap_projectId p)"
    by (auto simp: selected_of_def)
  with assms(1) have "project_ok p" by (auto simp: snapshot_ok_def)
  moreover have "interval_ok x" if "iv = Some x" for x
    using assms(1) i(1) map_of_SomeD [of _ "ap_projectId p" x] that i(3) by fastforce
  ultimately show ?thesis by blast
qed

text \<open>The sums of the occupied permits and of the capacities they are compared with.\<close>

lemma group_active_bound:
  assumes "\<forall>i \<in> set rep. snapshot_ok (snapshot_of i)"
  shows "sum_list (map (\<lambda>x. ap_active (fst x)) (selected_of GroupKind row rep))
    \<le> sum_list (map (\<lambda>i. sn_capacity (snapshot_of i)) rep)"
  using assms
proof (induction rep)
  case (Cons i rep)
  then have "sum_list (map ap_active (sn_projects (snapshot_of i))) \<le> sn_capacity (snapshot_of i)"
    by (simp add: snapshot_ok_def)
  with Cons show ?case by (simp add: selected_of_def comp_def)
qed (simp add: selected_of_def)

lemma project_active_bound:
  assumes "\<forall>x \<in> set sel. project_ok (fst x)"
  shows "sum_list (map (\<lambda>x. ap_active (fst x)) sel) \<le> sum_list (map (\<lambda>x. ap_limit (fst x)) sel)"
  using assms by (intro sum_list_mono) (auto simp: project_ok_def)

lemma active_nonneg:
  assumes "\<forall>x \<in> set sel. project_ok (fst x)"
  shows "0 \<le> sum_list (map (\<lambda>x. ap_active (fst x)) sel)"
  using assms by (intro sum_list_nonneg) (auto simp: project_ok_def)

lemma aggregate_bounds:
  assumes sel: "\<forall>x \<in> set sel. project_ok (fst x)"
    and le: "sum_list (map (\<lambda>x. ap_active (fst x)) sel) \<le> capacity"
    and ivs: "ia \<Longrightarrow> \<forall>x \<in> set sel. \<exists>iv. snd x = Some iv \<and> interval_ok iv"
  shows "(\<forall>q. av_occupancyPercent (aggregate sel capacity ia) = Some q \<longrightarrow> 0 \<le> q \<and> q \<le> 100) \<and>
    (\<forall>q. av_waitP95Ms (aggregate sel capacity ia) = Some q \<longrightarrow> 0 < q \<and> q \<le> 60000) \<and>
    (\<forall>q. av_heldP95Ms (aggregate sel capacity ia) = Some q \<longrightarrow> 0 < q \<and> q \<le> 60000)"
proof (intro conjI allI impI)
  fix q assume "av_occupancyPercent (aggregate sel capacity ia) = Some q"
  then have c: "0 < capacity" "q = of_int (sum_list (map (\<lambda>x. ap_active (fst x)) sel)) / of_int capacity * 100"
    by (auto simp: aggregate_def Let_def split: if_splits)
  have "(0::rat) \<le> of_int (sum_list (map (\<lambda>x. ap_active (fst x)) sel))" "of_int (sum_list (map (\<lambda>x. ap_active (fst x)) sel)) \<le> (of_int capacity :: rat)"
    using active_nonneg [OF sel] le by (simp_all only: of_int_0_le_iff of_int_le_iff)
  with c(1) show "0 \<le> q" "q \<le> 100" unfolding c(2) by (simp_all add: divide_le_eq)
next
  fix q assume "av_waitP95Ms (aggregate sel capacity ia) = Some q"
  then have "ia" "p95 (map iv_wait (map (\<lambda>r. the (snd r)) sel)) = Some q"
    by (auto simp: aggregate_def Let_def split: if_splits)
  moreover from ivs [OF this(1)] have "\<forall>h \<in> set (map iv_wait (map (\<lambda>r. the (snd r)) sel)). histogram_ok h"
    by (fastforce simp: interval_ok_def)
  ultimately show "0 < q" "q \<le> 60000" using p95_bounds by blast+
next
  fix q assume "av_heldP95Ms (aggregate sel capacity ia) = Some q"
  then have "ia" "p95 (map iv_held (map (\<lambda>r. the (snd r)) sel)) = Some q"
    by (auto simp: aggregate_def Let_def split: if_splits)
  moreover from ivs [OF this(1)] have "\<forall>h \<in> set (map iv_held (map (\<lambda>r. the (snd r)) sel)). histogram_ok h"
    by (fastforce simp: interval_ok_def)
  ultimately show "0 < q" "q \<le> 60000" using p95_bounds by blast+
qed

definition figures_sound :: "AdmissionValues \<Rightarrow> bool" where
  "figures_sound v \<longleftrightarrow> (\<forall>q. av_occupancyPercent v = Some q \<longrightarrow> 0 \<le> q \<and> q \<le> 100) \<and>
    (\<forall>q. av_waitP95Ms v = Some q \<longrightarrow> 0 < q \<and> q \<le> 60000) \<and>
    (\<forall>q. av_heldP95Ms v = Some q \<longrightarrow> 0 < q \<and> q \<le> 60000)"

lemma measure_entity_fields:
  fixes stock ins kind row
  defines "expected \<equiv> expected_of stock ins kind row"
  defines "sel \<equiv> selected_of kind row (filter reports expected)"
  assumes "en_available (measure_entity stock ins kind row)"
  shows "expected \<noteq> []" "filter reports expected = expected"
    "\<exists>ia. en_values (measure_entity stock ins kind row) = aggregate sel
      (case kind of GroupKind \<Rightarrow> sum_list (map (\<lambda>i. sn_capacity (snapshot_of i)) (filter reports expected))
       | ProjectKind \<Rightarrow> sum_list (map (\<lambda>x. ap_limit (fst x)) sel)) ia \<and>
      (ia \<longrightarrow> (\<forall>x \<in> set sel. snd x \<noteq> None))"
proof -
  have a: "expected \<noteq> [] \<and> length (filter reports expected) = length expected \<and> (kind = GroupKind \<or> sel \<noteq> [])"
    using assms(3) unfolding measure_entity_def Let_def expected_def sel_def by simp
  then show "expected \<noteq> []" by simp
  show "filter reports expected = expected" using a by (metis filter_id_conv length_filter_less less_irrefl)
  let ?ia = "list_all (\<lambda>x. snd x \<noteq> None) sel"
  show "\<exists>ia. en_values (measure_entity stock ins kind row) = aggregate sel
      (case kind of GroupKind \<Rightarrow> sum_list (map (\<lambda>i. sn_capacity (snapshot_of i)) (filter reports expected))
       | ProjectKind \<Rightarrow> sum_list (map (\<lambda>x. ap_limit (fst x)) sel)) ia \<and>
      (ia \<longrightarrow> (\<forall>x \<in> set sel. snd x \<noteq> None))"
    using a unfolding measure_entity_def Let_def expected_def [symmetric] sel_def [symmetric]
    by (intro exI [of _ ?ia]) (simp add: list_all_iff)
qed

lemma measured_sound:
  assumes ok: "monitor_ok m" and av: "en_available (measure_entity stock (map (inspect now stock m) rs) kind row)"
  shows "(\<exists>r \<in> set rs. ir_poolId r \<in> ip_id ` set (entity_pools stock kind row)) \<and>
    (\<forall>r \<in> set rs. ir_poolId r \<in> ip_id ` set (entity_pools stock kind row) \<longrightarrow> runner_backed now stock m r) \<and>
    figures_sound (en_values (measure_entity stock (map (inspect now stock m) rs) kind row))"
proof -
  let ?ins = "map (inspect now stock m) rs"
  let ?exp = "expected_of stock ?ins kind row"
  let ?sel = "selected_of kind row ?exp"
  note f = measure_entity_fields [OF av]
  have runner: "is_runner (inspect now stock m r) = r" for r by (simp add: inspect_def Let_def)
  have mem: "inspect now stock m r \<in> set ?exp \<longleftrightarrow> ir_poolId r \<in> ip_id ` set (entity_pools stock kind row)"
    if "r \<in> set rs" for r using that by (auto simp: expected_of_def runner)
  have all: "\<forall>i \<in> set ?exp. reports i" using f(2) by (metis filter_id_conv)
  have ex: "\<exists>r \<in> set rs. ir_poolId r \<in> ip_id ` set (entity_pools stock kind row)"
    using f(1) by (auto simp: expected_of_def filter_empty_conv runner)
  have backed: "runner_backed now stock m r"
    if "r \<in> set rs" "ir_poolId r \<in> ip_id ` set (entity_pools stock kind row)" for r
    using all mem [OF that(1)] that(2) inspect_backed by blast
  have good: "\<forall>i \<in> set ?exp. snapshot_ok (snapshot_of i) \<and>
      (\<forall>(k, iv) \<in> set (so_intervals (the (is_source i))). interval_ok iv)"
  proof
    fix i assume i: "i \<in> set ?exp"
    then obtain r where "i = inspect now stock m r" by (auto simp: expected_of_def)
    with i all reports_snapshot_ok [OF ok] show "snapshot_ok (snapshot_of i) \<and>
      (\<forall>(k, iv) \<in> set (so_intervals (the (is_source i))). interval_ok iv)" by blast
  qed
  have sel: "\<forall>x \<in> set ?sel. project_ok (fst x) \<and> (\<forall>y. snd x = Some y \<longrightarrow> interval_ok y)"
    using selected_ok [OF good] by (metis prod.collapse)
  obtain ia where vals: "en_values (measure_entity stock ?ins kind row) = aggregate ?sel
      (case kind of GroupKind \<Rightarrow> sum_list (map (\<lambda>i. sn_capacity (snapshot_of i)) ?exp)
       | ProjectKind \<Rightarrow> sum_list (map (\<lambda>x. ap_limit (fst x)) ?sel)) ia"
    and ia: "ia \<longrightarrow> (\<forall>x \<in> set ?sel. snd x \<noteq> None)"
    using f(3) unfolding f(2) by blast
  have "figures_sound (en_values (measure_entity stock ?ins kind row))"
    unfolding vals figures_sound_def
  proof (rule aggregate_bounds)
    show "\<forall>x \<in> set ?sel. project_ok (fst x)" using sel by blast
    show "sum_list (map (\<lambda>x. ap_active (fst x)) ?sel) \<le> (case kind of
        GroupKind \<Rightarrow> sum_list (map (\<lambda>i. sn_capacity (snapshot_of i)) ?exp)
      | ProjectKind \<Rightarrow> sum_list (map (\<lambda>x. ap_limit (fst x)) ?sel))"
      using group_active_bound [of ?exp row] project_active_bound [of ?sel] good sel by (cases kind) auto
    show "\<forall>x \<in> set ?sel. \<exists>iv. snd x = Some iv \<and> interval_ok iv" if ia
      using ia that sel by blast
  qed
  with ex backed show ?thesis by blast
qed

lemma entities_measured:
  "\<forall>e \<in> set (fst (entities stock ins fresh now kind hs)).
     \<exists>row h. e = (measure_entity stock ins kind row)\<lparr>en_history := h\<rparr>"
  unfolding entities_def
  by (rule fold_invariant [where Q = "\<lambda>_. True" and P = "\<lambda>acc. \<forall>e \<in> set (fst acc).
     \<exists>row h. e = (measure_entity stock ins kind row)\<lparr>en_history := h\<rparr>"])
    (auto simp: add_entity_def Let_def)

section \<open>Properties\<close>

text \<open>Claim C37. Whatever reports arrive and whatever is viewed, the monitor's state stays bounded
  and valid: at most 32 sources, one per Runner, at most 4 cached histories of at most 60 points per
  row; a source holds a report that satisfies the contract (or the reason why not), and every
  counter interval it derived spans between 0 and 120 seconds with counters that did not go back
  and cumulative histograms that end at their count.\<close>

theorem monitor_bounded_and_valid:
  assumes "reach monitor_init monitor_step m"
  shows "length (mo_sources m) \<le> 32 \<and> distinct (map fst (mo_sources m)) \<and> length (mo_caches m) \<le> 4 \<and>
    (\<forall>(k, c) \<in> set (mo_caches m). \<forall>(j, h) \<in> set (ca_history c). length h \<le> 60) \<and>
    (\<forall>(k, s) \<in> set (mo_sources m).
       (case so_snapshot s of None \<Rightarrow> so_reason s \<noteq> None | Some sn \<Rightarrow> snapshot_ok sn) \<and>
       (\<forall>(j, iv) \<in> set (so_intervals s). interval_ok iv))"
proof -
  have ok: "monitor_ok m" by (rule monitor.reachable_inv [OF assms])
  then have "\<forall>(k, s) \<in> set (mo_sources m). (case so_snapshot s of None \<Rightarrow> so_reason s \<noteq> None | Some sn \<Rightarrow> snapshot_ok sn) \<and>
       (\<forall>(j, iv) \<in> set (so_intervals s). interval_ok iv)"
    unfolding monitor_ok_def source_ok_def by (fastforce split: option.splits)
  moreover have "\<forall>(k, c) \<in> set (mo_caches m). \<forall>(j, h) \<in> set (ca_history c). length h \<le> 60"
    using ok by (simp add: monitor_ok_def histories_ok_def maxHistory_def)
  ultimately show ?thesis using ok by (simp add: monitor_ok_def maxSources_def maxFilters_def)
qed

definition sample_report :: "rat \<Rightarrow> rat \<Rightarrow> json" where
  "sample_report t n = (let hist = JObj [(''buckets'', JArr (replicate 15 (JNum n))), (''count'', JNum n), (''totalSeconds'', JNum t)]
     in JObj [(''version'', JNum 1), (''available'', JBool True), (''capacity'', JNum 4), (''monotonicSeconds'', JNum t),
       (''projects'', JArr [JObj [(''projectId'', JStr ''p''), (''active'', JNum 2), (''queued'', JNum 0), (''limit'', JNum 4),
          (''outcomes'', JObj [(''admitted'', JNum n), (''queue_full'', JNum 0), (''queue_timeout'', JNum 0),
            (''rate_limited'', JNum 0), (''cancelled'', JNum 0), (''unavailable'', JNum 0)]),
          (''wait'', hist), (''held'', hist)]])])"

definition sample_source :: "int \<Rightarrow> SourceIdentity" where
  "sample_source n = \<lparr>si_runnerId = ''r'', si_bootId = ''b'', si_controlSessionId = Some ''s'', si_poolId = ''pool'', si_sequence = n\<rparr>"

definition sample_monitor :: Monitor where
  "sample_monitor = record_report 5000 (sample_source 2) (Some \<lparr>pay_bytes = 900, pay_json = Some (sample_report 15 30)\<rparr>)
     (record_report 0 (sample_source 1) (Some \<lparr>pay_bytes = 900, pay_json = Some (sample_report 10 20)\<rparr>) (new_monitor None))"

definition sample_stock :: AdmissionInventory where
  "sample_stock = \<lparr>inv_groups = [(''g'', ''G'')], inv_projects = [\<lparr>ij_id = ''p'', ij_name = ''P'', ij_groupId = ''g''\<rparr>],
     inv_pools = [\<lparr>ip_id = ''pool'', ip_name = ''Pool'', ip_groupId = ''g'', ip_projectIds = [''p'']\<rparr>],
     inv_runners = [\<lparr>ir_runnerId = ''r'', ir_bootId = ''b'', ir_controlSessionId = Some ''s'', ir_poolId = ''pool'',
       ir_status = Ready, ir_disconnectedAt = None, ir_sessionCurrent = True\<rparr>]\<rparr>"

lemma sample_monitor_reach: "reach monitor_init monitor_step sample_monitor"
  unfolding sample_monitor_def
  by (rule reach_step, rule reach_step, rule reach_init) (auto simp: monitor_init_def intro: ms_record)

theorem monitor_bounded_and_valid_witness:
  "length (mo_sources sample_monitor) \<le> 32 \<and> mo_sources sample_monitor \<noteq> []"
proof -
  have "length (mo_sources sample_monitor) = 1" by code_simp
  with monitor_bounded_and_valid [OF sample_monitor_reach] show ?thesis by auto
qed

text \<open>Claim C36. A group or project row the view shows as available is backed by evidence: some
  Runner of its pools exists, and every Runner of its pools is online, connected, on a current
  session, and has a report of exactly that boot, session and pool, not older than the staleness
  limit and naming only projects allocated to its pool. Its occupancy lies between 0 and 100
  percent, and its waiting and holding percentiles, where shown, lie above 0 and at most 60 seconds,
  so the interpolation never divides by an empty bucket.\<close>

theorem available_rows_backed:
  assumes "reach monitor_init monitor_step m" and "monitor_view ctx poolId stock now wall m = Inr (v, m')"
  shows "\<forall>e \<in> set (vw_groups v) \<union> set (vw_projects v). en_available e \<longrightarrow>
    (\<exists>r \<in> set (inv_runners stock). ir_poolId r \<in> set (en_poolIds e)) \<and>
    (\<forall>r \<in> set (inv_runners stock). ir_poolId r \<in> set (en_poolIds e) \<longrightarrow> runner_backed now stock (prune now m) r) \<and>
    figures_sound (en_values e)"
proof -
  let ?ins = "map (inspect now stock (prune now m)) (inv_runners stock)"
  have ok: "monitor_ok (prune now m)" by (intro prune_ok monitor.reachable_inv assms(1))
  have "\<exists>kind row h. e = (measure_entity stock ?ins kind row)\<lparr>en_history := h\<rparr>"
    if e: "e \<in> set (vw_groups v) \<union> set (vw_projects v)" for e
    using assms(2)
  proof (cases rule: view_shape)
    case overflow
    with e show ?thesis by simp
  next
    case (shown key c fresh sig h1 groups h2 projects)
    have "\<forall>e \<in> set groups. \<exists>row h. e = (measure_entity stock ?ins GroupKind row)\<lparr>en_history := h\<rparr>"
      using entities_measured [of stock ?ins fresh wall GroupKind "ca_history c"] by (simp only: shown(2) fst_conv)
    moreover have "\<forall>e \<in> set projects. \<exists>row h. e = (measure_entity stock ?ins ProjectKind row)\<lparr>en_history := h\<rparr>"
      using entities_measured [of stock ?ins fresh wall ProjectKind h1] by (simp only: shown(3) fst_conv)
    ultimately show ?thesis using e unfolding shown(4,5) by blast
  qed
  moreover have "set (en_poolIds (measure_entity stock ins kind row)) = ip_id ` set (entity_pools stock kind row)" for ins kind row
    by (simp add: measure_entity_def Let_def)
  ultimately show ?thesis using measured_sound [OF ok, where rs = "inv_runners stock"] by fastforce
qed

theorem available_rows_backed_witness:
  "\<exists>v m'. monitor_view None None sample_stock 6000 0 sample_monitor = Inr (v, m') \<and>
     (\<exists>e \<in> set (vw_groups v). en_available e \<and> figures_sound (en_values e) \<and> av_waitP95Ms (en_values e) \<noteq> None)"
proof -
  let ?x = "projr (monitor_view None None sample_stock 6000 0 sample_monitor)"
  have v: "monitor_view None None sample_stock 6000 0 sample_monitor = Inr (fst ?x, snd ?x)" by code_simp
  have "list_ex (\<lambda>e. en_available e \<and> av_waitP95Ms (en_values e) \<noteq> None) (vw_groups (fst ?x))" by code_simp
  with available_rows_backed [OF sample_monitor_reach v] show ?thesis
    unfolding list_ex_iff by (metis UnI1 v)
qed

end
