(* ===== verification/Json_Text.thy ===== *)
theory Json_Text
  imports Js_Prelude "HOL-Library.Multiset"
begin

text \<open>
  JSON text: the language's \<open>JSON.stringify\<close> and \<open>JSON.parse\<close> on plain data, and the
  canonical encoding that digests are computed over (\<^verbatim>\<open>controller/shared/canonical-json.ts\<close>).

  A number is the decimal it prints as. \<open>JSON.stringify\<close> prints a number with at most 21
  digits before the point and at most six zeros after it in plain notation, otherwise with an
  exponent. The reader returns the members of an object in the order of the text.
\<close>

section \<open>Numbers\<close>

definition is_digit :: "char \<Rightarrow> bool" where
  "is_digit c = (48 \<le> js_code c \<and> js_code c \<le> 57)"

definition digits_value :: "string \<Rightarrow> nat" where
  "digits_value ds = foldl (\<lambda>a c. 10 * a + (js_code c - 48)) 0 ds"

text \<open>The places of a decimal: the least number of decimals that represents it exactly.\<close>

definition decimal_places :: "rat \<Rightarrow> nat" where
  "decimal_places r = (case List.find (\<lambda>k. snd (quotient_of (r * 10 ^ k)) = 1) [0..<344] of Some k \<Rightarrow> k | None \<Rightarrow> 344)"

definition padded :: "nat \<Rightarrow> string \<Rightarrow> string" where
  "padded k ds = replicate (k - length ds) CHR ''0'' @ ds"

definition plain_text :: "nat \<Rightarrow> nat \<Rightarrow> string" where
  "plain_text m k = digits (m div 10 ^ k) @ (if k = 0 then [] else CHR ''.'' # padded k (digits (m mod 10 ^ k)))"

definition exponent_text :: "string \<Rightarrow> int \<Rightarrow> string" where
  "exponent_text ds e = (let s = rev (dropWhile (\<lambda>c. c = CHR ''0'') (rev ds)) in
     (case s of [] \<Rightarrow> [] | d # fs \<Rightarrow> d # (if fs = [] then [] else CHR ''.'' # fs)) @
     CHR ''e'' # (if e < 0 then CHR ''-'' # digits (nat (- e)) else CHR ''+'' # digits (nat e)))"

definition number_text :: "rat \<Rightarrow> string" where
  "number_text r = (let k = decimal_places r; m = nat \<lfloor>\<bar>r\<bar> * 10 ^ k\<rfloor>; n = int (length (digits m)) - int k in
     (if r < 0 then ''-'' else []) @
     (if -6 < n \<and> n \<le> 21 then plain_text m k else exponent_text (digits m) (n - 1)))"

section \<open>Writing\<close>

definition hex_digit :: "nat \<Rightarrow> char" where
  "hex_digit n = (if n < 10 then char_of (48 + n) else char_of (87 + n))"

definition escaped_char :: "char \<Rightarrow> string" where
  "escaped_char c = (let n = js_code c; b = char_of (92 :: nat) in
     if n = 34 then [b, c] else if n = 92 then [b, c]
     else if n = 8 then [b, CHR ''b''] else if n = 12 then [b, CHR ''f''] else if n = 10 then [b, CHR ''n'']
     else if n = 13 then [b, CHR ''r''] else if n = 9 then [b, CHR ''t'']
     else if n < 32 then [b, CHR ''u'', CHR ''0'', CHR ''0'', hex_digit (n div 16), hex_digit (n mod 16)]
     else [c])"

definition quoted :: "string \<Rightarrow> string" where
  "quoted s = CHR 0x22 # concat (map escaped_char s) @ [CHR 0x22]"

fun json_stringify :: "json \<Rightarrow> string" where
  "json_stringify JNull = ''null''"
| "json_stringify (JBool b) = (if b then ''true'' else ''false'')"
| "json_stringify (JNum r) = number_text r"
| "json_stringify (JStr s) = quoted s"
| "json_stringify (JArr xs) = ''['' @ js_join '','' (map json_stringify xs) @ '']''"
| "json_stringify (JObj es) = ''{'' @ js_join '','' (map (\<lambda>(k, v). quoted k @ '':'' @ json_stringify v) es) @ ''}''"

section \<open>Reading\<close>

definition json_space :: "char \<Rightarrow> bool" where
  "json_space c = (js_code c \<in> {9, 10, 13, 32})"

definition skip_space :: "string \<Rightarrow> string" where
  "skip_space = dropWhile json_space"

definition hex_value :: "char \<Rightarrow> nat option" where
  "hex_value c = (let n = js_code c in
     if 48 \<le> n \<and> n \<le> 57 then Some (n - 48) else if 97 \<le> n \<and> n \<le> 102 then Some (n - 87)
     else if 65 \<le> n \<and> n \<le> 70 then Some (n - 55) else None)"

definition plain_escape :: "char \<Rightarrow> char option" where
  "plain_escape c = (let n = js_code c in
     if n \<in> {34, 92, 47} then Some c
     else if n = 98 then Some (char_of (8 :: nat)) else if n = 102 then Some (char_of (12 :: nat))
     else if n = 110 then Some (char_of (10 :: nat)) else if n = 114 then Some (char_of (13 :: nat))
     else if n = 116 then Some (char_of (9 :: nat)) else None)"

definition unicode_escape :: "char \<Rightarrow> char \<Rightarrow> char \<Rightarrow> char \<Rightarrow> char option" where
  "unicode_escape a b c d = (case (hex_value a, hex_value b, hex_value c, hex_value d) of
     (Some h1, Some h2, Some h3, Some h4) \<Rightarrow> if h1 = 0 \<and> h2 = 0 then Some (char_of (16 * h3 + h4)) else None
   | _ \<Rightarrow> None)"

text \<open>What follows a backslash: the character it stands for and the rest.\<close>

definition read_escape :: "string \<Rightarrow> (char \<times> string) option" where
  "read_escape cs = (case cs of
     [] \<Rightarrow> None
   | e # r \<Rightarrow>
       if js_code e = 117
       then (case r of h1 # h2 # h3 # h4 # r' \<Rightarrow> map_option (\<lambda>x. (x, r')) (unicode_escape h1 h2 h3 h4) | _ \<Rightarrow> None)
       else map_option (\<lambda>x. (x, r)) (plain_escape e))"

lemma read_escape_shorter: "read_escape cs = Some (x, r) \<Longrightarrow> length r < length cs"
  by (auto simp: read_escape_def split: list.splits if_splits option.splits)

text \<open>The rest of a string after its opening quote: its characters and the text after the closing
  quote.\<close>

function read_string :: "string \<Rightarrow> (string \<times> string) option" where
  "read_string [] = None"
| "read_string (c # cs) =
     (if js_code c = 34 then Some ([], cs)
      else if js_code c < 32 then None
      else if js_code c \<noteq> 92 then map_option (apfst (Cons c)) (read_string cs)
      else (case read_escape cs of None \<Rightarrow> None | Some (x, r) \<Rightarrow> map_option (apfst (Cons x)) (read_string r)))"
  by pat_completeness auto

termination
  by (relation "measure length") (auto dest: read_escape_shorter)

declare read_string.simps [simp del]

definition starts :: "char \<Rightarrow> string \<Rightarrow> bool" where
  "starts c s = (s \<noteq> [] \<and> hd s = c)"

definition read_exponent :: "string \<Rightarrow> (int \<times> string) option" where
  "read_exponent s = (case s of
     c # cs \<Rightarrow> if c \<in> {CHR ''e'', CHR ''E''} then
         (let neg = starts CHR ''-'' cs; ds = (if neg \<or> starts CHR ''+'' cs then tl cs else cs);
              e = takeWhile is_digit ds
          in if e = [] then None else Some ((if neg then - 1 else 1) * int (digits_value e), dropWhile is_digit ds))
       else Some (0, s)
   | [] \<Rightarrow> Some (0, s))"

definition read_fraction :: "string \<Rightarrow> (string \<times> string) option" where
  "read_fraction s = (if starts CHR ''.'' s
     then (let fs = takeWhile is_digit (tl s) in if fs = [] then None else Some (fs, dropWhile is_digit (tl s)))
     else Some ([], s))"

definition read_unsigned :: "string \<Rightarrow> (rat \<times> string) option" where
  "read_unsigned s = (let ds = takeWhile is_digit s in
     if ds = [] \<or> (hd ds = CHR ''0'' \<and> length ds > 1) then None
     else (case read_fraction (dropWhile is_digit s) of
         None \<Rightarrow> None
       | Some (fs, r) \<Rightarrow>
          (case read_exponent r of
             None \<Rightarrow> None
           | Some (e, r') \<Rightarrow> Some (of_nat (digits_value (ds @ fs)) / 10 ^ length fs *
               (if e < 0 then 1 / 10 ^ nat (- e) else 10 ^ nat e), r'))))"

definition read_number :: "string \<Rightarrow> (json \<times> string) option" where
  "read_number s = (if starts CHR ''-'' s
     then map_option (apfst (\<lambda>q. JNum (- q))) (read_unsigned (tl s))
     else map_option (apfst JNum) (read_unsigned s))"

definition read_word :: "string \<Rightarrow> json \<Rightarrow> string \<Rightarrow> (json \<times> string) option" where
  "read_word w v s = (if prefix w s then Some (v, drop (length w) s) else None)"

fun read_value :: "nat \<Rightarrow> string \<Rightarrow> (json \<times> string) option"
  and read_items :: "nat \<Rightarrow> json list \<Rightarrow> string \<Rightarrow> (json \<times> string) option"
  and read_members :: "nat \<Rightarrow> (string \<times> json) list \<Rightarrow> string \<Rightarrow> (json \<times> string) option" where
  "read_value 0 s = None"
| "read_value (Suc n) s = (case skip_space s of
     [] \<Rightarrow> None
   | c # cs \<Rightarrow>
       if c = CHR 0x22 then map_option (apfst JStr) (read_string cs)
       else if c = CHR ''['' then
         (if starts CHR '']'' (skip_space cs) then Some (JArr [], tl (skip_space cs)) else read_items n [] cs)
       else if c = CHR ''{'' then
         (if starts CHR ''}'' (skip_space cs) then Some (JObj [], tl (skip_space cs)) else read_members n [] cs)
       else if c = CHR ''n'' then read_word ''null'' JNull (c # cs)
       else if c = CHR ''t'' then read_word ''true'' (JBool True) (c # cs)
       else if c = CHR ''f'' then read_word ''false'' (JBool False) (c # cs)
       else read_number (c # cs))"
| "read_items 0 acc s = None"
| "read_items (Suc n) acc s = (case read_value n s of
     None \<Rightarrow> None
   | Some (v, r) \<Rightarrow>
       if starts CHR '','' (skip_space r) then read_items n (acc @ [v]) (tl (skip_space r))
       else if starts CHR '']'' (skip_space r) then Some (JArr (acc @ [v]), tl (skip_space r))
       else None)"
| "read_members 0 acc s = None"
| "read_members (Suc n) acc s =
     (if \<not> starts CHR 0x22 (skip_space s) then None
      else (case read_string (tl (skip_space s)) of
         None \<Rightarrow> None
       | Some (k, r) \<Rightarrow>
          if \<not> starts CHR '':'' (skip_space r) then None
          else (case read_value n (tl (skip_space r)) of
              None \<Rightarrow> None
            | Some (v, r') \<Rightarrow>
                if starts CHR '','' (skip_space r') then read_members n (acc @ [(k, v)]) (tl (skip_space r'))
                else if starts CHR ''}'' (skip_space r') then Some (JObj (acc @ [(k, v)]), tl (skip_space r'))
                else None)))"

text \<open>Every nesting level, item and member consumes a character, and costs at most two calls.\<close>

definition json_read :: "string \<Rightarrow> json option" where
  "json_read s = (case read_value (2 * length s + 2) s of
     Some (v, r) \<Rightarrow> if skip_space r = [] then Some v else None
   | None \<Rightarrow> None)"

section \<open>The canonical encoding\<close>

definition MAX_SAFE_INTEGER :: int where
  "MAX_SAFE_INTEGER = 2 ^ 53 - 1"

definition canonicalNumber :: "rat \<Rightarrow> thrown + string" where
  "canonicalNumber r =
     (if snd (quotient_of r) = 1
      then if \<bar>fst (quotient_of r)\<bar> \<le> MAX_SAFE_INTEGER then Inr (int_text (fst (quotient_of r)))
           else Inl (JsError ''Canonical JSON integers must be safe integers.'')
      else if \<bar>r\<bar> < 1 / 10000 then Inl (JsError ''Canonical JSON fractional numbers must be at least 1e-4 in magnitude.'')
      else Inr (number_text r))"

definition printable_key :: "string \<Rightarrow> bool" where
  "printable_key k = list_all (\<lambda>c. 32 \<le> js_code c \<and> js_code c \<le> 126) k"

definition key_error :: "string \<Rightarrow> thrown" where
  "key_error k = JsError (''Canonical JSON keys must be printable ASCII: '' @ quoted k @ ''.'')"

fun all_texts :: "(thrown + string) list \<Rightarrow> thrown + string list" where
  "all_texts [] = Inr []"
| "all_texts (t # ts) = and_then t (\<lambda>s. map_sum id (Cons s) (all_texts ts))"

fun canonicalJson :: "json \<Rightarrow> thrown + string" where
  "canonicalJson JNull = Inr ''null''"
| "canonicalJson (JStr s) = Inr (json_stringify (JStr s))"
| "canonicalJson (JBool b) = Inr (json_stringify (JBool b))"
| "canonicalJson (JNum r) = canonicalNumber r"
| "canonicalJson (JArr xs) = map_sum id (\<lambda>ts. ''['' @ js_join '','' ts @ '']'') (all_texts (map canonicalJson xs))"
| "canonicalJson (JObj es) =
     (case List.find (\<lambda>(k, _). \<not> printable_key k) es of
        Some (k, _) \<Rightarrow> Inl (key_error k)
      | None \<Rightarrow> map_sum id (\<lambda>ts. ''{'' @ js_join '','' ts @ ''}'')
          (all_texts (map snd (sort_key fst
            (map (\<lambda>(k, v). (k, map_sum id (\<lambda>t. quoted k @ '':'' @ t) (canonicalJson v))) es)))))"

section \<open>Numerals\<close>

lemma js_code_char_of: "n < 256 \<Longrightarrow> js_code (char_of n) = n"
  by (simp add: js_code_def)

lemma digits_small: "n < 10 \<Longrightarrow> digits n = [char_of (48 + n)]"
  by (simp add: digits.simps [of n])

lemma digits_large: "10 \<le> n \<Longrightarrow> digits n = digits (n div 10) @ [char_of (48 + n mod 10)]"
  by (simp add: digits.simps [of n])

lemma digits_induct [case_names small large]:
  assumes "\<And>n. n < 10 \<Longrightarrow> P n" "\<And>n. 10 \<le> n \<Longrightarrow> P (n div 10) \<Longrightarrow> P n"
  shows "P (n :: nat)"
  using assms by (induction n rule: digits.induct) (metis linorder_not_less)

lemma digits_is_digit: "list_all is_digit (digits n)"
proof (induction n rule: digits_induct)
  case (large n)
  have "n mod 10 < 10" by simp
  then show ?case using large by (simp add: digits_large is_digit_def js_code_char_of)
qed (simp add: digits_small is_digit_def js_code_char_of)

lemma digits_not_Nil [simp]: "digits n \<noteq> []"
  by (cases "n < 10") (simp_all add: digits_small digits_large)

lemma digits_value_snoc: "digits_value (a @ [c]) = 10 * digits_value a + (js_code c - 48)"
  by (simp add: digits_value_def)

lemma digits_value_append: "digits_value (a @ b) = digits_value a * 10 ^ length b + digits_value b"
proof (induction b rule: rev_induct)
  case (snoc c b)
  have "digits_value (a @ b @ [c]) = 10 * digits_value (a @ b) + (js_code c - 48)"
    using digits_value_snoc [of "a @ b" c] by simp
  then show ?case using snoc by (simp add: digits_value_snoc algebra_simps)
qed (simp add: digits_value_def)

lemma digits_value_digits [simp]: "digits_value (digits n) = n"
proof (induction n rule: digits_induct)
  case (small n)
  then show ?case by (simp add: digits_small digits_value_def js_code_char_of)
next
  case (large n)
  have "n mod 10 < 10" by simp
  then show ?case using large by (simp add: digits_large digits_value_snoc js_code_char_of)
qed

lemma length_digits: "n < 10 ^ length (digits n)" "0 < n \<Longrightarrow> 10 ^ (length (digits n) - 1) \<le> n"
proof -
  show "n < 10 ^ length (digits n)"
  proof (induction n rule: digits_induct)
    case (large n)
    have "n = 10 * (n div 10) + n mod 10" "n mod 10 < 10" by simp_all
    then show ?case using large by (simp add: digits_large)
  qed (simp add: digits_small)
  show "10 ^ (length (digits n) - 1) \<le> n" if "0 < n"
    using that
  proof (induction n rule: digits_induct)
    case (large n)
    then have "10 * 10 ^ (length (digits (n div 10)) - 1) \<le> 10 * (n div 10)" by simp
    also have "\<dots> \<le> n" by simp
    finally have "10 * 10 ^ (length (digits (n div 10)) - 1) \<le> n" .
    moreover have "length (digits n) - 1 = Suc (length (digits (n div 10)) - 1)"
      using large(1) by (simp add: digits_large)
    ultimately show ?case by (simp only: power_Suc)
  qed (simp add: digits_small)
qed

lemma length_digits_le:
  assumes "n < 10 ^ d" "0 < d"
  shows "length (digits n) \<le> d"
proof (cases "n = 0")
  case True
  then show ?thesis using assms(2) by (simp add: digits_small)
next
  case False
  then have "(10::nat) ^ (length (digits n) - 1) < 10 ^ d" using length_digits(2) [of n] assms(1) by linarith
  then have "length (digits n) - 1 < d" by (rule power_less_imp_less_exp [rotated]) simp
  then show ?thesis by simp
qed

lemma length_digits_ge:
  assumes "10 ^ d \<le> n"
  shows "d < length (digits n)"
proof -
  have "(10::nat) ^ d < 10 ^ length (digits n)" using length_digits(1) [of n] assms by linarith
  then show ?thesis by (rule power_less_imp_less_exp [rotated]) simp
qed

lemma hd_digits:
  assumes "0 < n"
  shows "hd (digits n) \<noteq> CHR ''0''"
  using assms
proof (induction n rule: digits_induct)
  case (small n)
  then have "js_code (char_of (48 + n)) \<noteq> 48" by (simp add: js_code_char_of)
  moreover have "js_code CHR ''0'' = 48" by (simp add: js_code_def)
  ultimately show ?case using small by (auto simp: digits_small)
qed (simp add: digits_large)

section \<open>Reading what was written\<close>

definition num_ok :: "rat \<Rightarrow> bool" where
  "num_ok r \<longleftrightarrow> (\<exists>k<344. r * 10 ^ k \<in> \<int>) \<and> \<bar>r\<bar> < 10 ^ 21 \<and> (r = 0 \<or> 1 / 10 ^ 6 \<le> \<bar>r\<bar>)"

fun json_ok :: "json \<Rightarrow> bool" where
  "json_ok (JNum r) = num_ok r"
| "json_ok (JArr xs) = list_all json_ok xs"
| "json_ok (JObj es) = list_all (\<lambda>(_, v). json_ok v) es"
| "json_ok _ = True"

lemma quotient_one: "snd (quotient_of r) = 1 \<longleftrightarrow> r \<in> \<int>"
proof
  assume "snd (quotient_of r) = 1"
  then show "r \<in> \<int>" using quotient_of_div [of r "fst (quotient_of r)" 1] by (metis Ints_of_int div_by_1 of_int_1 prod.collapse)
next
  assume "r \<in> \<int>"
  then show "snd (quotient_of r) = 1" by (auto simp: Ints_def)
qed

lemma decimal_places_Ints:
  assumes "\<exists>k<344. r * 10 ^ k \<in> \<int>"
  shows "r * 10 ^ decimal_places r \<in> \<int>"
proof -
  have "List.find (\<lambda>k. snd (quotient_of (r * 10 ^ k)) = 1) [0..<344] \<noteq> None"
    using assms by (auto simp: find_None_iff quotient_one)
  then obtain k where k: "List.find (\<lambda>k. snd (quotient_of (r * 10 ^ k)) = 1) [0..<344] = Some k" by blast
  then show ?thesis using find_Some_mem [OF k] by (simp add: decimal_places_def quotient_one)
qed

lemma not_digit_head:
  assumes "rest = [] \<or> \<not> is_digit (hd rest)" "list_all is_digit ds"
  shows "takeWhile is_digit (ds @ rest) = ds" "dropWhile is_digit (ds @ rest) = rest"
  using assms by (cases rest; auto simp: list_all_iff takeWhile_append dropWhile_append)+

definition closes :: "string \<Rightarrow> bool" where
  "closes rest \<longleftrightarrow> rest = [] \<or> hd rest \<in> {CHR '','', CHR '']'', CHR ''}''}"

lemma closes_not_number:
  assumes "closes rest"
  shows "rest = [] \<or> \<not> is_digit (hd rest)" "read_exponent rest = Some (0, rest)" "read_fraction rest = Some ([], rest)"
  using assms by (cases rest; auto simp: closes_def is_digit_def js_code_def read_exponent_def read_fraction_def starts_def)+

lemma padded_digits:
  assumes "n < 10 ^ k" "0 < k"
  shows "length (padded k (digits n)) = k" "list_all is_digit (padded k (digits n))" "digits_value (padded k (digits n)) = n"
proof -
  show "length (padded k (digits n)) = k" using length_digits_le [OF assms] by (simp add: padded_def)
  show "list_all is_digit (padded k (digits n))"
    using digits_is_digit by (auto simp: padded_def list_all_iff is_digit_def js_code_def)
  have "digits_value (replicate j CHR ''0'') = 0" for j
    by (induction j) (simp_all add: digits_value_def js_code_def)
  then show "digits_value (padded k (digits n)) = n" by (simp add: padded_def digits_value_append)
qed

lemma read_plain_text:
  assumes "closes rest"
  shows "read_unsigned (plain_text m k @ rest) = Some (of_nat m / 10 ^ k, rest)"
proof -
  let ?i = "digits (m div 10 ^ k)"
  have lead: "\<not> (hd ?i = CHR ''0'' \<and> length ?i > 1)"
    using hd_digits [of "m div 10 ^ k"] by (cases "m div 10 ^ k = 0") (simp_all add: digits_small)
  show ?thesis
  proof (cases "k = 0")
    case True
    then show ?thesis
      using not_digit_head [OF closes_not_number(1) [OF assms] digits_is_digit] lead closes_not_number [OF assms]
      by (simp add: plain_text_def read_unsigned_def Let_def)
  next
    case False
    let ?f = "padded k (digits (m mod 10 ^ k))"
    have f: "length ?f = k" "list_all is_digit ?f" "digits_value ?f = m mod 10 ^ k"
      using padded_digits [of "m mod 10 ^ k" k] False by simp_all
    have dot: "takeWhile is_digit (?i @ CHR ''.'' # ?f @ rest) = ?i" "dropWhile is_digit (?i @ CHR ''.'' # ?f @ rest) = CHR ''.'' # ?f @ rest"
      using not_digit_head [of "CHR ''.'' # ?f @ rest", OF _ digits_is_digit] by (simp_all add: is_digit_def js_code_def)
    have frac: "read_fraction (CHR ''.'' # ?f @ rest) = Some (?f, rest)"
      using not_digit_head [OF closes_not_number(1) [OF assms] f(2)] f(1) False by (auto simp: read_fraction_def starts_def Let_def)
    have "digits_value (?i @ ?f) = m" using div_mult_mod_eq [of m "10 ^ k"] by (simp only: digits_value_append f digits_value_digits)
    then show ?thesis
      using False lead by (simp add: plain_text_def read_unsigned_def Let_def dot frac closes_not_number [OF assms] f(1))
  qed
qed

lemma plain_text_start: "\<exists>c cs. plain_text m k @ rest = c # cs \<and> is_digit c"
proof -
  obtain c cs where "digits (m div 10 ^ k) = c # cs" by (metis digits_not_Nil list.exhaust)
  then show ?thesis using digits_is_digit [of "m div 10 ^ k"] by (auto simp: plain_text_def)
qed

lemma decimal_places_Int: "r \<in> \<int> \<Longrightarrow> decimal_places r = 0"
  by (simp add: decimal_places_def upt_conv_Cons quotient_one)

lemma number_text_plain:
  assumes "num_ok r"
  obtains m k where "number_text r = (if r < 0 then ''-'' else []) @ plain_text m k" "\<bar>r\<bar> = of_nat m / 10 ^ k"
proof -
  define k where "k = decimal_places r"
  define m where "m = nat \<lfloor>\<bar>r\<bar> * 10 ^ k\<rfloor>"
  have "r * 10 ^ k \<in> \<int>" unfolding k_def using assms by (intro decimal_places_Ints) (simp add: num_ok_def)
  then have "\<bar>r\<bar> * 10 ^ k \<in> \<int>" by (metis Ints_abs abs_mult abs_of_nonneg zero_le_numeral zero_le_power)
  then have m: "of_nat m = \<bar>r\<bar> * 10 ^ k"
    unfolding m_def by (metis Ints_cases abs_ge_zero floor_of_int mult_nonneg_nonneg nat_0_le of_int_0_le_iff of_nat_nat zero_le_numeral zero_le_power)
  have "rat_of_nat m < 10 ^ 21 * 10 ^ k" unfolding m using assms by (intro mult_strict_right_mono) (auto simp: num_ok_def)
  then have "rat_of_nat m < of_nat (10 ^ (21 + k))" by (simp add: power_add)
  then have "m < 10 ^ (21 + k)" using of_nat_less_iff by blast
  then have upper: "length (digits m) \<le> 21 + k" by (intro length_digits_le) auto
  have lower: "k < length (digits m) + 6"
  proof (cases "r = 0")
    case True
    then show ?thesis by (simp add: k_def decimal_places_Int)
  next
    case False
    then have "1 / 10 ^ 6 * 10 ^ k \<le> rat_of_nat m" unfolding m using assms by (intro mult_right_mono) (auto simp: num_ok_def)
    then have "rat_of_nat (10 ^ k) \<le> rat_of_nat (m * 10 ^ 6)" by (simp add: field_simps)
    then have le: "10 ^ k \<le> m * 10 ^ 6" using of_nat_le_iff by blast
    show ?thesis
    proof (cases "k \<le> 6")
      case True
      then show ?thesis by (cases "digits m") (auto simp: digits_not_Nil)
    next
      case False
      then have "(10::nat) ^ k = 10 ^ (k - 6) * 10 ^ 6" by (metis le_add_diff_inverse2 nat_le_linear power_add)
      then have "10 ^ (k - 6) \<le> m" using le by (metis mult_le_cancel2 zero_less_numeral zero_less_power)
      then show ?thesis using length_digits_ge by fastforce
    qed
  qed
  have "number_text r = (if r < 0 then ''-'' else []) @ plain_text m k"
    using upper lower by (simp add: number_text_def Let_def flip: k_def m_def)
  then show ?thesis using m that [of m k] by simp
qed

lemma read_number_text:
  assumes "num_ok r" "closes rest"
  shows "read_number (number_text r @ rest) = Some (JNum r, rest)"
proof -
  obtain m k where t: "number_text r = (if r < 0 then ''-'' else []) @ plain_text m k" and r: "\<bar>r\<bar> = of_nat m / 10 ^ k"
    by (rule number_text_plain [OF assms(1)])
  obtain c cs where c: "plain_text m k @ rest = c # cs" "is_digit c" using plain_text_start by blast
  have "c \<noteq> CHR ''-''" using c(2) by (auto simp: is_digit_def js_code_def)
  then have "read_number (plain_text m k @ rest) = Some (JNum (of_nat m / 10 ^ k), rest)"
    using c(1) read_plain_text [OF assms(2), of m k] by (simp add: read_number_def starts_def)
  moreover have "read_number (CHR ''-'' # plain_text m k @ rest) = Some (JNum (- (of_nat m / 10 ^ k)), rest)"
    using read_plain_text [OF assms(2), of m k] by (simp add: read_number_def starts_def)
  moreover have "r = (if r < 0 then - (of_nat m / 10 ^ k) else of_nat m / 10 ^ k)" using r by (simp add: abs_if split: if_splits)
  moreover have "number_text r @ rest = (if r < 0 then CHR ''-'' # plain_text m k @ rest else plain_text m k @ rest)"
    by (simp add: t)
  ultimately show ?thesis by metis
qed

lemma number_text_start:
  assumes "num_ok r"
  shows "\<exists>c cs. number_text r @ rest = c # cs \<and> (is_digit c \<or> c = CHR ''-'')"
proof -
  obtain m k where t: "number_text r = (if r < 0 then ''-'' else []) @ plain_text m k"
    by (rule number_text_plain [OF assms])
  show ?thesis using plain_text_start [of m k rest] by (auto simp: t)
qed

text \<open>Strings.\<close>

lemma hex_digit_value: "n < 16 \<Longrightarrow> hex_value (hex_digit n) = Some n"
  by (simp add: hex_value_def hex_digit_def js_code_char_of Let_def)

lemma js_code_eq_iff: "js_code c = js_code d \<longleftrightarrow> c = d"
  by (simp add: js_code_def)

lemma read_string_backslash:
  "read_escape cs = Some (x, r) \<Longrightarrow> read_string (char_of (92 :: nat) # cs) = map_option (apfst (Cons x)) (read_string r)"
  by (simp add: read_string.simps js_code_char_of)

lemma char_of_js_code: "js_code c = n \<Longrightarrow> c = char_of n"
  by (auto simp: js_code_def)

lemma read_plain_escape:
  assumes "js_code e \<noteq> 117" "plain_escape e = Some c"
  shows "read_string ([char_of (92 :: nat), e] @ cs) = map_option (apfst (Cons c)) (read_string cs)"
  using assms by (simp add: read_escape_def read_string_backslash)

lemma read_unicode_escape:
  assumes "js_code c < 32"
  shows "read_string ([char_of (92 :: nat), CHR ''u'', CHR ''0'', CHR ''0'', hex_digit (js_code c div 16), hex_digit (js_code c mod 16)] @ cs) =
    map_option (apfst (Cons c)) (read_string cs)"
proof -
  have "js_code c div 16 < 16" "js_code c mod 16 < 16" using assms by auto
  moreover have "hex_value CHR ''0'' = Some 0" by (simp add: hex_value_def js_code_def)
  moreover have "char_of (16 * (js_code c div 16) + js_code c mod 16) = c" by (simp add: js_code_def)
  ultimately have "unicode_escape CHR ''0'' CHR ''0'' (hex_digit (js_code c div 16)) (hex_digit (js_code c mod 16)) = Some c"
    by (simp add: unicode_escape_def hex_digit_value)
  then have "read_escape (CHR ''u'' # CHR ''0'' # CHR ''0'' # hex_digit (js_code c div 16) # hex_digit (js_code c mod 16) # cs) = Some (c, cs)"
    by (simp add: read_escape_def js_code_def)
  then show ?thesis using read_string_backslash by simp
qed

lemma read_escaped: "read_string (escaped_char c @ cs) = map_option (apfst (Cons c)) (read_string cs)"
proof -
  let ?n = "js_code c"
  consider "?n \<in> {34, 92}" | "?n = 8" | "?n = 12" | "?n = 10" | "?n = 13" | "?n = 9"
    | "?n < 32" "?n \<notin> {8, 9, 10, 12, 13}" | "32 \<le> ?n" "?n \<notin> {34, 92}" by force
  then show ?thesis
  proof cases
    case 1
    then have "escaped_char c = [char_of (92 :: nat), c]" "plain_escape c = Some c" "?n \<noteq> 117"
      by (auto simp: escaped_char_def plain_escape_def Let_def)
    then show ?thesis using read_plain_escape by metis
  next
    case 7
    then have "escaped_char c = [char_of (92 :: nat), CHR ''u'', CHR ''0'', CHR ''0'', hex_digit (?n div 16), hex_digit (?n mod 16)]"
      by (auto simp: escaped_char_def Let_def)
    then show ?thesis using read_unicode_escape [OF 7(1)] by metis
  next
    case 8
    then show ?thesis by (simp add: escaped_char_def read_string.simps Let_def)
  qed (use char_of_js_code [of c] in \<open>simp add: escaped_char_def read_string_backslash read_escape_def plain_escape_def js_code_def\<close>)+
qed

lemma read_quoted: "read_string (tl (quoted s) @ rest) = Some (s, rest)"
proof -
  have "read_string (concat (map escaped_char s) @ CHR 0x22 # rest) = Some (s, rest)"
  proof (induction s)
    case Nil
    show ?case by (simp add: read_string.simps js_code_def)
  next
    case (Cons c s)
    then show ?case using read_escaped [of c "concat (map escaped_char s) @ CHR 0x22 # rest"] by simp
  qed
  then show ?thesis by (simp add: quoted_def)
qed

text \<open>Values. \<open>nodes\<close> is the fuel that reading a written value takes.\<close>

fun nodes :: "json \<Rightarrow> nat" where
  "nodes (JArr xs) = Suc (sum_list (map (\<lambda>x. Suc (nodes x)) xs))"
| "nodes (JObj es) = Suc (sum_list (map (\<lambda>(_, x). Suc (nodes x)) es))"
| "nodes _ = 1"

definition begins :: "string \<Rightarrow> bool" where
  "begins s \<longleftrightarrow> (\<exists>c cs. s = c # cs \<and> \<not> json_space c \<and> c \<notin> {CHR '','', CHR '']'', CHR ''}''})"

lemma stringify_begins:
  assumes "json_ok v"
  shows "begins (json_stringify v @ rest)"
proof (cases v)
  case (JNum r)
  then obtain c cs where "number_text r @ rest = c # cs" "is_digit c \<or> c = CHR ''-''"
    using number_text_start [of r rest] assms by auto
  then show ?thesis using JNum by (auto simp: begins_def is_digit_def json_space_def js_code_def)
qed (auto simp: begins_def json_space_def js_code_def quoted_def)

lemma begins_simps: "begins s \<Longrightarrow> skip_space s = s" "begins s \<Longrightarrow> \<not> starts CHR '']'' s" "begins s \<Longrightarrow> \<not> starts CHR ''}'' s"
  by (auto simp: begins_def skip_space_def starts_def)

lemma quoted_begins: "begins (quoted s @ rest)"
  by (simp add: begins_def quoted_def json_space_def js_code_def)

lemma skip_space_delimiter:
  "skip_space (CHR '','' # r) = CHR '','' # r" "skip_space (CHR '']'' # r) = CHR '']'' # r"
  "skip_space (CHR ''}'' # r) = CHR ''}'' # r" "skip_space (CHR '':'' # r) = CHR '':'' # r"
  "skip_space (CHR ''['' # r) = CHR ''['' # r" "skip_space (CHR ''{'' # r) = CHR ''{'' # r"
  by (simp_all add: skip_space_def json_space_def js_code_def)

lemma read_items_text:
  assumes "xs \<noteq> []" "sum_list (map (\<lambda>x. Suc (nodes x)) xs) \<le> n"
    and "\<And>x n rest. x \<in> set xs \<Longrightarrow> closes rest \<Longrightarrow> nodes x \<le> n \<Longrightarrow> read_value n (json_stringify x @ rest) = Some (x, rest)"
  shows "read_items n acc (js_join '','' (map json_stringify xs) @ CHR '']'' # rest) = Some (JArr (acc @ xs), rest)"
  using assms
proof (induction xs arbitrary: n acc rule: induct_list012)
  case (2 x)
  then obtain n' where "n = Suc n'" "nodes x \<le> n'" by (cases n) auto
  then show ?case using 2(3) [of x "CHR '']'' # rest" n'] by (simp add: closes_def skip_space_delimiter starts_def)
next
  case (3 x y ys)
  then obtain n' where n: "n = Suc n'" "nodes x \<le> n'" "sum_list (map (\<lambda>x. Suc (nodes x)) (y # ys)) \<le> n'" by (cases n) auto
  let ?r = "js_join '','' (map json_stringify (y # ys)) @ CHR '']'' # rest"
  have "read_value n' (json_stringify x @ CHR '','' # ?r) = Some (x, CHR '','' # ?r)"
    using "3.prems"(3) n(2) by (simp add: closes_def)
  moreover have "read_items n' (acc @ [x]) ?r = Some (JArr ((acc @ [x]) @ y # ys), rest)"
    using "3.prems"(3) n(3) by (intro "3.IH"(2)) auto
  ultimately show ?case using n(1) by (simp add: skip_space_delimiter starts_def)
qed simp

definition member_text :: "string \<times> json \<Rightarrow> string" where
  "member_text = (\<lambda>(k, v). quoted k @ '':'' @ json_stringify v)"

lemma read_members_text:
  assumes "es \<noteq> []" "sum_list (map (\<lambda>(_, x). Suc (nodes x)) es) \<le> n"
    and "\<And>k x n rest. (k, x) \<in> set es \<Longrightarrow> closes rest \<Longrightarrow> nodes x \<le> n \<Longrightarrow> read_value n (json_stringify x @ rest) = Some (x, rest)"
  shows "read_members n acc (js_join '','' (map member_text es) @ CHR ''}'' # rest) = Some (JObj (acc @ es), rest)"
  using assms
proof (induction es arbitrary: n acc rule: induct_list012)
  case (2 e)
  obtain k x where e: "e = (k, x)" by (cases e)
  then obtain n' where n: "n = Suc n'" "nodes x \<le> n'" using 2(2) by (cases n) auto
  have "read_value n' (json_stringify x @ CHR ''}'' # rest) = Some (x, CHR ''}'' # rest)"
    using 2(3) [of k x] n(2) by (simp add: e closes_def)
  then show ?case
    using begins_simps(1) [OF quoted_begins] read_quoted [of k]
    by (simp add: n(1) e member_text_def skip_space_delimiter, simp add: quoted_def starts_def skip_space_delimiter)
next
  case (3 e f es)
  obtain k x where e: "e = (k, x)" by (cases e)
  then obtain n' where n: "n = Suc n'" "nodes x \<le> n'" "sum_list (map (\<lambda>(_, x). Suc (nodes x)) (f # es)) \<le> n'"
    using "3.prems"(2) by (cases n) auto
  let ?r = "js_join '','' (map member_text (f # es)) @ CHR ''}'' # rest"
  have "read_value n' (json_stringify x @ CHR '','' # ?r) = Some (x, CHR '','' # ?r)"
    using "3.prems"(3) [of k x] n(2) by (simp add: e closes_def)
  moreover have "read_members n' (acc @ [(k, x)]) ?r = Some (JObj ((acc @ [(k, x)]) @ f # es), rest)"
    using "3.prems"(3) n(3) by (intro "3.IH"(2)) auto
  ultimately show ?case
    using begins_simps(1) [OF quoted_begins] read_quoted [of k]
    by (simp add: n(1) e member_text_def skip_space_delimiter, simp add: quoted_def starts_def skip_space_delimiter)
qed simp

lemma stringify_object: "json_stringify (JObj es) = ''{'' @ js_join '','' (map member_text es) @ ''}''"
  by (simp add: member_text_def)

lemma read_word_append: "read_word w v (w @ rest) = Some (v, rest)"
  by (simp add: read_word_def)

lemma read_stringify:
  assumes "json_ok v" "closes rest" "nodes v \<le> n"
  shows "read_value n (json_stringify v @ rest) = Some (v, rest)"
  using assms
proof (induction v arbitrary: n rest)
  case (JNum r)
  then obtain n' where n: "n = Suc n'" by (cases n) auto
  obtain c cs where c: "number_text r @ rest = c # cs" "is_digit c \<or> c = CHR ''-''"
    using number_text_start [of r rest] JNum by auto
  moreover have "skip_space (number_text r @ rest) = number_text r @ rest"
    using begins_simps(1) [OF stringify_begins [OF JNum(1)]] by simp
  moreover have "c \<notin> {CHR 0x22, CHR ''['', CHR ''{'', CHR ''n'', CHR ''t'', CHR ''f''}"
    using c(2) by (auto simp: is_digit_def js_code_def)
  ultimately show ?case using read_number_text [of r rest] JNum by (simp add: n)
next
  case (JStr s)
  then obtain n' where n: "n = Suc n'" by (cases n) auto
  show ?case using begins_simps(1) [OF quoted_begins] read_quoted [of s rest] by (simp add: n, simp add: quoted_def)
next
  case (JArr xs)
  then obtain n' where n: "n = Suc n'" "sum_list (map (\<lambda>x. Suc (nodes x)) xs) \<le> n'" by (cases n) auto
  show ?case
  proof (cases "xs = []")
    case False
    have "begins (js_join '','' (map json_stringify xs) @ CHR '']'' # rest)"
    proof -
      obtain y ys where "xs = y # ys" using False by (cases xs) auto
      then show ?thesis using stringify_begins [of y] JArr.prems(1) by (cases ys) auto
    qed
    moreover have "read_items n' [] (js_join '','' (map json_stringify xs) @ CHR '']'' # rest) = Some (JArr ([] @ xs), rest)"
      using JArr False n(2) by (intro read_items_text) (auto simp: list_all_iff)
    ultimately show ?thesis using begins_simps by (simp add: n(1) skip_space_delimiter)
  qed (simp add: n(1) skip_space_delimiter starts_def)
next
  case (JObj es)
  then obtain n' where n: "n = Suc n'" "sum_list (map (\<lambda>(_, x). Suc (nodes x)) es) \<le> n'" by (cases n) auto
  show ?case
  proof (cases "es = []")
    case False
    have "begins (js_join '','' (map member_text es) @ CHR ''}'' # rest)"
    proof -
      obtain k y ys where "es = (k, y) # ys" using False by (cases es) auto
      then show ?thesis using quoted_begins by (cases ys) (auto simp: member_text_def)
    qed
    moreover have "read_members n' [] (js_join '','' (map member_text es) @ CHR ''}'' # rest) = Some (JObj ([] @ es), rest)"
      using JObj False n(2) by (intro read_members_text) (auto simp: list_all_iff)
    ultimately show ?thesis
      using begins_simps unfolding stringify_object by (simp add: n(1) skip_space_delimiter)
  qed (simp add: n(1) skip_space_delimiter starts_def)
next
  case JNull
  then obtain n' where "n = Suc n'" by (cases n) auto
  then show ?case using read_word_append [of "''null''" JNull rest] by (simp add: skip_space_def json_space_def js_code_def)
next
  case (JBool b)
  then obtain n' where "n = Suc n'" by (cases n) auto
  then show ?case
    using read_word_append [of "''true''" "JBool True" rest] read_word_append [of "''false''" "JBool False" rest]
    by (simp add: skip_space_def json_space_def js_code_def)
qed

lemma length_join: "length (js_join '','' ts) + 1 = sum_list (map (\<lambda>t. Suc (length t)) ts)" if "ts \<noteq> []"
  using that by (induction ts rule: induct_list012) auto

lemma sum_nodes_bound:
  assumes "\<And>x. x \<in> set xs \<Longrightarrow> f x \<le> 2 * g x"
  shows "sum_list (map (\<lambda>x. Suc (f x)) xs) \<le> 2 * sum_list (map (\<lambda>x. Suc (g x)) xs)"
  using assms
proof (induction xs)
  case (Cons x xs)
  have "f x \<le> 2 * g x" using Cons.prems by simp
  moreover have "sum_list (map (\<lambda>x. Suc (f x)) xs) \<le> 2 * sum_list (map (\<lambda>x. Suc (g x)) xs)" using Cons by simp
  ultimately show ?case by simp
qed simp

lemma nodes_bound: "json_ok v \<Longrightarrow> nodes v \<le> 2 * length (json_stringify v)"
proof (induction v)
  case (JNum r)
  then show ?case using number_text_start [of r "[]"] by (cases "number_text r") auto
next
  case (JArr xs)
  have "sum_list (map (\<lambda>x. Suc (nodes x)) xs) \<le> 2 * sum_list (map (\<lambda>x. Suc (length (json_stringify x))) xs)"
    using JArr by (intro sum_nodes_bound) (auto simp: list_all_iff)
  then show ?case using length_join [of "map json_stringify xs"] by (cases "xs = []") (auto simp: comp_def)
next
  case (JObj es)
  have "sum_list (map (\<lambda>e. Suc (nodes (snd e))) es) \<le> 2 * sum_list (map (\<lambda>e. Suc (length (member_text e))) es)"
  proof (rule sum_nodes_bound)
    fix e assume "e \<in> set es"
    then have "nodes (snd e) \<le> 2 * length (json_stringify (snd e))" using JObj by (auto simp: list_all_iff)
    then show "nodes (snd e) \<le> 2 * length (member_text e)" by (simp add: member_text_def case_prod_beta)
  qed
  moreover have "(\<Sum>(_, x)\<leftarrow>es. Suc (nodes x)) = (\<Sum>e\<leftarrow>es. Suc (nodes (snd e)))"
    by (rule arg_cong [where f = sum_list]) (auto simp: case_prod_beta)
  ultimately show ?case using length_join [of "map member_text es"]
    unfolding stringify_object by (cases "es = []") (auto simp: comp_def)
qed (auto simp: quoted_def)

lemma json_read_stringify:
  assumes "json_ok v"
  shows "json_read (json_stringify v) = Some v"
  using read_stringify [OF assms, of "[]" "2 * length (json_stringify v) + 2"] nodes_bound [OF assms]
  by (simp add: json_read_def closes_def skip_space_def)

section \<open>The canonical encoding is exact\<close>

text \<open>A value with the members of every object in the order of their keys.\<close>

fun canon :: "json \<Rightarrow> json" where
  "canon (JArr xs) = JArr (map canon xs)"
| "canon (JObj es) = JObj (sort_key fst (map (\<lambda>(k, v). (k, canon v)) es))"
| "canon v = v"

lemma sort_key_map: "sort_key f (map h xs) = map h (sort_key (\<lambda>x. f (h x)) xs)"
proof -
  have "insort_key f (h x) (map h ys) = map h (insort_key (\<lambda>x. f (h x)) x ys)" for x ys
    by (induction ys) auto
  then show ?thesis by (induction xs) simp_all
qed

lemma sort_entries: "sort_key fst (map (\<lambda>(k, v). (k, g k v)) es) = map (\<lambda>(k, v). (k, g k v)) (sort_key fst es)"
  using sort_key_map [of fst "\<lambda>(k, v). (k, g k v)" es] by (simp add: case_prod_beta)

lemma all_texts_Inr: "all_texts ts = Inr ss \<longleftrightarrow> ts = map Inr ss"
proof (induction ts arbitrary: ss)
  case (Cons t ts)
  show ?case
  proof (cases "all_texts ts")
    case (Inl e)
    then show ?thesis using Cons [of "tl ss"] by (cases t; cases ss) auto
  next
    case (Inr us)
    then show ?thesis using Cons [of us] by (cases t; cases ss) (auto simp: inj_map_eq_map inj_on_def)
  qed
qed auto

lemma map_sum_Inr: "map_sum id f x = Inr y \<longleftrightarrow> (\<exists>z. x = Inr z \<and> y = f z)"
  by (cases x) auto

lemma number_text_int:
  assumes "\<bar>z\<bar> \<le> MAX_SAFE_INTEGER"
  shows "number_text (of_int z) = int_text z"
proof -
  have "nat \<bar>z\<bar> < 10 ^ 21" using assms by (simp add: MAX_SAFE_INTEGER_def)
  then have "length (digits (nat \<bar>z\<bar>)) \<le> 21" by (rule length_digits_le) simp
  moreover have "decimal_places (of_int z) = 0" by (rule decimal_places_Int) simp
  moreover have "\<lfloor>\<bar>rat_of_int z\<bar>\<rfloor> = \<bar>z\<bar>" by (metis floor_of_int of_int_abs)
  ultimately show ?thesis by (simp add: number_text_def Let_def plain_text_def int_text_def)
qed

lemma canonicalNumber_text:
  assumes "canonicalNumber r = Inr t"
  shows "t = number_text r"
proof (cases "snd (quotient_of r) = 1")
  case True
  then have "r = of_int (fst (quotient_of r))"
    using quotient_of_div [of r "fst (quotient_of r)" 1] by (metis div_by_1 of_int_1 prod.collapse)
  then have "t = int_text (fst (quotient_of r))" "number_text r = int_text (fst (quotient_of r))"
    using assms True number_text_int [of "fst (quotient_of r)"] by (auto simp: canonicalNumber_def split: if_splits)
  then show ?thesis by simp
qed (use assms in \<open>auto simp: canonicalNumber_def split: if_splits\<close>)

lemma canonical_text:
  assumes "canonicalJson v = Inr t"
  shows "t = json_stringify (canon v)"
  using assms
proof (induction v arbitrary: t)
  case (JNum r)
  then show ?case by (simp add: canonicalNumber_text)
next
  case (JArr xs)
  then obtain ts where ts: "map canonicalJson xs = map Inr ts" "t = ''['' @ js_join '','' ts @ '']''"
    by (auto simp: map_sum_Inr all_texts_Inr)
  have "ts = map (\<lambda>x. json_stringify (canon x)) xs"
  proof (rule nth_equalityI)
    show "length ts = length (map (\<lambda>x. json_stringify (canon x)) xs)" using ts(1) by (metis length_map)
    fix i assume "i < length ts"
    then have "i < length xs" "canonicalJson (xs ! i) = Inr (ts ! i)" using ts(1) by (metis length_map, metis length_map nth_map)
    then show "ts ! i = map (\<lambda>x. json_stringify (canon x)) xs ! i" using JArr.IH by simp
  qed
  then show ?case using ts(2) by (simp add: comp_def)
next
  case (JObj es)
  let ?es = "sort_key fst es"
  have "List.find (\<lambda>(k, _). \<not> printable_key k) es = None" using JObj.prems by (auto split: option.splits)
  then obtain ts where ts: "map (\<lambda>(k, v). map_sum id (\<lambda>t. quoted k @ '':'' @ t) (canonicalJson v)) ?es = map Inr ts"
    "t = ''{'' @ js_join '','' ts @ ''}''"
  proof -
    have "map_sum id (\<lambda>ts. ''{'' @ js_join '','' ts @ ''}'')
        (all_texts (map (\<lambda>(k, v). map_sum id (\<lambda>t. quoted k @ '':'' @ t) (canonicalJson v)) ?es)) = Inr t"
      using JObj.prems \<open>List.find _ es = None\<close> sort_key_map [of fst "\<lambda>x. (fst x, map_sum id (\<lambda>t. quoted (fst x) @ CHR '':'' # t) (canonicalJson (snd x)))" es]
      by (simp add: comp_def case_prod_beta')
    then show ?thesis using that by (auto simp: map_sum_Inr all_texts_Inr)
  qed
  have "ts = map (\<lambda>(k, v). quoted k @ '':'' @ json_stringify (canon v)) ?es"
  proof (rule nth_equalityI)
    show len: "length ts = length (map (\<lambda>(k, v). quoted k @ '':'' @ json_stringify (canon v)) ?es)" using ts(1) by (metis length_map)
    fix i assume i: "i < length ts"
    obtain k v where e: "?es ! i = (k, v)" by (cases "?es ! i")
    have mem: "(k, v) \<in> set es" using i len e by (metis length_map nth_mem set_sort)
    have "map_sum id (\<lambda>t. quoted k @ '':'' @ t) (canonicalJson v) = Inr (ts ! i)"
      using arg_cong [OF ts(1), of "\<lambda>l. l ! i"] i len e by simp
    then show "ts ! i = map (\<lambda>(k, v). quoted k @ '':'' @ json_stringify (canon v)) ?es ! i"
      using JObj.IH [of "(k, v)" v] mem i len e by (auto simp: map_sum_Inr)
  qed
  then show ?case using ts(2) sort_key_map [of fst "\<lambda>x. (fst x, canon (snd x))" es] by (simp add: comp_def case_prod_beta')
qed auto

lemma json_ok_canon: "json_ok v \<Longrightarrow> json_ok (canon v)"
  by (induction v) (fastforce simp: list_all_iff)+

text \<open>Claim C22. The canonical encoding loses nothing: reading the canonical text of a value gives
  the value back, with the members of its objects in the order of their keys. Two values with
  the same text, so with the same digest input, are therefore equal up to the order of members.\<close>

theorem canonical_json_roundtrip:
  assumes "canonicalJson v = Inr t" "json_ok v"
  shows "json_read t = Some (canon v)"
  using canonical_text [OF assms(1)] json_read_stringify [OF json_ok_canon [OF assms(2)]] by simp

lemma sort_key_perm:
  assumes "mset xs = mset ys" "distinct (map f xs)"
  shows "sort_key f xs = sort_key f ys"
  using assms by (intro sort_key_inj_key_eq) (auto simp: distinct_map)

text \<open>Member order never matters: an object has the same canonical text whatever the order
  of its members.\<close>

theorem canonical_json_order_free:
  assumes "canonicalJson (JObj es) = Inr t" "mset es' = mset es" "distinct (map fst es)"
  shows "canonicalJson (JObj es') = Inr t"
proof -
  have none: "List.find (\<lambda>(k, _). \<not> printable_key k) es = None" using assms(1) by (auto split: option.splits)
  then have "List.find (\<lambda>(k, _). \<not> printable_key k) es' = None"
    using mset_eq_setD [OF assms(2)] by (auto simp: find_None_iff)
  moreover have "sort_key fst es' = sort_key fst es"
    using sort_key_perm [OF assms(2) [symmetric] assms(3)] by simp
  ultimately show ?thesis using assms(1) none by (simp add: sort_entries)
qed

definition sample_json :: json where
  "sample_json = JObj [(''b'', JArr [JNum (7 / 10), JNum (- 12), JStr [CHR 0x22, CHR 0x0A]]), (''a'', JBool True), (''10'', JNull)]"

lemma sample_json_text: "canonicalJson sample_json = Inr (projr (canonicalJson sample_json))"
  by code_simp

lemma sample_json_ok: "json_ok sample_json"
proof -
  have "\<exists>k<344. (7 / 10 :: rat) * 10 ^ k \<in> \<int>" by (rule exI [of _ 1]) simp
  moreover have "\<exists>k<344. (- 12 :: rat) * 10 ^ k \<in> \<int>" by (rule exI [of _ 0]) simp
  ultimately have "num_ok (7 / 10)" "num_ok (- 12)" by (simp_all add: num_ok_def)
  then show ?thesis by (simp add: sample_json_def)
qed

theorem canonical_json_roundtrip_witness:
  "json_read (projr (canonicalJson sample_json)) = Some (canon sample_json)"
  by (rule canonical_json_roundtrip [OF sample_json_text sample_json_ok])

theorem canonical_json_order_free_witness:
  "canonicalJson (JObj [(''b'', JNull), (''a'', JNum 1)]) = Inr (projr (canonicalJson (JObj [(''a'', JNum 1), (''b'', JNull)])))"
proof (rule canonical_json_order_free)
  show "canonicalJson (JObj [(''a'', JNum 1), (''b'', JNull)]) = Inr (projr (canonicalJson (JObj [(''a'', JNum 1), (''b'', JNull)])))"
    by code_simp
qed simp_all

end
