(* ===== verification/Policy_Parameters.thy ===== *)
theory Policy_Parameters
  imports Json_Text
begin

text \<open>
  Authored Policies: the parameters a Guardrail supplies to a Policy definition
  (\<^verbatim>\<open>controller/shared/policy-parameters.ts\<close>, \<^verbatim>\<open>controller/shared/topic-policy.ts\<close>) and
  the issues that keep a definition from being published
  (\<^verbatim>\<open>controller/shared/policy-definition.ts\<close>).

  A detector's parameters are JSON data by name; a missing entry is \<open>undefined\<close>. Records from
  string to string are association lists of which the first entry of a key counts. The two
  schemas the checks call, of candidate validators and of the definition itself, are the schema
  library's; the first is an argument.
\<close>

section \<open>Conversions of the language\<close>

fun js_String :: "json \<Rightarrow> string" where
  "js_String JNull = ''null''"
| "js_String (JBool b) = (if b then ''true'' else ''false'')"
| "js_String (JNum r) = number_text r"
| "js_String (JStr s) = s"
| "js_String (JArr xs) = js_join '','' (map (\<lambda>x. case x of JNull \<Rightarrow> [] | _ \<Rightarrow> js_String x) xs)"
| "js_String (JObj es) = ''[object Object]''"

text \<open>\<open>Number(text)\<close> when it is finite: white space around is ignored, no text is zero; a decimal
  literal with an optional sign, or a hexadecimal, octal or binary one. Magnitudes that round to
  infinity are not finite.\<close>

definition radix_value :: "nat \<Rightarrow> string \<Rightarrow> rat option" where
  "radix_value base ds = (case those (map hex_value ds) of
     None \<Rightarrow> None
   | Some vs \<Rightarrow> if vs \<noteq> [] \<and> list_all (\<lambda>v. v < base) vs then Some (of_nat (foldl (\<lambda>a v. base * a + v) 0 vs)) else None)"

definition decimal_literal :: "string \<Rightarrow> rat option" where
  "decimal_literal s = (let ds = takeWhile is_digit s; r = dropWhile is_digit s;
       fs = (if starts CHR ''.'' r then takeWhile is_digit (tl r) else []);
       r' = (if starts CHR ''.'' r then dropWhile is_digit (tl r) else r)
     in if ds = [] \<and> fs = [] then None
        else (case read_exponent r' of
            Some (e, []) \<Rightarrow> Some (of_nat (digits_value (ds @ fs)) / 10 ^ length fs *
               (if e < 0 then 1 / 10 ^ nat (- e) else 10 ^ nat e))
          | _ \<Rightarrow> None))"

definition finite_number :: "rat option \<Rightarrow> rat option" where
  "finite_number r = (case r of Some x \<Rightarrow> if \<bar>x\<bar> < 2 ^ 1024 - 2 ^ 970 then Some x else None | None \<Rightarrow> None)"

definition number_of_string :: "string \<Rightarrow> rat option" where
  "number_of_string text = (let s = js_trim text in
     if s = [] then Some 0
     else finite_number
       (if starts CHR ''+'' s then decimal_literal (tl s)
        else if starts CHR ''-'' s then map_option uminus (decimal_literal (tl s))
        else if starts CHR ''0'' s \<and> length s > 1 \<and> js_lower_char (s ! 1) = CHR ''x'' then radix_value 16 (drop 2 s)
        else if starts CHR ''0'' s \<and> length s > 1 \<and> js_lower_char (s ! 1) = CHR ''o'' then radix_value 8 (drop 2 s)
        else if starts CHR ''0'' s \<and> length s > 1 \<and> js_lower_char (s ! 1) = CHR ''b'' then radix_value 2 (drop 2 s)
        else decimal_literal s))"

fun js_Number :: "json \<Rightarrow> rat option" where
  "js_Number JNull = Some 0"
| "js_Number (JBool b) = Some (if b then 1 else 0)"
| "js_Number (JNum r) = Some r"
| "js_Number (JStr s) = number_of_string s"
| "js_Number (JArr xs) = number_of_string (js_String (JArr xs))"
| "js_Number (JObj es) = None"

section \<open>Definitions\<close>

record Detector =
  dt_ref :: string
  dt_version :: string
  dt_parameters :: "(string \<times> json) list"

record DefinitionRule =
  ru_id :: string
  ru_version :: string
  ru_name :: string
  ru_description :: string
  ru_stages :: "string list"
  ru_detector :: Detector
  ru_action :: string
  ru_replacement :: "string option"
  ru_expand :: "string option"

record PolicyParameter =
  pp_name :: string
  pp_label :: string
  pp_kind :: string
  pp_required :: bool
  pp_default :: "string option"

record TestContext =
  tc_query :: string
  tc_grounding_sources :: "string list"
  tc_expected_reasoning_result :: "string option"

record DefinitionTest =
  te_id :: string
  te_name :: string
  te_phase :: string
  te_content :: string
  te_expected_decision :: string
  te_covered_rule_ids :: "string list"
  te_kind :: string
  te_scope :: string
  te_required :: bool
  te_expected_text :: "string option"
  te_expected_matched_rules :: "string list option"
  te_context :: "TestContext option"

record PolicyDefinition =
  de_parameters :: "PolicyParameter list"
  de_rules :: "DefinitionRule list"
  de_tests :: "DefinitionTest list"
  de_testing :: "(string \<times> string) list option"

abbreviation rule_ref :: "DefinitionRule \<Rightarrow> string" where
  "rule_ref r \<equiv> dt_ref (ru_detector r)"

abbreviation rule_params :: "DefinitionRule \<Rightarrow> (string \<times> json) list" where
  "rule_params r \<equiv> dt_parameters (ru_detector r)"

definition rule_param :: "DefinitionRule \<Rightarrow> string \<Rightarrow> json option" where
  "rule_param r key = map_of (rule_params r) key"

definition rule_label :: "DefinitionRule \<Rightarrow> string" where
  "rule_label r = (if ru_name r \<noteq> [] then ru_name r else ru_id r)"

section \<open>References\<close>

definition word_char :: "char \<Rightarrow> bool" where
  "word_char c = (let n = js_code c in (48 \<le> n \<and> n \<le> 57) \<or> (65 \<le> n \<and> n \<le> 90) \<or> (97 \<le> n \<and> n \<le> 122) \<or> n = 95)"

definition parameterNamePattern :: "string \<Rightarrow> bool" where
  "parameterNamePattern s = (s \<noteq> [] \<and> list_all word_char s \<and> \<not> is_digit (hd s))"

definition parameterReference :: "string \<Rightarrow> string" where
  "parameterReference name = ''{{'' @ name @ ''}}''"

text \<open>A reference at the start of a text: its name and the text after it.\<close>

definition match_reference :: "string \<Rightarrow> (string \<times> string) option" where
  "match_reference s = (if prefix ''{{'' s \<and> parameterNamePattern (takeWhile word_char (drop 2 s))
       \<and> prefix ''}}'' (dropWhile word_char (drop 2 s))
     then Some (takeWhile word_char (drop 2 s), drop 2 (dropWhile word_char (drop 2 s))) else None)"

datatype piece = Char char | Reference string

lemma match_reference_shorter:
  assumes "match_reference s = Some (name, r)"
  shows "length r < length s"
proof -
  have "prefix ''{{'' s" "r = drop 2 (dropWhile word_char (drop 2 s))"
    using assms by (auto simp: match_reference_def split: if_splits)
  moreover have "length (dropWhile word_char (drop 2 s)) \<le> length s - 2"
    using length_dropWhile_le [of word_char "drop 2 s"] by simp
  ultimately show ?thesis using prefix_length_le [of "''{{''" s] by auto
qed

text \<open>A text, cut from left to right into the references of the pattern and single characters.\<close>

function pieces :: "string \<Rightarrow> piece list" where
  "pieces [] = []"
| "pieces (c # cs) = (case match_reference (c # cs) of
     Some (name, r) \<Rightarrow> Reference name # pieces r
   | None \<Rightarrow> Char c # pieces cs)"
  by pat_completeness auto

termination
  by (relation "measure length") (auto dest: match_reference_shorter)

declare pieces.simps(2) [simp del]

definition reference_names :: "string \<Rightarrow> string list" where
  "reference_names s = concat (map (\<lambda>p. case p of Reference name \<Rightarrow> [name] | Char _ \<Rightarrow> []) (pieces s))"

definition parameterReferences :: "json option \<Rightarrow> string list" where
  "parameterReferences value = (case value of Some (JStr s) \<Rightarrow> reference_names s | _ \<Rightarrow> [])"

definition parameterReferenceName :: "json \<Rightarrow> string option" where
  "parameterReferenceName value = (case value of
     JStr s \<Rightarrow> (case match_reference s of Some (name, []) \<Rightarrow> Some name | _ \<Rightarrow> None)
   | _ \<Rightarrow> None)"

text \<open>\<open>value.replace(referencePattern, f)\<close>; a replacement that throws ends it.\<close>

fun replace_references :: "(string \<Rightarrow> thrown + string) \<Rightarrow> piece list \<Rightarrow> thrown + string" where
  "replace_references f [] = Inr []"
| "replace_references f (Char c # ps) = map_sum id (Cons c) (replace_references f ps)"
| "replace_references f (Reference name # ps) = and_then (f name) (\<lambda>t. map_sum id (append t) (replace_references f ps))"

definition without_references :: "string \<Rightarrow> string" where
  "without_references s = concat (map (\<lambda>p. case p of Reference _ \<Rightarrow> [] | Char c \<Rightarrow> [c]) (pieces s))"

section \<open>Fields of model detectors\<close>

datatype FieldKind = TextField | TextArea | NumberField

record ModelParameterField =
  mf_key :: string
  mf_name :: string
  mf_kind :: FieldKind
  mf_default :: "string option"
  mf_required :: bool

definition model_field :: "string \<Rightarrow> string \<Rightarrow> FieldKind \<Rightarrow> string option \<Rightarrow> bool \<Rightarrow> ModelParameterField" where
  "model_field key name kind dflt required =
     \<lparr>mf_key = key, mf_name = name, mf_kind = kind, mf_default = dflt, mf_required = required\<rparr>"

definition unknown_fields :: "ModelParameterField list" where
  "unknown_fields = [model_field ''on_unknown'' ''on_unknown'' TextField (Some ''block'') False,
     model_field ''review_unknown'' ''review_unknown'' TextField (Some ''false'') False]"

definition topic_fields :: "ModelParameterField list" where
  "topic_fields = [model_field ''topic_mode'' ''topic_mode'' TextField (Some ''permissive'') True,
     model_field ''allowed_topics'' ''allowed_topics'' TextArea None False,
     model_field ''restricted_topics'' ''denied_topics'' TextArea None False] @ unknown_fields"

definition threshold_fields :: "ModelParameterField list" where
  "threshold_fields = map (\<lambda>key. model_field key key NumberField (Some ''0.7'') True) [''grounding_threshold'', ''relevance_threshold'']"

definition formal_fields :: "ModelParameterField list" where
  "formal_fields = [model_field ''policy_id'' ''formal_policy_id'' TextField None True,
     model_field ''policy_version'' ''formal_policy_version'' TextField None True,
     model_field ''confidence_threshold'' ''confidence_threshold'' NumberField (Some ''0.8'') True]"

text \<open>\<open>String(rule.detector.parameters.profile)\<close>\<close>

definition profile_text :: "DefinitionRule \<Rightarrow> string" where
  "profile_text rule = (case rule_param rule ''profile'' of None \<Rightarrow> ''undefined'' | Some v \<Rightarrow> js_String v)"

definition is_topic_rule :: "DefinitionRule \<Rightarrow> bool" where
  "is_topic_rule rule = (rule_ref rule = ''model/classifier'' \<and> rule_param rule ''profile'' = Some (JStr ''topic-classification''))"

definition modelParameterFields :: "DefinitionRule \<Rightarrow> ModelParameterField list" where
  "modelParameterFields rule =
     (if is_topic_rule rule then topic_fields
      else if rule_ref rule = ''model/classifier'' \<and> profile_text rule \<in> {''jailbreak-classification'', ''safety-classification''}
      then unknown_fields
      else if rule_ref rule = ''model/grounding'' then threshold_fields
      else if rule_ref rule = ''service/formal-verification'' then formal_fields
      else [])"

section \<open>Declarations\<close>

definition issue_if :: "bool \<Rightarrow> string \<Rightarrow> string list" where
  "issue_if b message = (if b then [message] else [])"

definition in_rule :: "DefinitionRule \<Rightarrow> string \<Rightarrow> string" where
  "in_rule rule message = ''Rule '' @ rule_label rule @ '': '' @ message"

text \<open>A classifier option that takes one of two words, or a reference.\<close>

definition option_issues :: "DefinitionRule \<Rightarrow> string \<Rightarrow> string \<Rightarrow> string \<Rightarrow> string list" where
  "option_issues rule key word1 word2 = (case rule_param rule key of
     None \<Rightarrow> []
   | Some value \<Rightarrow>
       if \<not> list_ex (\<lambda>f. mf_key f = key) (modelParameterFields rule)
       then [in_rule rule (key @ '' is supported only by the jailbreak, content safety and topic classifiers.'')]
       else issue_if (parameterReferences (Some value) = [] \<and> js_String value \<notin> {word1, word2})
         (in_rule rule (key @ '' must be '' @ word1 @ '' or '' @ word2 @ ''.'')))"

definition reference_issues :: "PolicyDefinition \<Rightarrow> DefinitionRule \<Rightarrow> string \<Rightarrow> string \<Rightarrow> string \<Rightarrow> string list" where
  "reference_issues definition rule key value name =
     (let declared = List.find (\<lambda>p. pp_name p = name) (de_parameters definition);
          field = List.find (\<lambda>f. mf_key f = key) (modelParameterFields rule)
      in issue_if (field = None) (in_rule rule (key @ '' cannot reference a Guardrail parameter.'')) @
         (case declared of
            None \<Rightarrow> [in_rule rule (''parameter '' @ name @ '' is not declared.'')]
          | Some p \<Rightarrow>
              if pp_kind p = ''secret''
              then [in_rule rule (''model configuration cannot reference secret parameter '' @ name @ ''.'')]
              else issue_if (case field of None \<Rightarrow> False | Some f \<Rightarrow>
                  if mf_kind f = NumberField then pp_kind p \<noteq> ''number'' else pp_kind p \<notin> {''text'', ''textarea''})
                (in_rule rule (''parameter '' @ name @ '' has an incompatible type for '' @ key @ ''.''))) @
         issue_if ((case field of None \<Rightarrow> False | Some f \<Rightarrow> mf_kind f = NumberField) \<and> parameterReferenceName (JStr value) = None)
           (in_rule rule (key @ '' requires a single number parameter reference.'')))"

definition entry_issues :: "PolicyDefinition \<Rightarrow> DefinitionRule \<Rightarrow> string \<times> json \<Rightarrow> string list" where
  "entry_issues definition rule = (\<lambda>(key, value). case value of
     JStr s \<Rightarrow>
       issue_if (js_includes (without_references s) ''{{'' \<or> js_includes (without_references s) ''}}'')
         (in_rule rule (''invalid parameter reference in '' @ key @ ''. Use {{parameter_name}}.'')) @
       concat (map (reference_issues definition rule key s) (reference_names s))
   | _ \<Rightarrow> [])"

definition rule_declaration_issues :: "PolicyDefinition \<Rightarrow> DefinitionRule \<Rightarrow> string list" where
  "rule_declaration_issues definition rule =
     (if \<not> js_startsWith (rule_ref rule) ''model/'' \<and> \<not> js_startsWith (rule_ref rule) ''service/'' then []
      else option_issues rule ''on_unknown'' ''allow'' ''block'' @ option_issues rule ''review_unknown'' ''true'' ''false'' @
        concat (map (entry_issues definition rule) (rule_params rule)))"

definition modelParameterDeclarationIssues :: "PolicyDefinition \<Rightarrow> string list" where
  "modelParameterDeclarationIssues definition =
     issue_if (\<not> distinct (map pp_name (de_parameters definition))) ''Parameter names must be unique.'' @
     concat (map (\<lambda>p. issue_if (\<not> parameterNamePattern (pp_name p)) (''Parameter '' @ pp_name p @
       '': use letters, numbers and underscores, starting with a letter or underscore.'')) (de_parameters definition)) @
     concat (map (rule_declaration_issues definition) (de_rules definition))"

section \<open>Values\<close>

definition policyParameterValues :: "PolicyDefinition \<Rightarrow> (string \<times> string) list \<Rightarrow> (string \<times> string) list" where
  "policyParameterValues definition values = values @
     rev (concat (map (\<lambda>p. case pp_default p of None \<Rightarrow> [] | Some d \<Rightarrow> [(pp_name p, d)]) (de_parameters definition)))"

fun visited_names :: "json \<Rightarrow> string list" where
  "visited_names (JStr s) = reference_names s"
| "visited_names (JArr xs) = concat (map visited_names xs)"
| "visited_names (JObj es) = (case map_of es ''parameter'' of Some (JStr name) \<Rightarrow> [name] | _ \<Rightarrow> []) @
     concat (map (\<lambda>(_, v). visited_names v) es)"
| "visited_names _ = []"

definition ruleParameterNames :: "DefinitionRule \<Rightarrow> string list" where
  "ruleParameterNames rule = js_unique (visited_names (JObj (rule_params rule)) @
     (case ru_expand rule of Some p \<Rightarrow> if p \<noteq> [] then [p] else [] | None \<Rightarrow> []) @
     (if is_topic_rule rule then [''topic_mode'', ''allowed_topics'', ''denied_topics''] else []))"

definition rule_active :: "string list \<Rightarrow> string list \<Rightarrow> DefinitionRule \<Rightarrow> bool" where
  "rule_active enabledRuleIds rails r = (ru_id r \<in> set enabledRuleIds \<and>
     (rails = [] \<or> list_ex (\<lambda>s. s \<in> set rails) (ru_stages r)))"

definition activePolicyParameters :: "PolicyDefinition \<Rightarrow> string list \<Rightarrow> string list \<Rightarrow> PolicyParameter list" where
  "activePolicyParameters definition enabledRuleIds rails =
     (let used = concat (map ruleParameterNames (de_rules definition));
          active = concat (map ruleParameterNames (filter (rule_active enabledRuleIds rails) (de_rules definition)))
      in filter (\<lambda>p. pp_name p \<notin> set used \<or> pp_name p \<in> set active) (de_parameters definition))"

text \<open>Assignment to a property: in place when it exists, otherwise last.\<close>

fun put :: "string \<Rightarrow> json \<Rightarrow> (string \<times> json) list \<Rightarrow> (string \<times> json) list" where
  "put key v [] = [(key, v)]"
| "put key v ((k, w) # es) = (if k = key then (k, v) # es else (k, w) # put key v es)"

definition supplied :: "PolicyDefinition \<Rightarrow> DefinitionRule \<Rightarrow> (string \<times> string) list \<Rightarrow> string \<Rightarrow> thrown + string" where
  "supplied definition rule parameters name =
     (if \<not> list_ex (\<lambda>p. pp_name p = name) (de_parameters definition)
      then Inl (JsError (in_rule rule (''parameter '' @ name @ '' is not declared.'')))
      else Inr (case map_of parameters name of Some v \<Rightarrow> v | None \<Rightarrow> []))"

definition resolve_field ::
  "PolicyDefinition \<Rightarrow> DefinitionRule \<Rightarrow> (string \<times> string) list \<Rightarrow> ModelParameterField \<Rightarrow> (string \<times> json) list
   \<Rightarrow> thrown + (string \<times> json) list" where
  "resolve_field definition rule parameters field resolved = (case map_of resolved (mf_key field) of
     Some (JStr s) \<Rightarrow> map_sum id (\<lambda>t. put (mf_key field) (JStr t) resolved)
       (replace_references (supplied definition rule parameters) (pieces s))
   | _ \<Rightarrow> Inr resolved)"

fun resolve_fields ::
  "PolicyDefinition \<Rightarrow> DefinitionRule \<Rightarrow> (string \<times> string) list \<Rightarrow> ModelParameterField list \<Rightarrow> (string \<times> json) list
   \<Rightarrow> thrown + (string \<times> json) list" where
  "resolve_fields definition rule parameters [] resolved = Inr resolved"
| "resolve_fields definition rule parameters (f # fs) resolved =
     and_then (resolve_field definition rule parameters f resolved) (resolve_fields definition rule parameters fs)"

definition resolveModelRuleParameters ::
  "PolicyDefinition \<Rightarrow> DefinitionRule \<Rightarrow> (string \<times> string) list \<Rightarrow> thrown + (string \<times> json) list" where
  "resolveModelRuleParameters definition rule values =
     resolve_fields definition rule (policyParameterValues definition values) (modelParameterFields rule) (rule_params rule)"

section \<open>Bindings\<close>

text \<open>A value, or the field's default when it is null or missing.\<close>

definition json_or :: "json option \<Rightarrow> json option \<Rightarrow> json option" where
  "json_or v d = (case v of Some JNull \<Rightarrow> d | None \<Rightarrow> d | _ \<Rightarrow> v)"

definition text_or :: "json option \<Rightarrow> string \<Rightarrow> string" where
  "text_or v d = (case json_or v None of Some x \<Rightarrow> js_String x | None \<Rightarrow> d)"

definition blank :: "string \<Rightarrow> bool" where
  "blank s = (js_trim s = [])"

definition unit_interval :: "json option \<Rightarrow> bool" where
  "unit_interval v = (case v of None \<Rightarrow> False | Some JNull \<Rightarrow> False
   | Some x \<Rightarrow> \<not> blank (js_String x) \<and> (case js_Number x of Some r \<Rightarrow> 0 \<le> r \<and> r \<le> 1 | None \<Rightarrow> False))"

definition parameter_issues :: "(string \<times> string) list \<Rightarrow> PolicyParameter \<Rightarrow> string list" where
  "parameter_issues parameters p =
     (let value = (case map_of parameters (pp_name p) of Some v \<Rightarrow> v | None \<Rightarrow> []);
          label = (if pp_label p \<noteq> [] then pp_label p else pp_name p)
      in issue_if (pp_required p \<and> blank value) (''Provide '' @ label @ ''.'') @
         issue_if (pp_kind p = ''number'' \<and> \<not> blank value \<and> number_of_string value = None) (label @ '' must be a number.''))"

definition field_issues :: "DefinitionRule \<Rightarrow> (string \<times> json) list \<Rightarrow> ModelParameterField \<Rightarrow> string list" where
  "field_issues rule params f =
     issue_if (mf_kind f = NumberField \<and> \<not> unit_interval (json_or (map_of params (mf_key f)) (map_option JStr (mf_default f))))
       (in_rule rule (mf_key f @ '' must be between 0 and 1.''))"

definition word_issues :: "DefinitionRule \<Rightarrow> (string \<times> json) list \<Rightarrow> string \<Rightarrow> string \<Rightarrow> string \<Rightarrow> string \<Rightarrow> string list" where
  "word_issues rule params key dflt word1 word2 =
     issue_if (list_ex (\<lambda>f. mf_key f = key) (modelParameterFields rule) \<and> text_or (map_of params key) dflt \<notin> {word1, word2})
       (in_rule rule (key @ '' must be '' @ word1 @ '' or '' @ word2 @ ''.''))"

definition topic_issues :: "DefinitionRule \<Rightarrow> (string \<times> json) list \<Rightarrow> string list" where
  "topic_issues rule params =
     (if rule_param rule ''profile'' = Some (JStr ''topic-classification'')
      then issue_if (text_or (map_of params ''topic_mode'') ''permissive'' \<notin> {''strict'', ''permissive''})
             (in_rule rule ''topic_mode must be strict or permissive.'') @
           issue_if (map_of params ''topic_mode'' = Some (JStr ''strict'') \<and> blank (text_or (map_of params ''allowed_topics'') []))
             (in_rule rule ''strict mode requires allowed topics.'')
      else [])"

definition formal_issues :: "DefinitionRule \<Rightarrow> (string \<times> json) list \<Rightarrow> (string \<times> string) option \<Rightarrow> string list" where
  "formal_issues rule params formalPolicy =
     (if rule_ref rule = ''service/formal-verification'' \<and> map_of params ''policy_snapshot_id'' = None
      then let fallback = (if map_of params ''policy_id'' = None \<and> map_of params ''policy_version'' = None then formalPolicy else None)
           in issue_if (blank (text_or (json_or (map_of params ''policy_id'') (map_option (JStr \<circ> fst) fallback)) []))
                (in_rule rule ''provide policy_id.'') @
              issue_if (blank (text_or (json_or (map_of params ''policy_version'') (map_option (JStr \<circ> snd) fallback)) []))
                (in_rule rule ''provide policy_version.'')
      else [])"

definition error_text :: "thrown \<Rightarrow> string" where
  "error_text e = (case e of JsError m \<Rightarrow> ''Error: '' @ m | ControllerError m _ _ _ \<Rightarrow> ''Error: '' @ m | ZodError \<Rightarrow> ''ZodError'')"

definition binding_rule_issues ::
  "PolicyDefinition \<Rightarrow> (string \<times> string) list \<Rightarrow> (string \<times> string) option \<Rightarrow> DefinitionRule \<Rightarrow> string list" where
  "binding_rule_issues definition values formalPolicy rule =
     (if modelParameterFields rule = [] then []
      else case resolveModelRuleParameters definition rule values of
          Inl e \<Rightarrow> [error_text e]
        | Inr params \<Rightarrow>
            concat (map (field_issues rule params) (modelParameterFields rule)) @
            word_issues rule params ''on_unknown'' ''block'' ''allow'' ''block'' @
            word_issues rule params ''review_unknown'' ''false'' ''true'' ''false'' @
            topic_issues rule params @ formal_issues rule params formalPolicy)"

definition policyBindingParameterIssues ::
  "PolicyDefinition \<Rightarrow> (string \<times> string) list \<Rightarrow> string list \<Rightarrow> string list \<Rightarrow> (string \<times> string) option \<Rightarrow> string list" where
  "policyBindingParameterIssues definition values enabledRuleIds rails formalPolicy = js_unique
     (modelParameterDeclarationIssues definition @
      concat (map (parameter_issues (policyParameterValues definition values))
        (activePolicyParameters definition enabledRuleIds rails)) @
      concat (map (binding_rule_issues definition values formalPolicy)
        (filter (rule_active enabledRuleIds rails) (de_rules definition))))"

section \<open>Topic lists\<close>

definition TOPIC_POLICY_ID :: string where "TOPIC_POLICY_ID = ''business-topics''"
definition TOPIC_POLICY_VERSION :: string where "TOPIC_POLICY_VERSION = ''1.0.0''"
definition TOPIC_ALLOW_RULE :: string where "TOPIC_ALLOW_RULE = ''topic/allowlist''"
definition TOPIC_DENY_RULE :: string where "TOPIC_DENY_RULE = ''topic/denylist''"

definition isSplitTopicPolicy :: "string \<Rightarrow> string \<Rightarrow> bool" where
  "isSplitTopicPolicy i version = (i = TOPIC_POLICY_ID \<and> version = TOPIC_POLICY_VERSION)"

definition hasTopicRules :: "string list \<Rightarrow> bool" where
  "hasTopicRules ruleIds = list_ex (\<lambda>i. i = TOPIC_DENY_RULE \<or> i = TOPIC_ALLOW_RULE) ruleIds"

definition topicLines :: "string \<Rightarrow> string list" where
  "topicLines value = filter (\<lambda>s. s \<noteq> []) (map js_trim (js_split (CHR 0x0A) value))"

record TopicValues =
  tv_allowed :: string
  tv_denied :: string
  tv_mode :: string

definition topicPolicyValues :: "(string \<times> string) list \<Rightarrow> TopicValues" where
  "topicPolicyValues parameters =
     \<lparr>tv_allowed = (case map_of parameters ''allowed_topics'' of Some v \<Rightarrow> v | None \<Rightarrow> []),
      tv_denied = (case map_of parameters ''denied_topics'' of Some v \<Rightarrow> v | None \<Rightarrow> []),
      tv_mode = (if map_of parameters ''topic_mode'' = Some ''strict'' then ''strict'' else ''permissive'')\<rparr>"

definition topicMissingParameters :: "(string \<times> string) list \<Rightarrow> string list \<Rightarrow> string list" where
  "topicMissingParameters parameters enabled =
     issue_if (TOPIC_ALLOW_RULE \<in> set enabled \<and> tv_mode (topicPolicyValues parameters) = ''strict''
       \<and> topicLines (tv_allowed (topicPolicyValues parameters)) = []) ''allowed_topics'' @
     issue_if (TOPIC_DENY_RULE \<in> set enabled \<and> topicLines (tv_denied (topicPolicyValues parameters)) = []) ''denied_topics''"

section \<open>Candidate validators\<close>

definition json_int :: "int \<Rightarrow> int \<Rightarrow> json \<Rightarrow> bool" where
  "json_int lo hi v = (case v of JNum r \<Rightarrow> snd (quotient_of r) = 1 \<and> \<bar>fst (quotient_of r)\<bar> \<le> MAX_SAFE_INTEGER
       \<and> lo \<le> fst (quotient_of r) \<and> fst (quotient_of r) \<le> hi | _ \<Rightarrow> False)"

definition checksum_characters :: "json \<Rightarrow> bool" where
  "checksum_characters v = (case v of
     JStr s \<Rightarrow> 2 \<le> length s \<and> length s \<le> 128 \<and> list_all (\<lambda>c. 33 \<le> js_code c \<and> js_code c \<le> 126) s
       \<and> list_all (\<lambda>c. \<not> (97 \<le> js_code c \<and> js_code c \<le> 122)) s
   | _ \<Rightarrow> False)"

definition checksum_weights :: "json \<Rightarrow> bool" where
  "checksum_weights v = (case v of
     JArr ws \<Rightarrow> 1 \<le> length ws \<and> length ws \<le> 256 \<and> list_all (json_int 0 1000000000) ws | _ \<Rightarrow> False)"

text \<open>A strict object: exactly the given members, each accepted; the optional ones may be missing.\<close>

definition strict_object :: "(string \<times> bool \<times> (json \<Rightarrow> bool)) list \<Rightarrow> (string \<times> json) list \<Rightarrow> bool" where
  "strict_object schema es = (list_all (\<lambda>(k, _). k \<in> fst ` set schema) es \<and>
     list_all (\<lambda>(k, required, ok). case map_of es k of Some v \<Rightarrow> ok v | None \<Rightarrow> \<not> required) schema)"

definition patternValidatorSchema :: "json \<Rightarrow> bool" where
  "patternValidatorSchema v = (case v of
     JObj es \<Rightarrow>
       (let kind = (\<lambda>k. map_of es ''type'' = Some (JStr k)); any = (\<lambda>_ :: json. True) in
        (kind ''date'' \<and> strict_object [(''type'', True, any), (''start'', False, json_int 0 MAX_SAFE_INTEGER),
           (''format'', False, \<lambda>f. f = JStr ''YYYYMMDD'')] es) \<or>
        (kind ''weighted_checksum'' \<and> strict_object [(''type'', True, any),
           (''alphabet'', True, \<lambda>a. checksum_characters a \<and> (case a of JStr s \<Rightarrow> distinct s | _ \<Rightarrow> False)),
           (''weights'', True, checksum_weights), (''check_characters'', True, checksum_characters)] es) \<or>
        (kind ''modulus_checksum'' \<and> strict_object [(''type'', True, any), (''weights'', True, checksum_weights),
           (''modulus'', True, json_int 2 1000000), (''offset'', False, json_int (- 1000000000) 1000000000)] es) \<or>
        (kind ''luhn'' \<and> strict_object [(''type'', True, any)] es))
   | _ \<Rightarrow> False)"

section \<open>Issues of a definition\<close>

definition detectorRefs :: "string list" where
  "detectorRefs = [''text/keyword'', ''text/regex'', ''text/conditions'', ''code/fenced-block'', ''agent/indirect-injection'',
     ''agent/memory-poisoning'', ''model/classifier'', ''model/grounding'', ''service/formal-verification'']"

definition localDetectorRefs :: "string list" where
  "localDetectorRefs = take 6 detectorRefs"

definition validThreshold :: "json \<Rightarrow> bool" where
  "validThreshold value = ((case value of JNum _ \<Rightarrow> True | JStr s \<Rightarrow> \<not> blank s | _ \<Rightarrow> False) \<and>
     (case js_Number value of Some r \<Rightarrow> 0 \<le> r \<and> r \<le> 1 | None \<Rightarrow> False))"

fun truthy :: "json \<Rightarrow> bool" where
  "truthy JNull = False"
| "truthy (JBool b) = b"
| "truthy (JNum r) = (r \<noteq> 0)"
| "truthy (JStr s) = (s \<noteq> [])"
| "truthy _ = True"

definition member :: "json option \<Rightarrow> string \<Rightarrow> json option" where
  "member v key = (case v of Some (JObj es) \<Rightarrow> map_of es key | _ \<Rightarrow> None)"

definition rule_issue :: "DefinitionRule \<Rightarrow> bool \<Rightarrow> string \<Rightarrow> string list" where
  "rule_issue rule b message = issue_if b (''Rule '' @ ru_id rule @ '': '' @ message)"

definition acceptance_test :: "DefinitionRule \<Rightarrow> string \<Rightarrow> DefinitionTest \<Rightarrow> bool" where
  "acceptance_test rule stage t = (te_required t \<and> te_kind t = ''rule_acceptance'' \<and> te_scope t = ''rule'' \<and>
     te_phase t = stage \<and> ru_id rule \<in> set (te_covered_rule_ids t))"

definition threshold_issue :: "DefinitionRule \<Rightarrow> string \<Rightarrow> rat \<Rightarrow> string list" where
  "threshold_issue rule key dflt = rule_issue rule
     (parameterReferences (rule_param rule key) = [] \<and> \<not> validThreshold (the (json_or (rule_param rule key) (Some (JNum dflt)))))
     (key @ '' must be between 0 and 1.'')"

definition nonblank_text :: "json option \<Rightarrow> bool" where
  "nonblank_text v = (case v of Some (JStr s) \<Rightarrow> \<not> blank s | _ \<Rightarrow> False)"

definition has_terms :: "json option \<Rightarrow> bool" where
  "has_terms terms = (case terms of
     Some (JArr xs) \<Rightarrow> list_ex (\<lambda>x. nonblank_text (Some x)) xs
   | Some (JStr s) \<Rightarrow> \<not> blank s
   | Some (JObj es) \<Rightarrow> map_of es ''parameter'' \<noteq> None
   | _ \<Rightarrow> False)"

definition nonempty_array :: "json option \<Rightarrow> bool" where
  "nonempty_array v = (case v of Some (JArr xs) \<Rightarrow> xs \<noteq> [] | _ \<Rightarrow> False)"

definition output_only :: "string list" where
  "output_only = [''model/grounding'', ''service/formal-verification'']"

definition detector_issues :: "DefinitionRule \<Rightarrow> string list" where
  "detector_issues rule =
     (if js_startsWith (rule_ref rule) ''agent/''
      then rule_issue rule (list_ex (\<lambda>s. s \<noteq> ''input'') (ru_stages rule)) ''agent boundary checks only support input.'' @
        rule_issue rule (rule_params rule \<noteq> []) ''this Detector has no configurable parameters.'' else []) @
     (if rule_ref rule \<in> set output_only
      then rule_issue rule (list_ex (\<lambda>s. s \<noteq> ''output'') (ru_stages rule)) ''this Detector only supports output.'' else []) @
     (if rule_ref rule = ''model/grounding''
      then threshold_issue rule ''grounding_threshold'' (7 / 10) @ threshold_issue rule ''relevance_threshold'' (7 / 10) else []) @
     (if rule_ref rule = ''service/formal-verification''
      then rule_issue rule (\<not> nonblank_text (rule_param rule ''policy_id'') \<or> \<not> nonblank_text (rule_param rule ''policy_version''))
             ''provide a formal policy ID and version.'' @
           threshold_issue rule ''confidence_threshold'' (8 / 10) else []) @
     (if rule_ref rule = ''text/regex''
      then rule_issue rule (\<not> nonblank_text (rule_param rule ''expression'')) ''enter a regular expression.'' @
           rule_issue rule (case rule_param rule ''validators'' of None \<Rightarrow> False
             | Some (JArr vs) \<Rightarrow> \<not> list_all patternValidatorSchema vs | Some _ \<Rightarrow> True) ''invalid candidate validators.'' else []) @
     (if rule_ref rule = ''text/keyword''
      then rule_issue rule (ru_expand rule = None \<and> \<not> nonempty_array (rule_param rule ''keywords'')
             \<and> \<not> has_terms (member (rule_param rule ''detector_options'') ''terms'')) ''add matching words or phrases.'' else []) @
     (if rule_ref rule = ''text/conditions''
      then rule_issue rule (case member (rule_param rule ''detector_options'') ''match'' of None \<Rightarrow> True | Some m \<Rightarrow> \<not> truthy m)
             ''add a matching condition.'' else []) @
     (if ru_action rule = ''transform'' \<and> rule_ref rule \<in> set localDetectorRefs
      then rule_issue rule (ru_replacement rule = None) ''enter replacement text.'' @
           rule_issue rule (rule_ref rule \<notin> {''text/keyword'', ''text/regex''}) ''this detector does not support replacement.'' else [])"

definition stage_issues :: "PolicyDefinition \<Rightarrow> DefinitionRule \<Rightarrow> string list" where
  "stage_issues definition rule =
     rule_issue rule (blank (ru_name rule) \<or> ru_stages rule = [] \<or> \<not> distinct (ru_stages rule)) ''provide a name and unique stages.'' @
     concat (map (\<lambda>stage. issue_if (\<not> list_ex (acceptance_test rule stage) (de_tests definition))
       (in_rule rule (''add a required '' @ stage @ '' Rule acceptance test.''))) (ru_stages rule))"

definition rule_by_id :: "PolicyDefinition \<Rightarrow> string \<Rightarrow> DefinitionRule option" where
  "rule_by_id definition i = map_of (rev (map (\<lambda>r. (ru_id r, r)) (de_rules definition))) i"

definition evaluated_rules :: "PolicyDefinition \<Rightarrow> DefinitionTest \<Rightarrow> DefinitionRule list" where
  "evaluated_rules definition t = (if te_scope t = ''rule''
     then concat (map (\<lambda>i. case rule_by_id definition i of Some r \<Rightarrow> [r] | None \<Rightarrow> []) (te_covered_rule_ids t))
     else filter (\<lambda>r. te_phase t \<in> set (ru_stages r)) (de_rules definition))"

definition reasoning_results :: "string list" where
  "reasoning_results = [''valid'', ''invalid'', ''satisfiable'', ''impossible'', ''translation_ambiguous'', ''too_complex'', ''no_translations'']"

definition test_issue :: "DefinitionTest \<Rightarrow> bool \<Rightarrow> string \<Rightarrow> string list" where
  "test_issue t b message = issue_if b (''Test '' @ (if te_name t \<noteq> [] then te_name t else te_id t) @ '': '' @ message)"

definition context_issues :: "PolicyDefinition \<Rightarrow> DefinitionTest \<Rightarrow> string list" where
  "context_issues definition t = (let uses = (\<lambda>refs. list_ex (\<lambda>r. rule_ref r \<in> set refs) (evaluated_rules definition t)) in
     test_issue t (uses output_only \<and> (case te_context t of None \<Rightarrow> True | Some c \<Rightarrow> blank (tc_query c))) ''provide a user query.'' @
     test_issue t (uses [''model/grounding''] \<and>
       (case te_context t of None \<Rightarrow> True | Some c \<Rightarrow> \<not> list_ex (\<lambda>s. \<not> blank s) (tc_grounding_sources c))) ''provide at least one grounding source.'' @
     test_issue t (uses [''service/formal-verification''] \<and>
       (case te_context t of None \<Rightarrow> True
        | Some c \<Rightarrow> (case tc_expected_reasoning_result c of None \<Rightarrow> True | Some r \<Rightarrow> r \<notin> set reasoning_results)))
       ''select an expected reasoning result.'')"

definition test_issues :: "PolicyDefinition \<Rightarrow> DefinitionTest \<Rightarrow> string list" where
  "test_issues definition t = context_issues definition t @
     test_issue t (blank (te_name t) \<or> te_content t = []) ''provide a name and input text.'' @
     test_issue t (te_scope t = ''rule'' \<and> length (te_covered_rule_ids t) \<noteq> 1) ''a Rule test must select exactly one Rule.'' @
     test_issue t (list_ex (\<lambda>i. case rule_by_id definition i of None \<Rightarrow> True | Some r \<Rightarrow> te_phase t \<notin> set (ru_stages r))
       (te_covered_rule_ids t)) ''references an unavailable Rule or stage.'' @
     test_issue t (te_expected_decision t = ''transform'' \<and> te_expected_text t = None) ''assert the complete replacement output.'' @
     test_issue t (case te_expected_matched_rules t of None \<Rightarrow> False | Some ids \<Rightarrow> list_ex (\<lambda>i. rule_by_id definition i = None) ids)
       ''expected matched Rule does not exist.'' @
     test_issue t (te_kind t = ''rule_acceptance'' \<and> (case te_expected_matched_rules t of None \<Rightarrow> False
       | Some ids \<Rightarrow> list_ex (\<lambda>i. i \<notin> set ids) (te_covered_rule_ids t))) ''acceptance tests must assert their Rule matches.''"

definition definitionIssues :: "PolicyDefinition \<Rightarrow> string list" where
  "definitionIssues definition = modelParameterDeclarationIssues definition @
     issue_if (de_rules definition = []) ''Add at least one Rule.'' @
     issue_if (\<not> distinct (map ru_id (de_rules definition))) ''Rule IDs must be unique.'' @
     issue_if (\<not> distinct (map te_id (de_tests definition))) ''Test Case IDs must be unique.'' @
     issue_if (\<not> distinct (map pp_name (de_parameters definition))) ''Parameter names must be unique.'' @
     issue_if (list_ex (\<lambda>p. pp_kind p = ''secret'' \<and> pp_default p \<noteq> None) (de_parameters definition))
       ''Secret parameters cannot contain default values.'' @
     issue_if (case de_testing definition of None \<Rightarrow> False | Some es \<Rightarrow>
         list_ex (\<lambda>(name, _). \<not> list_ex (\<lambda>p. pp_name p = name \<and> pp_kind p \<noteq> ''secret'') (de_parameters definition)) es)
       ''Test parameters must reference declared, non-secret parameters.'' @
     concat (map (\<lambda>rule. stage_issues definition rule @ detector_issues rule) (de_rules definition)) @
     concat (map (test_issues definition) (de_tests definition))"

section \<open>References and their replacement\<close>

fun piece_text :: "piece \<Rightarrow> string" where
  "piece_text (Char c) = [c]"
| "piece_text (Reference name) = parameterReference name"

lemma match_reference_text:
  assumes "match_reference s = Some (name, r)"
  shows "s = parameterReference name @ r" "parameterNamePattern name"
proof -
  have *: "prefix ''{{'' s" "prefix ''}}'' (dropWhile word_char (drop 2 s))" "name = takeWhile word_char (drop 2 s)"
    "r = drop 2 (dropWhile word_char (drop 2 s))" "parameterNamePattern name"
    using assms by (auto simp: match_reference_def split: if_splits)
  obtain u where u: "s = ''{{'' @ u" using *(1) by (auto simp: prefix_def)
  obtain w where w: "dropWhile word_char u = ''}}'' @ w" using *(2) u by (auto simp: prefix_def)
  have "u = takeWhile word_char u @ dropWhile word_char u" by simp
  then show "s = parameterReference name @ r" using *(3,4) u w by (simp add: parameterReference_def)
  show "parameterNamePattern name" by (rule *)
qed

lemma match_parameterReference:
  assumes "parameterNamePattern name"
  shows "match_reference (parameterReference name @ r) = Some (name, r)"
proof -
  have "list_all word_char name" using assms by (simp add: parameterNamePattern_def)
  moreover have "\<not> word_char CHR ''}''" by (simp add: word_char_def js_code_def)
  ultimately have "takeWhile word_char (name @ ''}}'' @ r) = name" "dropWhile word_char (name @ ''}}'' @ r) = ''}}'' @ r"
    by (auto simp: list_all_iff takeWhile_append dropWhile_append)
  then show ?thesis using assms by (simp add: match_reference_def parameterReference_def)
qed

lemma pieces_text: "concat (map piece_text (pieces s)) = s"
proof (induction s rule: pieces.induct)
  case (2 c cs)
  then show ?case
    by (cases "match_reference (c # cs)") (auto simp: pieces.simps(2) dest: match_reference_text(1))
qed simp

lemma pieces_reference:
  assumes "parameterNamePattern name"
  shows "pieces (parameterReference name @ r) = Reference name # pieces r"
proof -
  obtain c cs where c: "parameterReference name @ r = c # cs" by (simp add: parameterReference_def)
  then show ?thesis using match_parameterReference [OF assms, of r] by (simp add: pieces.simps(2))
qed

lemma pieces_names: "Reference name \<in> set (pieces s) \<Longrightarrow> parameterNamePattern name"
proof (induction s rule: pieces.induct)
  case (2 c cs)
  then show ?case
    by (cases "match_reference (c # cs)") (auto simp: pieces.simps(2) dest: match_reference_text(2))
qed simp

text \<open>References are read back as they are written: cutting a text into references and
  characters loses nothing, every reference found has a well-formed name, and a written reference
  to a well-formed name is found as that name wherever it stands before other text.\<close>

theorem reference_roundtrip:
  "concat (map piece_text (pieces s)) = s \<and>
   (\<forall>name. Reference name \<in> set (pieces s) \<longrightarrow> parameterNamePattern name) \<and>
   (\<forall>name. parameterNamePattern name \<longrightarrow> pieces (parameterReference name @ s) = Reference name # pieces s)"
  using pieces_text pieces_names pieces_reference by blast

theorem reference_roundtrip_witness:
  "parameterNamePattern ''topic_mode'' \<and> pieces (''{{topic_mode}} {{9}}'') =
     Reference ''topic_mode'' # map Char '' {{9}}'' \<and> concat (map piece_text (pieces ''{{topic_mode}} {{9}}'')) = ''{{topic_mode}} {{9}}''"
proof -
  have "parameterNamePattern ''topic_mode''" "pieces '' {{9}}'' = map Char '' {{9}}''" by code_simp+
  then show ?thesis using reference_roundtrip [of "'' {{9}}''"] reference_roundtrip [of "''{{topic_mode}} {{9}}''"]
    by (auto simp: parameterReference_def)
qed

section \<open>Resolution\<close>

definition substituted :: "(string \<times> string) list \<Rightarrow> piece \<Rightarrow> string" where
  "substituted parameters p = (case p of Char c \<Rightarrow> [c]
   | Reference name \<Rightarrow> (case map_of parameters name of Some v \<Rightarrow> v | None \<Rightarrow> []))"

lemma replace_references_declared:
  assumes "\<And>name. Reference name \<in> set ps \<Longrightarrow> list_ex (\<lambda>p. pp_name p = name) (de_parameters d)"
  shows "replace_references (supplied d rule parameters) ps = Inr (concat (map (substituted parameters) ps))"
  using assms
proof (induction ps)
  case (Cons p ps)
  then show ?case by (cases p) (auto simp: supplied_def substituted_def)
qed simp

definition resolved_value :: "PolicyDefinition \<Rightarrow> DefinitionRule \<Rightarrow> (string \<times> string) list \<Rightarrow> string set \<Rightarrow> string \<Rightarrow> json option" where
  "resolved_value d rule parameters keys key = (case rule_param rule key of
     Some (JStr s) \<Rightarrow> Some (JStr (if key \<in> keys then concat (map (substituted parameters) (pieces s)) else s))
   | v \<Rightarrow> v)"

lemma map_of_put: "map_of (put key v es) = (map_of es)(key \<mapsto> v)"
  by (induction key v es rule: put.induct) auto

lemma put_keys: "map_of es key \<noteq> None \<Longrightarrow> map fst (put key v es) = map fst es"
  by (induction key v es rule: put.induct) auto

lemma resolve_fields_exact:
  assumes "distinct (map mf_key fs)"
    and "\<And>f s name. f \<in> set fs \<Longrightarrow> map_of es (mf_key f) = Some (JStr s) \<Longrightarrow> Reference name \<in> set (pieces s) \<Longrightarrow>
       list_ex (\<lambda>p. pp_name p = name) (de_parameters d)"
  shows "\<exists>es'. resolve_fields d rule parameters fs es = Inr es' \<and> map fst es' = map fst es \<and>
    (\<forall>key. map_of es' key = (case map_of es key of
       Some (JStr s) \<Rightarrow> Some (JStr (if key \<in> mf_key ` set fs then concat (map (substituted parameters) (pieces s)) else s))
     | v \<Rightarrow> v))"
  using assms
proof (induction fs arbitrary: es)
  case Nil
  then show ?case by (auto split: option.splits json.splits)
next
  case (Cons f fs)
  show ?case
  proof (cases "\<exists>s. map_of es (mf_key f) = Some (JStr s)")
    case False
    then have skip: "resolve_field d rule parameters f es = Inr es"
      by (auto simp: resolve_field_def split: option.splits json.splits)
    have "\<exists>es'. resolve_fields d rule parameters fs es = Inr es' \<and> map fst es' = map fst es \<and>
        (\<forall>key. map_of es' key = (case map_of es key of
           Some (JStr s) \<Rightarrow> Some (JStr (if key \<in> mf_key ` set fs then concat (map (substituted parameters) (pieces s)) else s))
         | v \<Rightarrow> v))"
      by (rule Cons.IH) (use Cons.prems in auto)
    moreover have "(case map_of es key of
       Some (JStr s) \<Rightarrow> Some (JStr (if key \<in> mf_key ` set fs then concat (map (substituted parameters) (pieces s)) else s))
     | v \<Rightarrow> v) = (case map_of es key of
       Some (JStr s) \<Rightarrow> Some (JStr (if key \<in> mf_key ` set (f # fs) then concat (map (substituted parameters) (pieces s)) else s))
     | v \<Rightarrow> v)" for key
      using False by (auto split: option.splits json.splits)
    ultimately show ?thesis using skip by auto
  next
    case True
    then obtain s where s: "map_of es (mf_key f) = Some (JStr s)" by blast
    let ?t = "concat (map (substituted parameters) (pieces s))"
    let ?es = "put (mf_key f) (JStr ?t) es"
    have "replace_references (supplied d rule parameters) (pieces s) = Inr ?t"
      using Cons.prems(2) [of f s] s by (intro replace_references_declared) auto
    then have step: "resolve_field d rule parameters f es = Inr ?es" by (simp add: resolve_field_def s)
    have "\<exists>es'. resolve_fields d rule parameters fs ?es = Inr es' \<and> map fst es' = map fst ?es \<and>
        (\<forall>key. map_of es' key = (case map_of ?es key of
           Some (JStr s) \<Rightarrow> Some (JStr (if key \<in> mf_key ` set fs then concat (map (substituted parameters) (pieces s)) else s))
         | v \<Rightarrow> v))"
    proof (rule Cons.IH)
      show "distinct (map mf_key fs)" using Cons.prems(1) by simp
      fix g u name
      assume g: "g \<in> set fs" "map_of ?es (mf_key g) = Some (JStr u)" "Reference name \<in> set (pieces u)"
      have "mf_key g \<noteq> mf_key f" using Cons.prems(1) g(1) by (metis distinct.simps(2) image_eqI list.set_map list.simps(9))
      then show "list_ex (\<lambda>p. pp_name p = name) (de_parameters d)"
        using g Cons.prems(2) [of g u name] by (simp add: map_of_put)
    qed
    then obtain es' where es': "resolve_fields d rule parameters fs ?es = Inr es'" "map fst es' = map fst es"
      and look: "\<And>key. map_of es' key = (case map_of ?es key of
           Some (JStr s) \<Rightarrow> Some (JStr (if key \<in> mf_key ` set fs then concat (map (substituted parameters) (pieces s)) else s))
         | v \<Rightarrow> v)"
      using put_keys [of es "mf_key f"] s by auto
    have fresh: "mf_key f \<notin> mf_key ` set fs" using Cons.prems(1) by simp
    have "map_of es' key = (case map_of es key of
       Some (JStr s) \<Rightarrow> Some (JStr (if key \<in> mf_key ` set (f # fs) then concat (map (substituted parameters) (pieces s)) else s))
     | v \<Rightarrow> v)" for key
      using look [of key] s fresh by (auto simp: map_of_put split: option.splits json.splits)
    then show ?thesis using step es' by auto
  qed
qed

lemma model_fields_distinct: "distinct (map mf_key (modelParameterFields rule))"
  by (simp add: modelParameterFields_def topic_fields_def unknown_fields_def threshold_fields_def formal_fields_def model_field_def)

lemma declared_references:
  assumes "modelParameterDeclarationIssues d = []" "rule \<in> set (de_rules d)" "modelParameterFields rule \<noteq> []"
    and "rule_param rule key = Some (JStr s)" "Reference name \<in> set (pieces s)"
  shows "\<exists>p\<in>set (de_parameters d). pp_name p = name \<and> pp_kind p \<noteq> ''secret''"
proof -
  have "js_startsWith (rule_ref rule) ''model/'' \<or> js_startsWith (rule_ref rule) ''service/''"
    using assms(3) by (auto simp: modelParameterFields_def is_topic_rule_def js_startsWith_def prefix_def split: if_splits)
  moreover have "rule_declaration_issues d rule = []"
    using assms(1,2) by (auto simp: modelParameterDeclarationIssues_def)
  moreover have "(key, JStr s) \<in> set (rule_params rule)"
    using assms(4) by (auto simp: rule_param_def dest: map_of_SomeD)
  ultimately have "entry_issues d rule (key, JStr s) = []" by (auto simp: rule_declaration_issues_def)
  moreover have "name \<in> set (reference_names s)"
    using assms(5) by (force simp: reference_names_def)
  ultimately have "reference_issues d rule key s name = []" by (auto simp: entry_issues_def)
  then show ?thesis
    by (auto simp: reference_issues_def issue_if_def Let_def find_None_iff split: option.splits if_splits dest!: find_Some_mem)
qed

lemma resolves:
  assumes "modelParameterDeclarationIssues d = []" "rule \<in> set (de_rules d)"
  shows "\<exists>params. resolveModelRuleParameters d rule values = Inr params \<and> map fst params = map fst (rule_params rule) \<and>
    (\<forall>key. map_of params key = resolved_value d rule (policyParameterValues d values) (mf_key ` set (modelParameterFields rule)) key) \<and>
    (\<forall>f s name. f \<in> set (modelParameterFields rule) \<longrightarrow> rule_param rule (mf_key f) = Some (JStr s) \<longrightarrow>
       Reference name \<in> set (pieces s) \<longrightarrow> (\<exists>p\<in>set (de_parameters d). pp_name p = name \<and> pp_kind p \<noteq> ''secret''))"
proof -
  have decl: "\<exists>p\<in>set (de_parameters d). pp_name p = name \<and> pp_kind p \<noteq> ''secret''"
    if "f \<in> set (modelParameterFields rule)" "rule_param rule (mf_key f) = Some (JStr s)" "Reference name \<in> set (pieces s)" for f s name
    using declared_references [OF assms _ that(2,3)] that(1) by (cases "modelParameterFields rule") auto
  have "\<exists>es'. resolve_fields d rule (policyParameterValues d values) (modelParameterFields rule) (rule_params rule) = Inr es' \<and>
      map fst es' = map fst (rule_params rule) \<and>
      (\<forall>key. map_of es' key = (case map_of (rule_params rule) key of
         Some (JStr s) \<Rightarrow> Some (JStr (if key \<in> mf_key ` set (modelParameterFields rule)
            then concat (map (substituted (policyParameterValues d values)) (pieces s)) else s))
       | v \<Rightarrow> v))"
  proof (rule resolve_fields_exact [OF model_fields_distinct])
    fix f s name
    assume "f \<in> set (modelParameterFields rule)" "map_of (rule_params rule) (mf_key f) = Some (JStr s)" "Reference name \<in> set (pieces s)"
    then obtain p where "p \<in> set (de_parameters d)" "pp_name p = name" using decl by (metis rule_param_def)
    then show "list_ex (\<lambda>p. pp_name p = name) (de_parameters d)" by (auto simp: list_ex_iff)
  qed
  then show ?thesis using decl by (auto simp: resolveModelRuleParameters_def resolved_value_def rule_param_def)
qed

text \<open>A definition without declaration issues always resolves: for every Rule and all values
  a Guardrail supplies, resolution returns the Rule's parameters with the same names, each text of
  a model field having its references replaced by the supplied values, the declared defaults or
  nothing, and every other entry untouched; no reference names a secret parameter.\<close>

theorem declared_rules_resolve:
  assumes "modelParameterDeclarationIssues d = []" "rule \<in> set (de_rules d)"
  shows "\<exists>params. resolveModelRuleParameters d rule values = Inr params \<and> map fst params = map fst (rule_params rule) \<and>
    (\<forall>key. map_of params key = resolved_value d rule (policyParameterValues d values) (mf_key ` set (modelParameterFields rule)) key) \<and>
    (\<forall>f s name. f \<in> set (modelParameterFields rule) \<longrightarrow> rule_param rule (mf_key f) = Some (JStr s) \<longrightarrow>
       Reference name \<in> set (pieces s) \<longrightarrow> (\<exists>p\<in>set (de_parameters d). pp_name p = name \<and> pp_kind p \<noteq> ''secret''))"
  using assms by (rule resolves)

definition sample_rule :: DefinitionRule where
  "sample_rule = \<lparr>ru_id = ''topic'', ru_version = ''1.0.0'', ru_name = ''Topic'', ru_description = [], ru_stages = [''input''],
     ru_detector = \<lparr>dt_ref = ''model/classifier'', dt_version = ''1.0.0'',
       dt_parameters = [(''profile'', JStr ''topic-classification''), (''topic_mode'', JStr ''{{mode}}'')]\<rparr>,
     ru_action = ''block'', ru_replacement = None, ru_expand = None\<rparr>"

definition sample_test :: DefinitionTest where
  "sample_test = \<lparr>te_id = ''t'', te_name = ''Blocks'', te_phase = ''input'', te_content = ''x'', te_expected_decision = ''block'',
     te_covered_rule_ids = [''topic''], te_kind = ''rule_acceptance'', te_scope = ''rule'', te_required = True,
     te_expected_text = None, te_expected_matched_rules = Some [''topic''], te_context = None\<rparr>"

definition sample_definition :: PolicyDefinition where
  "sample_definition = \<lparr>de_parameters = [\<lparr>pp_name = ''mode'', pp_label = ''Mode'', pp_kind = ''text'', pp_required = True,
       pp_default = Some ''permissive''\<rparr>],
     de_rules = [sample_rule], de_tests = [sample_test], de_testing = None\<rparr>"

lemma sample_definition_ok: "modelParameterDeclarationIssues sample_definition = []" "sample_rule \<in> set (de_rules sample_definition)"
  by code_simp+

theorem declared_rules_resolve_witness:
  "\<exists>params. resolveModelRuleParameters sample_definition sample_rule [(''mode'', ''strict'')] = Inr params \<and>
     map_of params ''topic_mode'' = Some (JStr ''strict'')"
proof -
  have "resolved_value sample_definition sample_rule (policyParameterValues sample_definition [(''mode'', ''strict'')])
      (mf_key ` set (modelParameterFields sample_rule)) ''topic_mode'' = Some (JStr ''strict'')" by code_simp
  then show ?thesis using declared_rules_resolve [OF sample_definition_ok, of "[(''mode'', ''strict'')]"] by metis
qed

section \<open>Accepted bindings\<close>

lemma js_unique_empty: "js_unique xs = [] \<longleftrightarrow> xs = []"
  by (cases xs) auto



section \<open>Publishable definitions\<close>

lemma find_rev_map_of:
  assumes "distinct (map ru_id rs)" "r \<in> set rs"
  shows "map_of (rev (map (\<lambda>r. (ru_id r, r)) rs)) (ru_id r) = Some r"
  using assms by (intro map_of_is_SomeI) (auto simp: comp_def rev_map [symmetric] distinct_rev)

lemma issue_if_Nil [simp]: "issue_if b m = [] \<longleftrightarrow> \<not> b"
  by (simp add: issue_if_def)

lemma definitionIssues_Nil:
  assumes "definitionIssues d = []"
  shows "distinct (map ru_id (de_rules d))" "de_rules d \<noteq> []" "\<And>r. r \<in> set (de_rules d) \<Longrightarrow> stage_issues d r = []"
    "\<And>r. r \<in> set (de_rules d) \<Longrightarrow> detector_issues r = []" "\<And>t. t \<in> set (de_tests d) \<Longrightarrow> test_issues d t = []"
  using assms by (auto simp: definitionIssues_def)

lemma constant_list: "distinct xs \<Longrightarrow> xs \<noteq> [] \<Longrightarrow> \<forall>x\<in>set xs. x = a \<Longrightarrow> xs = [a]"
  by (metis distinct_length_2_or_more list.set_intros neq_Nil_conv)

lemma acceptance_test_exact:
  assumes d: "distinct (map ru_id (de_rules d))" "r \<in> set (de_rules d)" and t: "test_issues d t = []" "acceptance_test r stage t"
  shows "te_covered_rule_ids t = [ru_id r]" "case te_expected_matched_rules t of None \<Rightarrow> True | Some ids \<Rightarrow> ru_id r \<in> set ids"
    "rule_ref r \<in> set output_only \<Longrightarrow> \<exists>c. te_context t = Some c \<and> \<not> blank (tc_query c)"
proof -
  have one: "te_scope t = ''rule''" "length (te_covered_rule_ids t) = 1" "ru_id r \<in> set (te_covered_rule_ids t)"
    using t by (auto simp: test_issues_def test_issue_def acceptance_test_def)
  then show cov: "te_covered_rule_ids t = [ru_id r]" by (cases "te_covered_rule_ids t") auto
  show "case te_expected_matched_rules t of None \<Rightarrow> True | Some ids \<Rightarrow> ru_id r \<in> set ids"
    using t cov by (auto simp: test_issues_def test_issue_def acceptance_test_def split: option.splits)
  have "evaluated_rules d t = [r]"
    using one(1) cov find_rev_map_of [OF d] by (simp add: evaluated_rules_def rule_by_id_def)
  then show "\<exists>c. te_context t = Some c \<and> \<not> blank (tc_query c)" if "rule_ref r \<in> set output_only"
    using t(1) that by (auto simp: test_issues_def context_issues_def test_issue_def Let_def split: option.splits)
qed

lemma covered_rules_exist:
  assumes "test_issues d t = []" "i \<in> set (te_covered_rule_ids t)"
  shows "\<exists>r\<in>set (de_rules d). ru_id r = i \<and> te_phase t \<in> set (ru_stages r)"
proof -
  obtain r where "rule_by_id d i = Some r" "te_phase t \<in> set (ru_stages r)"
    using assms by (auto simp: test_issues_def test_issue_def list_ex_iff split: option.splits)
  then show ?thesis by (auto simp: rule_by_id_def dest!: map_of_SomeD)
qed



end
