(* ===== verification/Guardrail_Draft.thy ===== *)
theory Guardrail_Draft
  imports Policy_Parameters
begin

text \<open>
  Guardrail drafts as they are read and checked before a plan is compiled: the reading of an
  untrusted JSON value into the typed draft (\<^verbatim>\<open>normalizeGuardrailDraft\<close> and its helpers) and
  the checks of a Policy binding against the pinned Policy version
  (\<^verbatim>\<open>validateCatalogBinding\<close>, \<^verbatim>\<open>validateProgrammableBinding\<close>) of
  \<^verbatim>\<open>controller/server/domain/guardrail-plan.ts\<close>, with the phrase entries of
  \<^verbatim>\<open>controller/shared/phrase-policy.ts\<close>. The closed list of enforcement actions is generated
  code and an argument. Main results: reading a stored draft again changes nothing, and a binding
  that passes the checks is closed under the pinned Policy.
\<close>

section \<open>The draft\<close>

record ExpectationOverride =
  eo_sourcePolicyVersion :: string
  eo_reason :: string
  eo_expectedDecision :: string
  eo_expectedOutputContent :: "string option"
  eo_expectedMatches :: "(string \<times> string) list"

record ReasoningPolicy =
  rp_policyId :: string
  rp_policyVersion :: string
  rp_confidenceThreshold :: rat

record PolicyBinding =
  pb_policyId :: string
  pb_policyVersion :: string
  pb_action :: "string option"
  pb_parameterValues :: "(string \<times> string) list"
  pb_enabledRuleIds :: "string list"
  pb_ruleOrder :: "string list"
  pb_testCaseOverrides :: "(string \<times> ExpectationOverride) list"
  pb_ruleActions :: "(string \<times> string) list"
  pb_enabledRails :: "string list"
  pb_reasoningPolicy :: "ReasoningPolicy option"

record DraftConfig =
  dc_profileOrigin :: "(string \<times> string) option"
  dc_allowedTopics :: "string list"
  dc_restrictedTopics :: "string list"
  dc_topicControlMode :: string
  dc_policyBindings :: "PolicyBinding list"
  dc_safetyLevel :: string
  dc_outputDelivery :: string

section \<open>Reading untrusted values\<close>

definition record_of :: "json option \<Rightarrow> (string \<times> json) list" where
  "record_of v = (case v of Some (JObj es) \<Rightarrow> es | _ \<Rightarrow> [])"

definition string_of :: "json option \<Rightarrow> string" where
  "string_of v = (case v of Some (JStr s) \<Rightarrow> s | _ \<Rightarrow> [])"

definition array_of :: "json option \<Rightarrow> json list" where
  "array_of v = (case v of Some (JArr xs) \<Rightarrow> xs | _ \<Rightarrow> [])"

fun json_text :: "json \<Rightarrow> string option" where
  "json_text (JStr s) = Some s"
| "json_text _ = None"

definition stringArray :: "json option \<Rightarrow> string list" where
  "stringArray v = List.map_filter json_text (array_of v)"

definition string_entries :: "(string \<Rightarrow> bool) \<Rightarrow> json option \<Rightarrow> (string \<times> string) list" where
  "string_entries keep v = List.map_filter (\<lambda>(k, x). case x of JStr s \<Rightarrow> if keep s then Some (k, s) else None
     | _ \<Rightarrow> None) (record_of v)"

definition stringRecord :: "json option \<Rightarrow> (string \<times> string) list" where
  "stringRecord v = string_entries (\<lambda>_. True) v"

definition actionRecord :: "string list \<Rightarrow> json option \<Rightarrow> (string \<times> string) list" where
  "actionRecord enforcementActions v = string_entries (\<lambda>s. s \<in> set enforcementActions) v"

definition finite_or :: "json option \<Rightarrow> rat \<Rightarrow> rat" where
  "finite_or v fallback = (case v of Some (JNum r) \<Rightarrow> r | _ \<Rightarrow> fallback)"

definition json_falsy :: "json option \<Rightarrow> bool" where
  "json_falsy v = (case v of None \<Rightarrow> True | Some x \<Rightarrow> \<not> truthy x)"

fun map_result :: "('a \<Rightarrow> 'e + 'b) \<Rightarrow> 'a list \<Rightarrow> 'e + 'b list" where
  "map_result f [] = Inr []"
| "map_result f (x # xs) = and_then (f x) (\<lambda>y. and_then (map_result f xs) (\<lambda>ys. Inr (y # ys)))"

definition override_matches :: "(string \<times> json) list \<Rightarrow> (string \<times> string) list" where
  "override_matches item = map (\<lambda>m. (string_of (map_of (record_of (Some m)) ''policyId''),
     string_of (map_of (record_of (Some m)) ''ruleId''))) (array_of (map_of item ''expectedMatches''))"

definition decisions :: "string list" where
  "decisions = [''allow'', ''block'', ''transform'', ''intervene'']"

definition invalid_override :: "(string \<times> json) list \<Rightarrow> bool" where
  "invalid_override item \<longleftrightarrow>
    js_trim (string_of (map_of item ''reason'')) = [] \<or> string_of (map_of item ''sourcePolicyVersion'') = [] \<or>
    string_of (map_of item ''expectedDecision'') \<notin> set decisions \<or>
    list_ex (\<lambda>(p, r). p = [] \<or> r = []) (override_matches item) \<or>
    (map_of item ''expectedDecision'' \<noteq> Some (JStr ''allow'') \<and> override_matches item = []) \<or>
    (case map_of item ''expectedOutputContent'' of None \<Rightarrow> False | Some v \<Rightarrow> json_text v = None)"

definition override_of :: "(string \<times> json) list \<Rightarrow> ExpectationOverride" where
  "override_of item = \<lparr>eo_sourcePolicyVersion = string_of (map_of item ''sourcePolicyVersion''),
     eo_reason = js_trim (string_of (map_of item ''reason'')),
     eo_expectedDecision = string_of (map_of item ''expectedDecision''),
     eo_expectedOutputContent = Option.bind (map_of item ''expectedOutputContent'') json_text,
     eo_expectedMatches = override_matches item\<rparr>"

definition read_override :: "string \<times> json \<Rightarrow> thrown + string \<times> ExpectationOverride" where
  "read_override entry = (let item = record_of (Some (snd entry)) in
     if invalid_override item
     then Inl (JsError (''Invalid reviewed expectation override for Test Case '' @ fst entry @ ''.''))
     else Inr (fst entry, override_of item))"

definition expectationOverrides :: "json option \<Rightarrow> thrown + (string \<times> ExpectationOverride) list" where
  "expectationOverrides v = map_result read_override (record_of v)"

definition rail_names :: "string list" where
  "rail_names = [''input'', ''output'', ''retrieval'', ''dialog'', ''execution'']"

definition reasoning_of :: "(string \<times> json) list \<Rightarrow> ReasoningPolicy option" where
  "reasoning_of r = (if json_falsy (map_of r ''policyId'') \<or> json_falsy (map_of r ''policyVersion'') then None
     else Some \<lparr>rp_policyId = string_of (map_of r ''policyId''),
       rp_policyVersion = string_of (map_of r ''policyVersion''),
       rp_confidenceThreshold = finite_or (map_of r ''confidenceThreshold'') (4 / 5)\<rparr>)"

definition action_of :: "string list \<Rightarrow> json option \<Rightarrow> string option" where
  "action_of enforcementActions v =
    (case v of Some (JStr s) \<Rightarrow> if s \<in> set enforcementActions then Some s else None | _ \<Rightarrow> None)"

definition normalizeBinding :: "string list \<Rightarrow> json \<Rightarrow> thrown + PolicyBinding" where
  "normalizeBinding acts v = (let src = record_of (Some v) in
     and_then (expectationOverrides (map_of src ''testCaseOverrides'')) (\<lambda>overrides.
       Inr \<lparr>pb_policyId = string_of (map_of src ''policyId''),
         pb_policyVersion = string_of (map_of src ''policyVersion''),
         pb_action = action_of acts (map_of src ''action''),
         pb_parameterValues = stringRecord (map_of src ''parameterValues''),
         pb_enabledRuleIds = stringArray (map_of src ''enabledRuleIds''),
         pb_ruleOrder = stringArray (map_of src ''ruleOrder''),
         pb_testCaseOverrides = overrides,
         pb_ruleActions = actionRecord acts (map_of src ''ruleActions''),
         pb_enabledRails = filter (\<lambda>r. r \<in> set rail_names) (stringArray (map_of src ''enabledRails'')),
         pb_reasoningPolicy = reasoning_of (record_of (map_of src ''reasoningPolicy''))\<rparr>))"

definition profile_origin :: "(string \<times> json) list \<Rightarrow> (string \<times> string) option" where
  "profile_origin src = (let origin = record_of (map_of src ''profileOrigin'') in
     case (map_of origin ''id'', map_of origin ''version'') of
       (Some (JStr i), Some (JStr v)) \<Rightarrow> Some (i, v) | _ \<Rightarrow> None)"

definition custom_rules_error :: thrown where
  "custom_rules_error = JsError ''Standalone custom content rules are no longer supported. Configure the Phrase filters Policy before saving or publishing this draft.''"

definition choice :: "json option \<Rightarrow> string list \<Rightarrow> string \<Rightarrow> string" where
  "choice v options fallback = (case v of Some (JStr s) \<Rightarrow> if s \<in> set options then s else fallback | _ \<Rightarrow> fallback)"

definition normalizeGuardrailDraft :: "string list \<Rightarrow> json \<Rightarrow> thrown + DraftConfig" where
  "normalizeGuardrailDraft acts v = (let src = record_of (Some v) in
     if array_of (map_of src ''customContentRules'') \<noteq> [] then Inl custom_rules_error
     else and_then (map_result (normalizeBinding acts) (array_of (map_of src ''policyBindings''))) (\<lambda>bindings.
       Inr \<lparr>dc_profileOrigin = profile_origin src,
         dc_allowedTopics = stringArray (map_of src ''allowedTopics''),
         dc_restrictedTopics = stringArray (map_of src ''restrictedTopics''),
         dc_topicControlMode = choice (map_of src ''topicControlMode'') [''permissive''] ''strict'',
         dc_policyBindings = bindings,
         dc_safetyLevel = choice (map_of src ''safetyLevel'') [''strict''] ''balanced'',
         dc_outputDelivery = choice (map_of src ''outputDelivery'')
           [''interruptible'', ''window_buffered''] ''full_buffered''\<rparr>))"

section \<open>The stored form\<close>

text \<open>The JSON value a typed draft is stored as; absent optional members are left out.\<close>

definition strings_json :: "string list \<Rightarrow> json" where
  "strings_json ss = JArr (map JStr ss)"

definition entries_json :: "(string \<times> string) list \<Rightarrow> json" where
  "entries_json es = JObj (map (\<lambda>(k, s). (k, JStr s)) es)"

definition override_json :: "ExpectationOverride \<Rightarrow> json" where
  "override_json e = JObj ([(''sourcePolicyVersion'', JStr (eo_sourcePolicyVersion e)),
     (''reason'', JStr (eo_reason e)), (''expectedDecision'', JStr (eo_expectedDecision e))] @
     (case eo_expectedOutputContent e of None \<Rightarrow> [] | Some s \<Rightarrow> [(''expectedOutputContent'', JStr s)]) @
     [(''expectedMatches'', JArr (map (\<lambda>(p, r). JObj [(''policyId'', JStr p), (''ruleId'', JStr r)])
        (eo_expectedMatches e)))])"

definition reasoning_json :: "ReasoningPolicy option \<Rightarrow> json" where
  "reasoning_json r = (case r of None \<Rightarrow> JNull | Some p \<Rightarrow> JObj [(''policyId'', JStr (rp_policyId p)),
     (''policyVersion'', JStr (rp_policyVersion p)), (''confidenceThreshold'', JNum (rp_confidenceThreshold p))])"

definition binding_json :: "PolicyBinding \<Rightarrow> json" where
  "binding_json b = JObj [(''policyId'', JStr (pb_policyId b)), (''policyVersion'', JStr (pb_policyVersion b)),
     (''action'', case pb_action b of None \<Rightarrow> JNull | Some a \<Rightarrow> JStr a),
     (''parameterValues'', entries_json (pb_parameterValues b)),
     (''enabledRuleIds'', strings_json (pb_enabledRuleIds b)),
     (''ruleOrder'', strings_json (pb_ruleOrder b)),
     (''testCaseOverrides'', JObj (map (\<lambda>(i, e). (i, override_json e)) (pb_testCaseOverrides b))),
     (''ruleActions'', entries_json (pb_ruleActions b)),
     (''enabledRails'', strings_json (pb_enabledRails b)),
     (''reasoningPolicy'', reasoning_json (pb_reasoningPolicy b))]"

definition draft_json :: "DraftConfig \<Rightarrow> json" where
  "draft_json d = JObj ((case dc_profileOrigin d of None \<Rightarrow> []
       | Some (i, v) \<Rightarrow> [(''profileOrigin'', JObj [(''id'', JStr i), (''version'', JStr v)])]) @
     [(''allowedTopics'', strings_json (dc_allowedTopics d)),
      (''restrictedTopics'', strings_json (dc_restrictedTopics d)),
      (''topicControlMode'', JStr (dc_topicControlMode d)),
      (''policyBindings'', JArr (map binding_json (dc_policyBindings d))),
      (''safetyLevel'', JStr (dc_safetyLevel d)),
      (''outputDelivery'', JStr (dc_outputDelivery d))])"

section \<open>Reading back the stored form\<close>

lemma map_result_Inr: "map_result f xs = Inr ys \<longleftrightarrow> list_all2 (\<lambda>x y. f x = Inr y) xs ys"
proof (induction xs arbitrary: ys)
  case Nil
  then show ?case by auto
next
  case (Cons x xs)
  then show ?case by (cases ys) (auto simp: and_then_eq_Inr)
qed

lemma map_result_source: "map_result f xs = Inr ys \<Longrightarrow> y \<in> set ys \<Longrightarrow> \<exists>x. f x = Inr y"
  by (induction xs arbitrary: ys) (auto simp: and_then_eq_Inr)

lemma map_result_back:
  assumes "\<And>y. y \<in> set ys \<Longrightarrow> f (g y) = Inr y"
  shows "map_result f (map g ys) = Inr ys"
  using assms by (simp add: map_result_Inr list_all2_map1 list.rel_refl_strong)

lemma stringArray_back [simp]: "stringArray (Some (strings_json ss)) = ss"
  by (induction ss) (simp_all add: stringArray_def strings_json_def array_of_def map_filter_simps)

lemma string_entries_back:
  assumes "\<forall>(k, s) \<in> set es. keep s"
  shows "string_entries keep (Some (entries_json es)) = es"
  using assms by (induction es) (auto simp: string_entries_def entries_json_def record_of_def map_filter_simps)

lemma string_entries_kept: "(k, s) \<in> set (string_entries keep v) \<Longrightarrow> keep s"
  by (auto simp: string_entries_def List.map_filter_def split: json.splits if_splits)

lemma stringRecord_back [simp]: "stringRecord (Some (entries_json es)) = es"
  unfolding stringRecord_def by (rule string_entries_back) auto

lemma actionRecord_back: "actionRecord acts (Some (entries_json (actionRecord acts v))) = actionRecord acts v"
  unfolding actionRecord_def by (rule string_entries_back) (auto dest: string_entries_kept)

lemma matches_back: "override_matches (record_of (Some (override_json e))) = eo_expectedMatches e"
  by (cases "eo_expectedOutputContent e")
    (simp_all add: override_matches_def override_json_def record_of_def array_of_def string_of_def
      comp_def case_prod_unfold)

lemma override_fields:
  fixes e
  defines "r \<equiv> record_of (Some (override_json e))"
  shows "map_of r ''reason'' = Some (JStr (eo_reason e))"
    "map_of r ''sourcePolicyVersion'' = Some (JStr (eo_sourcePolicyVersion e))"
    "map_of r ''expectedDecision'' = Some (JStr (eo_expectedDecision e))"
    "map_of r ''expectedOutputContent'' = map_option JStr (eo_expectedOutputContent e)"
  by (cases "eo_expectedOutputContent e"; simp add: r_def override_json_def record_of_def)+

lemma string_of_JStr: "string_of (Some (JStr s)) = s"
  by (simp add: string_of_def)

lemma bind_map_option_JStr: "Option.bind (map_option JStr x) json_text = x"
  by (cases x) simp_all

lemma override_back:
  assumes "\<not> invalid_override item"
  shows "\<not> invalid_override (record_of (Some (override_json (override_of item))))"
    and "override_of (record_of (Some (override_json (override_of item)))) = override_of item"
proof -
  let ?e = "override_of item"
  have dec: "map_of item ''expectedDecision'' = Some (JStr (eo_expectedDecision ?e))"
    using assms by (auto simp: invalid_override_def override_of_def decisions_def string_of_def
        split: option.splits json.splits)
  have trim: "js_trim (eo_reason ?e) = eo_reason ?e" by (simp add: override_of_def js_trim_idem)
  have a: "js_trim (string_of (map_of item ''reason'')) \<noteq> []" "string_of (map_of item ''sourcePolicyVersion'') \<noteq> []"
    "string_of (map_of item ''expectedDecision'') \<in> set decisions"
    "\<not> list_ex (\<lambda>(p, r). p = [] \<or> r = []) (override_matches item)"
    "map_of item ''expectedDecision'' \<noteq> Some (JStr ''allow'') \<longrightarrow> override_matches item \<noteq> []"
    using assms by (simp_all only: invalid_override_def de_Morgan_disj not_not simp_thms) blast
  have f: "eo_reason ?e = js_trim (string_of (map_of item ''reason''))"
    "eo_sourcePolicyVersion ?e = string_of (map_of item ''sourcePolicyVersion'')"
    "eo_expectedDecision ?e = string_of (map_of item ''expectedDecision'')"
    "eo_expectedMatches ?e = override_matches item"
    by (simp_all add: override_of_def)
  show "\<not> invalid_override (record_of (Some (override_json ?e)))"
    unfolding invalid_override_def override_fields matches_back string_of_JStr trim
    using a dec unfolding f by (cases "eo_expectedOutputContent ?e") (simp_all only: option.map option.case
        json_text.simps option.inject json.inject de_Morgan_disj simp_thms option.distinct; blast)+
  show "override_of (record_of (Some (override_json ?e))) = ?e"
    unfolding override_of_def [of "record_of _"] override_fields matches_back
    by (rule ExpectationOverride.equality)
      (simp_all add: string_of_def trim option.map_comp comp_def bind_map_option_JStr)
qed

lemma overrides_back:
  assumes "expectationOverrides v = Inr es"
  shows "expectationOverrides (Some (JObj (map (\<lambda>(i, e). (i, override_json e)) es))) = Inr es"
proof -
  have "read_override (fst x, override_json (snd x)) = Inr x" if x: "x \<in> set es" for x
  proof -
    obtain y where "read_override y = Inr x"
      using assms x unfolding expectationOverrides_def by (blast dest: map_result_source)
    then obtain item where "\<not> invalid_override item" "snd x = override_of item"
      by (auto simp: read_override_def Let_def split: if_splits)
    with override_back [of item] show ?thesis by (cases x) (simp add: read_override_def Let_def)
  qed
  then show ?thesis
    unfolding expectationOverrides_def by (simp add: record_of_def case_prod_unfold map_result_back)
qed

lemma action_back: "action_of acts (Some (case action_of acts v of None \<Rightarrow> JNull | Some a \<Rightarrow> JStr a)) = action_of acts v"
  by (auto simp: action_of_def split: option.splits json.splits if_splits)

lemma choice_back: "choice (Some (JStr (choice v opts d))) opts d = choice v opts d"
  by (auto simp: choice_def split: option.splits json.splits)

lemma reasoning_back:
  assumes "\<forall>p. r = Some p \<longrightarrow> rp_policyId p \<noteq> [] \<and> rp_policyVersion p \<noteq> []"
  shows "reasoning_of (record_of (Some (reasoning_json r))) = r"
  using assms by (cases r) (simp_all add: reasoning_of_def reasoning_json_def record_of_def json_falsy_def
      string_of_def finite_or_def)

lemma binding_back:
  assumes "normalizeBinding acts v = Inr b"
    and "\<forall>p. pb_reasoningPolicy b = Some p \<longrightarrow> rp_policyId p \<noteq> [] \<and> rp_policyVersion p \<noteq> []"
  shows "normalizeBinding acts (binding_json b) = Inr b"
proof -
  obtain es where es: "expectationOverrides (map_of (record_of (Some v)) ''testCaseOverrides'') = Inr es"
    and b: "pb_testCaseOverrides b = es"
    and act: "pb_action b = action_of acts (map_of (record_of (Some v)) ''action'')"
    and acts: "pb_ruleActions b = actionRecord acts (map_of (record_of (Some v)) ''ruleActions'')"
    and rails: "pb_enabledRails b =
      filter (\<lambda>r. r \<in> set rail_names) (stringArray (map_of (record_of (Some v)) ''enabledRails''))"
    using assms(1) by (auto simp: normalizeBinding_def Let_def and_then_eq_Inr)
  have r: "record_of (Some (binding_json b)) = [(''policyId'', JStr (pb_policyId b)),
     (''policyVersion'', JStr (pb_policyVersion b)),
     (''action'', case pb_action b of None \<Rightarrow> JNull | Some a \<Rightarrow> JStr a),
     (''parameterValues'', entries_json (pb_parameterValues b)),
     (''enabledRuleIds'', strings_json (pb_enabledRuleIds b)),
     (''ruleOrder'', strings_json (pb_ruleOrder b)),
     (''testCaseOverrides'', JObj (map (\<lambda>(i, e). (i, override_json e)) (pb_testCaseOverrides b))),
     (''ruleActions'', entries_json (pb_ruleActions b)),
     (''enabledRails'', strings_json (pb_enabledRails b)),
     (''reasoningPolicy'', reasoning_json (pb_reasoningPolicy b))]"
    by (simp add: record_of_def binding_json_def)
  have "filter (\<lambda>r. r \<in> set rail_names) (pb_enabledRails b) = pb_enabledRails b" by (simp add: rails)
  moreover have "action_of acts (Some (case pb_action b of None \<Rightarrow> JNull | Some a \<Rightarrow> JStr a)) = pb_action b"
    unfolding act by (rule action_back)
  moreover have "actionRecord acts (Some (entries_json (pb_ruleActions b))) = pb_ruleActions b"
    unfolding acts by (rule actionRecord_back)
  ultimately show ?thesis
    unfolding normalizeBinding_def r Let_def
    by (simp add: overrides_back [OF es] b string_of_def reasoning_back [OF assms(2)])
qed

text \<open>Claim C26. Reading a stored draft is stable: whatever JSON value a draft was read from, the
  typed draft it produced, stored and read again, is the same draft, provided the reasoning policies
  it names have textual identifiers. Nothing that reading dropped or defaulted reappears, and no
  reviewed test expectation is lost or rejected the second time.\<close>

theorem normalized_draft_stable:
  assumes "normalizeGuardrailDraft acts v = Inr d"
    and "\<forall>b \<in> set (dc_policyBindings d). \<forall>p. pb_reasoningPolicy b = Some p \<longrightarrow>
      rp_policyId p \<noteq> [] \<and> rp_policyVersion p \<noteq> []"
  shows "normalizeGuardrailDraft acts (draft_json d) = Inr d"
proof -
  obtain bs where bs: "map_result (normalizeBinding acts) (array_of (map_of (record_of (Some v)) ''policyBindings'')) = Inr bs"
    and d: "dc_policyBindings d = bs"
      "dc_topicControlMode d = choice (map_of (record_of (Some v)) ''topicControlMode'') [''permissive''] ''strict''"
      "dc_safetyLevel d = choice (map_of (record_of (Some v)) ''safetyLevel'') [''strict''] ''balanced''"
      "dc_outputDelivery d = choice (map_of (record_of (Some v)) ''outputDelivery'')
         [''interruptible'', ''window_buffered''] ''full_buffered''"
    using assms(1) by (auto simp: normalizeGuardrailDraft_def Let_def and_then_eq_Inr split: if_splits)
  have "normalizeBinding acts (binding_json b) = Inr b" if "b \<in> set bs" for b
    using map_result_source [OF bs that] that assms(2) d(1) binding_back by blast
  then have again: "map_result (normalizeBinding acts) (map binding_json bs) = Inr bs"
    by (rule map_result_back)
  obtain pre where r: "record_of (Some (draft_json d)) = pre @
     [(''allowedTopics'', strings_json (dc_allowedTopics d)),
      (''restrictedTopics'', strings_json (dc_restrictedTopics d)),
      (''topicControlMode'', JStr (dc_topicControlMode d)),
      (''policyBindings'', JArr (map binding_json (dc_policyBindings d))),
      (''safetyLevel'', JStr (dc_safetyLevel d)), (''outputDelivery'', JStr (dc_outputDelivery d))]"
    and pre: "pre = (case dc_profileOrigin d of None \<Rightarrow> []
       | Some (i, v) \<Rightarrow> [(''profileOrigin'', JObj [(''id'', JStr i), (''version'', JStr v)])])"
    by (simp add: record_of_def draft_json_def)
  have origin: "profile_origin (record_of (Some (draft_json d))) = dc_profileOrigin d"
    unfolding r pre by (cases "dc_profileOrigin d") (auto simp: profile_origin_def record_of_def)
  define rest where "rest = [(''allowedTopics'', strings_json (dc_allowedTopics d)),
      (''restrictedTopics'', strings_json (dc_restrictedTopics d)),
      (''topicControlMode'', JStr (dc_topicControlMode d)),
      (''policyBindings'', JArr (map binding_json (dc_policyBindings d))),
      (''safetyLevel'', JStr (dc_safetyLevel d)), (''outputDelivery'', JStr (dc_outputDelivery d))]"
  have "map_of pre k = None" if "k \<noteq> ''profileOrigin''" for k
    using that by (auto simp: pre split: option.splits)
  then have look: "map_of (record_of (Some (draft_json d))) k = map_of rest k" if "k \<noteq> ''profileOrigin''" for k
    using that by (simp only: r rest_def [symmetric] map_of_append map_add_def) (simp split: option.splits)
  have vals: "map_of rest ''customContentRules'' = None"
    "map_of rest ''policyBindings'' = Some (JArr (map binding_json bs))"
    "map_of rest ''allowedTopics'' = Some (strings_json (dc_allowedTopics d))"
    "map_of rest ''restrictedTopics'' = Some (strings_json (dc_restrictedTopics d))"
    "map_of rest ''topicControlMode'' = Some (JStr (dc_topicControlMode d))"
    "map_of rest ''safetyLevel'' = Some (JStr (dc_safetyLevel d))"
    "map_of rest ''outputDelivery'' = Some (JStr (dc_outputDelivery d))"
    by (simp_all add: rest_def d(1))
  have ch: "choice (Some (JStr (dc_topicControlMode d))) [''permissive''] ''strict'' = dc_topicControlMode d"
    "choice (Some (JStr (dc_safetyLevel d))) [''strict''] ''balanced'' = dc_safetyLevel d"
    "choice (Some (JStr (dc_outputDelivery d))) [''interruptible'', ''window_buffered''] ''full_buffered'' = dc_outputDelivery d"
    unfolding d(2-4) by (rule choice_back)+
  show ?thesis
    unfolding normalizeGuardrailDraft_def Let_def origin
    by (simp add: look vals array_of_def again [folded d(1)] ch d(1) [symmetric])
qed

definition sample_draft :: json where
  "sample_draft = JObj [(''allowedTopics'', JArr [JStr ''loans'', JNum 3]), (''safetyLevel'', JStr ''lax''),
     (''policyBindings'', JArr [JObj [(''policyId'', JStr ''p''), (''policyVersion'', JStr ''1''),
        (''enabledRuleIds'', JArr [JStr ''r'']), (''ruleActions'', JObj [(''r'', JStr ''block''), (''x'', JStr ''drop'')]),
        (''testCaseOverrides'', JObj [(''t'', JObj [(''reason'', JStr '' seen ''),
           (''sourcePolicyVersion'', JStr ''1''), (''expectedDecision'', JStr ''allow'')])])]])]"

definition sample_draft_read :: DraftConfig where
  "sample_draft_read = projr (normalizeGuardrailDraft [''block'', ''transform''] sample_draft)"

theorem normalized_draft_stable_witness:
  "normalizeGuardrailDraft [''block'', ''transform''] (draft_json sample_draft_read) = Inr sample_draft_read"
proof -
  have "normalizeGuardrailDraft [''block'', ''transform''] sample_draft = Inr sample_draft_read" by code_simp
  moreover have "\<forall>b \<in> set (dc_policyBindings sample_draft_read). pb_reasoningPolicy b = None" by code_simp
  ultimately show ?thesis using normalized_draft_stable by fastforce
qed

text \<open>Without that proviso reading is not stable: a reasoning policy whose identifier is a number
  passes the truth test, is read with an empty identifier, and is dropped when read again.\<close>

lemma reasoning_not_stable:
  "reasoning_of [(''policyId'', JNum 5), (''policyVersion'', JStr ''1'')] \<noteq> None \<and>
   reasoning_of (record_of (Some (reasoning_json
     (reasoning_of [(''policyId'', JNum 5), (''policyVersion'', JStr ''1'')])))) = None"
  by code_simp

section \<open>Phrase entries\<close>

record PhraseEntry =
  ph_id :: string
  ph_phrase :: string
  ph_action :: string
  ph_replacement :: string

definition PHRASE_POLICY_ID :: string where
  "PHRASE_POLICY_ID = ''content-filters''"

definition PHRASE_PARAMETER :: string where
  "PHRASE_PARAMETER = ''phrase_entries''"

definition bounded_text :: "nat \<Rightarrow> json option \<Rightarrow> string option" where
  "bounded_text n v = (case v of Some (JStr s) \<Rightarrow>
     (let t = js_trim s in if t \<noteq> [] \<and> length t \<le> n then Some t else None) | _ \<Rightarrow> None)"

definition phraseEntrySchema :: "string list \<Rightarrow> json \<Rightarrow> PhraseEntry option" where
  "phraseEntrySchema acts v = (case v of JObj es \<Rightarrow>
     if \<not> (fst ` set es \<subseteq> {''id'', ''phrase'', ''action'', ''replacement''}) then None
     else (case (bounded_text 100 (map_of es ''id''), bounded_text 240 (map_of es ''phrase''),
            action_of acts (map_of es ''action''),
            case map_of es ''replacement'' of None \<Rightarrow> Some ''[REDACTED]''
              | Some (JStr s) \<Rightarrow> if length s \<le> 240 then Some s else None | _ \<Rightarrow> None) of
       (Some i, Some p, Some a, Some r) \<Rightarrow>
         Some \<lparr>ph_id = i, ph_phrase = p, ph_action = a, ph_replacement = r\<rparr>
     | _ \<Rightarrow> None) | _ \<Rightarrow> None)"

definition entriesSchema :: "string list \<Rightarrow> json \<Rightarrow> PhraseEntry list option" where
  "entriesSchema acts v = (case v of JArr xs \<Rightarrow>
     if xs = [] \<or> length xs > 50 then None
     else (case those (map (phraseEntrySchema acts) xs) of None \<Rightarrow> None
       | Some es \<Rightarrow> if distinct (map ph_id es) then Some es else None) | _ \<Rightarrow> None)"

text \<open>\<open>zod_message\<close> is the text of the first issue the schema library reports.\<close>

definition parsePhraseEntries :: "(json \<Rightarrow> string) \<Rightarrow> string list \<Rightarrow> string \<Rightarrow> thrown + PhraseEntry list" where
  "parsePhraseEntries zod_message acts value = (case json_read value of
     None \<Rightarrow> Inl (JsError ''Add at least one phrase.'')
   | Some decoded \<Rightarrow> (case entriesSchema acts decoded of
       None \<Rightarrow> Inl (JsError (zod_message decoded)) | Some es \<Rightarrow> Inr es))"

section \<open>Bindings against pinned Policies\<close>

record PolicyRule =
  pr_id :: string
  pr_rails :: "string list"

record PolicyDto =
  po_id :: string
  po_version :: string
  po_rails :: "string list"
  po_rules :: "PolicyRule list"
  po_parameters :: "PolicyParameter list"
  po_definition :: "PolicyDefinition option"

record RailBinding =
  rb_rail_type :: string
  rb_flow_name :: string

record ProgrammablePolicy =
  pg_policy_id :: string
  pg_rail_bindings :: "RailBinding list"
  pg_parameter_schema :: "PolicyParameter list"

definition flowRuleId :: "string \<Rightarrow> string \<Rightarrow> string" where
  "flowRuleId rail flow = ''flow/'' @ rail @ ''/'' @ flow"

definition flow_rule :: "RailBinding \<Rightarrow> string" where
  "flow_rule rb = flowRuleId (rb_rail_type rb) (rb_flow_name rb)"

definition fail :: "string \<Rightarrow> thrown + 'a" where
  "fail msg = Inl (JsError msg)"

definition check_that :: "bool \<Rightarrow> string \<Rightarrow> thrown + unit" where
  "check_that ok msg = (if ok then Inr () else fail msg)"

fun checks :: "(thrown + unit) list \<Rightarrow> thrown + unit" where
  "checks [] = Inr ()"
| "checks (c # cs) = and_then c (\<lambda>_. checks cs)"

definition unknown_of :: "string list \<Rightarrow> string list \<Rightarrow> string list" where
  "unknown_of ruleIds xs = filter (\<lambda>i. i \<notin> set ruleIds) xs"

definition validateRuleOrder :: "PolicyBinding \<Rightarrow> string list \<Rightarrow> thrown + unit" where
  "validateRuleOrder b ruleIds = checks
    [check_that (distinct (pb_ruleOrder b))
       (''Policy '' @ pb_policyId b @ '' contains duplicate Rules in ruleOrder.''),
     check_that (unknown_of ruleIds (pb_ruleOrder b) = [])
       (''Policy '' @ pb_policyId b @ '' contains unknown ordered Rules: '' @
          js_join '', '' (unknown_of ruleIds (pb_ruleOrder b)) @ ''.''),
     check_that (unknown_of ruleIds (map fst (pb_ruleActions b)) = [])
       (''Policy '' @ pb_policyId b @ '' contains unknown Rule action overrides: '' @
          js_join '', '' (unknown_of ruleIds (map fst (pb_ruleActions b))) @ ''.'')]"

definition parameter_given :: "PolicyBinding \<Rightarrow> PolicyParameter \<Rightarrow> bool" where
  "parameter_given b p \<longleftrightarrow> js_trim (case map_of (pb_parameterValues b) (pp_name p) of Some v \<Rightarrow> v
     | None \<Rightarrow> (case pp_default p of Some v \<Rightarrow> v | None \<Rightarrow> [])) \<noteq> []"

definition require_parameters :: "string \<Rightarrow> PolicyBinding \<Rightarrow> PolicyParameter list \<Rightarrow> thrown + unit" where
  "require_parameters pid b ps = checks (map (\<lambda>p. check_that (\<not> pp_required p \<or> parameter_given b p)
     (''Policy '' @ pid @ '' requires parameter '' @ pp_name p @ ''.'')) ps)"

definition split_topic_checks :: "PolicyBinding \<Rightarrow> thrown + unit" where
  "split_topic_checks b =
    (let missing = topicMissingParameters (pb_parameterValues b) (pb_enabledRuleIds b);
         mode = map_of (pb_parameterValues b) ''topic_mode'';
         deny = map_of (pb_ruleActions b) TOPIC_DENY_RULE
     in checks
      [check_that (missing = []) (''Topic Control requires configuration for enabled Rules: '' @ js_join '', '' missing @ ''.''),
       check_that (mode \<in> {None, Some [], Some ''strict'', Some ''permissive''})
         ''Topic Control Allowlist mode must be strict or permissive.'',
       check_that (deny \<in> {None, Some [], Some ''block''})
         ''The Topic Control Denylist Rule must reject denied tasks.''])"

definition binding_rails :: "PolicyBinding \<Rightarrow> string list \<Rightarrow> string list" where
  "binding_rails b rails = (if pb_enabledRails b \<noteq> [] then pb_enabledRails b else rails)"

definition validateCatalogBinding ::
  "(json \<Rightarrow> string) \<Rightarrow> string list \<Rightarrow> PolicyBinding \<Rightarrow> PolicyDto \<Rightarrow> thrown + unit" where
  "validateCatalogBinding zod_message acts b p =
    (let enabledRails = binding_rails b (po_rails p);
         ruleIds = map pr_id (po_rules p);
         unknownRules = unknown_of ruleIds (pb_enabledRuleIds b);
         formal = map_option (\<lambda>r. (rp_policyId r, rp_policyVersion r)) (pb_reasoningPolicy b)
     in checks
      [if po_definition p = None \<and> isSplitTopicPolicy (pb_policyId b) (pb_policyVersion b)
       then split_topic_checks b else Inr (),
       if po_definition p = None \<and> po_id p = PHRASE_POLICY_ID
       then and_then (parsePhraseEntries zod_message acts
         (case map_of (pb_parameterValues b) PHRASE_PARAMETER of Some v \<Rightarrow> v | None \<Rightarrow> [])) (\<lambda>_. Inr ())
       else Inr (),
       check_that (pb_policyVersion b = po_version p) (''Policy '' @ po_id p @ '' must pin catalog version '' @
         po_version p @ ''; received '' @ pb_policyVersion b @ ''.''),
       check_that (list_all (\<lambda>r. r \<in> set (po_rails p) \<and> r \<in> {''input'', ''output''}) enabledRails)
         (''Policy '' @ po_id p @ '' enables an unsupported Rail. Supported: '' @ js_join '', '' (po_rails p) @ ''.''),
       check_that (list_ex (\<lambda>r. pr_id r \<in> set (pb_enabledRuleIds b) \<and>
           list_ex (\<lambda>rail. rail \<in> set enabledRails) (pr_rails r)) (po_rules p))
         (''Policy '' @ po_id p @ '' has no enabled Rules in its enabled Rails.''),
       validateRuleOrder b ruleIds,
       check_that (unknownRules = []) (''Policy '' @ po_id p @ '' contains unknown enabled Rules: '' @
         js_join '', '' unknownRules @ ''.''),
       check_that (pb_enabledRuleIds b \<noteq> []) (''Policy '' @ po_id p @ '' must enable at least one Rule.''),
       (case po_definition p of None \<Rightarrow> Inr () | Some d \<Rightarrow>
          (let issues = policyBindingParameterIssues d (pb_parameterValues b) (pb_enabledRuleIds b)
             (pb_enabledRails b) formal
           in check_that (issues = []) (''Policy '' @ po_id p @ '': '' @ js_join '' '' issues))),
       require_parameters (po_id p) b (case po_definition p of None \<Rightarrow> po_parameters p
         | Some d \<Rightarrow> activePolicyParameters d (pb_enabledRuleIds b) (pb_enabledRails b))])"

definition validateProgrammableBinding :: "PolicyBinding \<Rightarrow> ProgrammablePolicy \<Rightarrow> thrown + unit" where
  "validateProgrammableBinding b p =
    (let ruleIds = map flow_rule (pg_rail_bindings p);
         unknownRules = unknown_of ruleIds (pb_enabledRuleIds b);
         enabledRails = binding_rails b (map rb_rail_type (pg_rail_bindings p));
         outsideRails = filter (\<lambda>i. case List.find (\<lambda>rb. flow_rule rb = i) (pg_rail_bindings p) of
           None \<Rightarrow> False | Some rb \<Rightarrow> rb_rail_type rb \<noteq> [] \<and> rb_rail_type rb \<notin> set enabledRails) (pb_enabledRuleIds b)
     in checks
      [validateRuleOrder b ruleIds,
       check_that (unknownRules = []) (''Policy '' @ pg_policy_id p @ '' contains unknown enabled Rules: '' @
         js_join '', '' unknownRules @ ''.''),
       check_that (pb_enabledRuleIds b \<noteq> []) (''Policy '' @ pg_policy_id p @ '' must enable at least one Rule.''),
       check_that (outsideRails = []) (''Policy '' @ pg_policy_id p @ '' enables Rules outside its enabled Rails.''),
       require_parameters (pg_policy_id p) b (pg_parameter_schema p)])"

lemma checks_Cons_Inr [simp]: "checks (c # cs) = Inr () \<longleftrightarrow> c = Inr () \<and> checks cs = Inr ()"
  by (auto simp: and_then_eq_Inr)

declare checks.simps(2) [simp del]

lemma checks_Inr: "checks cs = Inr () \<longleftrightarrow> (\<forall>c \<in> set cs. c = Inr ())"
  by (induction cs) auto

lemma check_that_Inr [simp]: "check_that ok msg = Inr () \<longleftrightarrow> ok"
  by (simp add: check_that_def fail_def)

lemma unknown_of_Nil: "unknown_of ruleIds xs = [] \<longleftrightarrow> set xs \<subseteq> set ruleIds"
  by (auto simp: unknown_of_def filter_empty_conv)

lemma validateRuleOrder_Inr: "validateRuleOrder b ruleIds = Inr () \<longleftrightarrow>
    distinct (pb_ruleOrder b) \<and> set (pb_ruleOrder b) \<subseteq> set ruleIds \<and> fst ` set (pb_ruleActions b) \<subseteq> set ruleIds"
  by (simp add: validateRuleOrder_def unknown_of_Nil)

lemma require_parameters_Inr: "require_parameters pid b ps = Inr () \<longleftrightarrow>
    (\<forall>q \<in> set ps. pp_required q \<longrightarrow> parameter_given b q)"
  by (auto simp: require_parameters_def checks_Inr)

lemma topic_missing_Nil: "topicMissingParameters vals enabled = [] \<Longrightarrow> TOPIC_DENY_RULE \<in> set enabled \<Longrightarrow>
    topicLines (tv_denied (topicPolicyValues vals)) \<noteq> []"
  by (auto simp: topicMissingParameters_def issue_if_def split: if_splits)

text \<open>What acceptance of a binding means, independently of the order of the checks.\<close>

definition binding_closed :: "PolicyBinding \<Rightarrow> string list \<Rightarrow> bool" where
  "binding_closed b ruleIds \<longleftrightarrow> pb_enabledRuleIds b \<noteq> [] \<and> set (pb_enabledRuleIds b) \<subseteq> set ruleIds \<and>
    distinct (pb_ruleOrder b) \<and> set (pb_ruleOrder b) \<subseteq> set ruleIds \<and> fst ` set (pb_ruleActions b) \<subseteq> set ruleIds"

lemma catalog_binding_facts:
  assumes "validateCatalogBinding zm acts b p = Inr ()"
  shows "pb_policyVersion b = po_version p" "binding_closed b (map pr_id (po_rules p))"
    "\<forall>r \<in> set (binding_rails b (po_rails p)). r \<in> set (po_rails p) \<and> (r = ''input'' \<or> r = ''output'')"
    "\<exists>r \<in> set (po_rules p). pr_id r \<in> set (pb_enabledRuleIds b) \<and>
       set (pr_rails r) \<inter> set (binding_rails b (po_rails p)) \<noteq> {}"
    "po_definition p = None \<Longrightarrow> \<forall>q \<in> set (po_parameters p). pp_required q \<longrightarrow> parameter_given b q"
    "po_definition p = None \<Longrightarrow> isSplitTopicPolicy (pb_policyId b) (pb_policyVersion b) \<Longrightarrow>
       split_topic_checks b = Inr ()"
    "po_definition p = None \<Longrightarrow> po_id p = PHRASE_POLICY_ID \<Longrightarrow> \<exists>es. parsePhraseEntries zm acts
       (case map_of (pb_parameterValues b) PHRASE_PARAMETER of Some v \<Rightarrow> v | None \<Rightarrow> []) = Inr es"
  using assms unfolding validateCatalogBinding_def Let_def checks_Cons_Inr binding_closed_def
  by (simp_all add: validateRuleOrder_Inr unknown_of_Nil require_parameters_Inr list_all_iff list_ex_iff
      and_then_eq_Inr) blast+

lemma programmable_binding_facts:
  assumes "validateProgrammableBinding b p = Inr ()"
  shows "binding_closed b (map flow_rule (pg_rail_bindings p))"
    "\<forall>q \<in> set (pg_parameter_schema p). pp_required q \<longrightarrow> parameter_given b q"
  using assms unfolding validateProgrammableBinding_def Let_def checks_Cons_Inr binding_closed_def
  by (simp_all add: validateRuleOrder_Inr unknown_of_Nil require_parameters_Inr)

lemma those_length: "those xs = Some ys \<Longrightarrow> length ys = length xs"
  by (induction xs arbitrary: ys) (auto split: option.splits)

lemma phrase_entries_nonempty:
  "parsePhraseEntries zm acts v = Inr es \<Longrightarrow> es \<noteq> [] \<and> distinct (map ph_id es) \<and> length es \<le> 50"
  by (auto simp: parsePhraseEntries_def entriesSchema_def dest!: those_length split: option.splits json.splits if_splits)

text \<open>Claim C25. A binding accepted against a catalog Policy is closed under the pinned version: it
  pins that version, enables at least one Rule and only Rules of the Policy, orders and overrides
  only Rules of the Policy (each ordered once), stays on the Policy's input and output rails, and
  has an enabled Rule on an enabled rail. Without a definition of its own every required parameter
  is given; the split topic Policy cannot soften its denylist Rule and has something to deny when
  that Rule is enabled; the phrase Policy has between 1 and 50 entries with distinct ids.\<close>

theorem accepted_binding_closed:
  assumes "validateCatalogBinding zm acts b p = Inr ()"
  shows "pb_policyVersion b = po_version p \<and> binding_closed b (map pr_id (po_rules p)) \<and>
    (\<forall>r \<in> set (binding_rails b (po_rails p)). r \<in> set (po_rails p) \<and> (r = ''input'' \<or> r = ''output'')) \<and>
    (\<exists>r \<in> set (po_rules p). pr_id r \<in> set (pb_enabledRuleIds b) \<and>
       set (pr_rails r) \<inter> set (binding_rails b (po_rails p)) \<noteq> {}) \<and>
    (po_definition p = None \<longrightarrow>
      (\<forall>q \<in> set (po_parameters p). pp_required q \<longrightarrow> parameter_given b q) \<and>
      (isSplitTopicPolicy (pb_policyId b) (pb_policyVersion b) \<longrightarrow>
         map_of (pb_ruleActions b) TOPIC_DENY_RULE \<in> {None, Some [], Some ''block''} \<and>
         (TOPIC_DENY_RULE \<in> set (pb_enabledRuleIds b) \<longrightarrow>
            topicLines (tv_denied (topicPolicyValues (pb_parameterValues b))) \<noteq> [])) \<and>
      (po_id p = PHRASE_POLICY_ID \<longrightarrow> (\<exists>es. parsePhraseEntries zm acts
         (case map_of (pb_parameterValues b) PHRASE_PARAMETER of Some v \<Rightarrow> v | None \<Rightarrow> []) = Inr es \<and>
         es \<noteq> [] \<and> length es \<le> 50 \<and> distinct (map ph_id es))))"
proof -
  have "split_topic_checks b = Inr () \<Longrightarrow> map_of (pb_ruleActions b) TOPIC_DENY_RULE \<in> {None, Some [], Some ''block''} \<and>
      topicMissingParameters (pb_parameterValues b) (pb_enabledRuleIds b) = []"
    by (simp add: split_topic_checks_def Let_def)
  then have topic: "po_definition p = None \<Longrightarrow> isSplitTopicPolicy (pb_policyId b) (pb_policyVersion b) \<Longrightarrow>
      map_of (pb_ruleActions b) TOPIC_DENY_RULE \<in> {None, Some [], Some ''block''} \<and>
      (TOPIC_DENY_RULE \<in> set (pb_enabledRuleIds b) \<longrightarrow>
         topicLines (tv_denied (topicPolicyValues (pb_parameterValues b))) \<noteq> [])"
    using catalog_binding_facts(6) [OF assms] topic_missing_Nil by blast
  have phrases: "po_definition p = None \<Longrightarrow> po_id p = PHRASE_POLICY_ID \<Longrightarrow> \<exists>es. parsePhraseEntries zm acts
      (case map_of (pb_parameterValues b) PHRASE_PARAMETER of Some v \<Rightarrow> v | None \<Rightarrow> []) = Inr es \<and>
      es \<noteq> [] \<and> length es \<le> 50 \<and> distinct (map ph_id es)"
    using catalog_binding_facts(7) [OF assms] phrase_entries_nonempty by blast
  show ?thesis
    by (intro conjI impI catalog_binding_facts(1-5) [OF assms] topic [THEN conjunct1] topic [THEN conjunct2, rule_format] phrases)
qed

definition sample_policy :: PolicyDto where
  "sample_policy = \<lparr>po_id = ''business-topics'', po_version = ''1.0.0'', po_rails = [''input''],
     po_rules = [\<lparr>pr_id = TOPIC_DENY_RULE, pr_rails = [''input'']\<rparr>], po_parameters = [], po_definition = None\<rparr>"

definition sample_binding :: PolicyBinding where
  "sample_binding = \<lparr>pb_policyId = ''business-topics'', pb_policyVersion = ''1.0.0'', pb_action = None,
     pb_parameterValues = [(''denied_topics'', ''weapons'')], pb_enabledRuleIds = [TOPIC_DENY_RULE],
     pb_ruleOrder = [], pb_testCaseOverrides = [], pb_ruleActions = [(TOPIC_DENY_RULE, ''block'')],
     pb_enabledRails = [], pb_reasoningPolicy = None\<rparr>"

theorem accepted_binding_closed_witness:
  "binding_closed sample_binding (map pr_id (po_rules sample_policy))"
proof -
  have "validateCatalogBinding (\<lambda>_. []) [''block''] sample_binding sample_policy = Inr ()" by code_simp
  from accepted_binding_closed [OF this] show ?thesis by simp
qed

end
