(* ===== verification/Telemetry_Batches.thy ===== *)
theory Telemetry_Batches
  imports Js_Prelude
begin

text \<open>
  The bounded transactions that ingest telemetry:
  \<^verbatim>\<open>controller/server/services/telemetry-batches.ts\<close>. Each transaction commits a prefix of at
  most fifty events and stops early when its time is used up. The writer is an argument: what it does
  when a transaction is prepared, for one event, and at the end, each of which may throw; the clock is
  an arbitrary function from the number of a reading to its value, so nothing is assumed of it. The
  outer loop is a partial function whose value \<open>None\<close> is the run that never returns.
\<close>

section \<open>Transactions over a prefix\<close>

definition TELEMETRY_BATCH_SIZE :: nat where "TELEMETRY_BATCH_SIZE = 50"

definition TELEMETRY_TRANSACTION_TARGET_MS :: int where "TELEMETRY_TRANSACTION_TARGET_MS = 1000"

record ('e, 's) telemetry_writer =
  tw_prepare :: "'e list \<Rightarrow> 's \<Rightarrow> thrown + 's"
  tw_write :: "'e \<Rightarrow> 's \<Rightarrow> thrown + 's"
  tw_finish :: "'s \<Rightarrow> thrown + 's"

text \<open>The inner loop over the rest of the batch: the clock is only read once something is written.\<close>

fun write_prefix ::
  "(nat \<Rightarrow> int) \<Rightarrow> ('e, 's) telemetry_writer \<Rightarrow> int \<Rightarrow> 'e list \<Rightarrow> nat \<Rightarrow> nat \<Rightarrow> 's \<Rightarrow> thrown + nat \<times> nat \<times> 's" where
  "write_prefix clock w deadline [] written n s = Inr (written, n, s)"
| "write_prefix clock w deadline (e # es) written n s =
    (if written = 0 then and_then (tw_write w e s) (write_prefix clock w deadline es (Suc written) n)
     else if clock n < deadline
       then and_then (tw_write w e s) (write_prefix clock w deadline es (Suc written) (Suc n))
     else Inr (written, Suc n, s))"

definition telemetry_transaction ::
  "(nat \<Rightarrow> int) \<Rightarrow> ('e, 's) telemetry_writer \<Rightarrow> 'e list \<Rightarrow> nat \<Rightarrow> 's \<Rightarrow> thrown + nat \<times> nat \<times> 's" where
  "telemetry_transaction clock w batch n s =
    (let deadline = clock n + TELEMETRY_TRANSACTION_TARGET_MS in
     and_then (tw_prepare w batch s) (\<lambda>s1.
     and_then (write_prefix clock w deadline batch 0 (Suc n) s1) (\<lambda>r.
     and_then (tw_finish w (snd (snd r))) (\<lambda>s3. Inr (fst r, fst (snd r), s3)))))"

text \<open>The outer loop. It returns what was thrown, if anything, the sizes of the committed
  transactions and the committed state.\<close>

partial_function (option) telemetryBatches ::
  "(nat \<Rightarrow> int) \<Rightarrow> ('e, 's) telemetry_writer \<Rightarrow> 'e list \<Rightarrow> nat \<Rightarrow> nat \<Rightarrow> nat list \<Rightarrow> 's
     \<Rightarrow> (thrown option \<times> nat list \<times> 's) option" where
  [code]: "telemetryBatches clock w events offset n sizes s =
    (if offset < length events then
       (let r = telemetry_transaction clock w (take TELEMETRY_BATCH_SIZE (drop offset events)) n s in
        if isl r then Some (Some (projl r), sizes, s)
        else telemetryBatches clock w events (offset + fst (projr r)) (fst (snd (projr r)))
               (sizes @ [fst (projr r)]) (snd (snd (projr r))))
     else Some (None, sizes, s))"

section \<open>Watermarks\<close>

record watermark_row =
  wm_runnerId :: string
  wm_lastEventOccurredAt :: "int option"
  wm_lastReceivedAt :: int

definition watermark_add :: "string \<Rightarrow> int \<Rightarrow> (string \<times> int) list \<Rightarrow> (string \<times> int) list" where
  "watermark_add runnerId occurredAt newest =
    (case map_of newest runnerId of
       None \<Rightarrow> newest @ [(runnerId, occurredAt)]
     | Some t \<Rightarrow> if t < occurredAt then AList.update runnerId occurredAt newest else newest)"

text \<open>\<open>greatest\<close> of the database ignores a missing value.\<close>

definition sql_greatest :: "int option \<Rightarrow> int \<Rightarrow> int option" where
  "sql_greatest old new = (case old of None \<Rightarrow> Some new | Some t \<Rightarrow> Some (max t new))"

definition upsert_watermark :: "int \<Rightarrow> string \<times> int \<Rightarrow> watermark_row list \<Rightarrow> watermark_row list" where
  "upsert_watermark now entry rows =
    (if list_ex (\<lambda>r. wm_runnerId r = fst entry) rows
     then map (\<lambda>r. if wm_runnerId r = fst entry
            then r\<lparr>wm_lastEventOccurredAt := sql_greatest (wm_lastEventOccurredAt r) (snd entry),
                   wm_lastReceivedAt := now\<rparr> else r) rows
     else rows @ [\<lparr>wm_runnerId = fst entry, wm_lastEventOccurredAt = Some (snd entry), wm_lastReceivedAt = now\<rparr>])"

text \<open>The comparison of names is the runtime's collation, an argument; sorting is stable.\<close>

fun insert_by :: "('a \<Rightarrow> 'a \<Rightarrow> bool) \<Rightarrow> 'a \<Rightarrow> 'a list \<Rightarrow> 'a list" where
  "insert_by le x [] = [x]"
| "insert_by le x (y # ys) = (if le x y then x # y # ys else y # insert_by le x ys)"

definition stable_sort :: "('a \<Rightarrow> 'a \<Rightarrow> bool) \<Rightarrow> 'a list \<Rightarrow> 'a list" where
  "stable_sort le xs = foldr (insert_by le) xs []"

definition watermark_flush ::
  "(string \<Rightarrow> string \<Rightarrow> int) \<Rightarrow> int \<Rightarrow> (string \<times> int) list \<Rightarrow> watermark_row list \<Rightarrow> watermark_row list" where
  "watermark_flush localeCompare now newest rows =
    fold (upsert_watermark now) (stable_sort (\<lambda>a b. localeCompare (fst a) (fst b) \<le> 0) newest) rows"

section \<open>Progress and termination\<close>

lemma write_prefix_progress:
  assumes "write_prefix clock w deadline es written n s = Inr (written', n', s')"
  shows "written \<le> written'" "written' \<le> written + length es" "es \<noteq> [] \<Longrightarrow> written = 0 \<Longrightarrow> 0 < written'"
    "fold_result (tw_write w) (take (written' - written) es) s = Inr s'"
proof -
  have "written \<le> written' \<and> written' \<le> written + length es \<and> (es \<noteq> [] \<longrightarrow> written = 0 \<longrightarrow> 0 < written') \<and>
    fold_result (tw_write w) (take (written' - written) es) s = Inr s'"
    using assms
  proof (induction es arbitrary: written n s)
    case (Cons e es)
    show ?case
    proof (cases "written = 0 \<or> clock n < deadline")
      case True
      then obtain s1 m where s1: "tw_write w e s = Inr s1"
        "write_prefix clock w deadline es (Suc written) m s1 = Inr (written', n', s')"
        using Cons.prems by (auto simp: and_then_eq_Inr split: if_splits)
      have "written' - written = Suc (written' - Suc written)"
        using Cons.IH[OF s1(2)] by linarith
      then show ?thesis using Cons.IH[OF s1(2)] s1(1) by auto
    next
      case False
      then show ?thesis using Cons.prems by auto
    qed
  qed simp
  then show "written \<le> written'" "written' \<le> written + length es" "es \<noteq> [] \<Longrightarrow> written = 0 \<Longrightarrow> 0 < written'"
    "fold_result (tw_write w) (take (written' - written) es) s = Inr s'"
    by simp_all
qed

text \<open>What a transaction of a given size commits, and a sequence of them.\<close>

definition commit_chunk :: "('e, 's) telemetry_writer \<Rightarrow> 'e list \<Rightarrow> nat \<Rightarrow> 's \<Rightarrow> thrown + 's" where
  "commit_chunk w events k s =
    and_then (tw_prepare w (take TELEMETRY_BATCH_SIZE events) s) (\<lambda>s1.
    and_then (fold_result (tw_write w) (take k events) s1) (tw_finish w))"

fun commit_chunks :: "('e, 's) telemetry_writer \<Rightarrow> 'e list \<Rightarrow> nat list \<Rightarrow> 's \<Rightarrow> thrown + 's" where
  "commit_chunks w events [] s = Inr s"
| "commit_chunks w events (k # ks) s = and_then (commit_chunk w events k s) (commit_chunks w (drop k events) ks)"

lemma transaction_commits:
  assumes "telemetry_transaction clock w (take TELEMETRY_BATCH_SIZE events) n s = Inr (written, n', s')" "events \<noteq> []"
  shows "0 < written" "written \<le> TELEMETRY_BATCH_SIZE" "written \<le> length events" "commit_chunk w events written s = Inr s'"
proof -
  let ?b = "take TELEMETRY_BATCH_SIZE events"
  obtain s1 s2 where s1: "tw_prepare w ?b s = Inr s1"
    and wp: "write_prefix clock w (clock n + TELEMETRY_TRANSACTION_TARGET_MS) ?b 0 (Suc n) s1 = Inr (written, n', s2)"
    and fin: "tw_finish w s2 = Inr s'"
    using assms(1) by (auto simp: telemetry_transaction_def Let_def and_then_eq_Inr)
  note progress = write_prefix_progress[OF wp]
  have "?b \<noteq> []" using assms(2) by (simp add: TELEMETRY_BATCH_SIZE_def)
  then show "0 < written" using progress(3) by simp
  show "written \<le> TELEMETRY_BATCH_SIZE" "written \<le> length events" using progress(2) by simp_all
  then have "take written ?b = take written events" by (simp add: min_def)
  then show "commit_chunk w events written s = Inr s'"
    using s1 fin progress(4) by (simp add: commit_chunk_def)
qed

text \<open>The outcome of a run over the events that are left.\<close>

definition batches_outcome ::
  "('e, 's) telemetry_writer \<Rightarrow> 'e list \<Rightarrow> 's \<Rightarrow> thrown option \<times> nat list \<times> 's \<Rightarrow> bool" where
  "batches_outcome w events s r =
    (case r of (err, ks, s') \<Rightarrow>
      list_all (\<lambda>k. 0 < k \<and> k \<le> TELEMETRY_BATCH_SIZE) ks \<and> sum_list ks \<le> length events \<and>
      commit_chunks w events ks s = Inr s' \<and> (err = None \<longleftrightarrow> sum_list ks = length events))"

lemma batches_outcome_step:
  assumes "commit_chunk w events k s = Inr s1" "0 < k" "k \<le> TELEMETRY_BATCH_SIZE" "k \<le> length events"
    "batches_outcome w (drop k events) s1 (err, ks, s')"
  shows "batches_outcome w events s (err, k # ks, s')"
  using assms by (auto simp: batches_outcome_def)

lemma telemetryBatches_returns:
  "\<exists>err ks s'. telemetryBatches clock w events offset n sizes s = Some (err, sizes @ ks, s') \<and>
    batches_outcome w (drop offset events) s (err, ks, s')"
proof (induction "length events - offset" arbitrary: offset n sizes s rule: less_induct)
  case less
  show ?case
  proof (cases "offset < length events")
    case True
    let ?rest = "drop offset events"
    have ne: "?rest \<noteq> []" using True by simp
    show ?thesis
    proof (cases "telemetry_transaction clock w (take TELEMETRY_BATCH_SIZE ?rest) n s")
      case (Inl e)
      then show ?thesis
        using True by (intro exI[of _ "Some e"] exI[of _ "[]"] exI[of _ s])
          (simp add: telemetryBatches.simps batches_outcome_def)
    next
      case (Inr r)
      obtain k n' s1 where r: "r = (k, n', s1)" by (cases r)
      note commits = transaction_commits[OF Inr[unfolded r] ne]
      have "length events - (offset + k) < length events - offset"
        using True commits(1) by simp
      from less[OF this, of n' "sizes @ [k]" s1] obtain err ks s' where
        rec: "telemetryBatches clock w events (offset + k) n' (sizes @ [k]) s1 = Some (err, (sizes @ [k]) @ ks, s')"
        and out: "batches_outcome w (drop (offset + k) events) s1 (err, ks, s')"
        by blast
      have "batches_outcome w ?rest s (err, k # ks, s')"
        using batches_outcome_step[OF commits(4,1,2,3)] out by (simp add: add.commute)
      then show ?thesis
        using True Inr r rec
        by (intro exI[of _ err] exI[of _ "k # ks"] exI[of _ s']) (simp add: telemetryBatches.simps)
    qed
  next
    case False
    then show ?thesis
      by (intro exI[of _ None] exI[of _ "[]"] exI[of _ s]) (simp add: telemetryBatches.simps batches_outcome_def)
  qed
qed

section \<open>What ingestion guarantees\<close>

lemma length_le_sum_list: "list_all (\<lambda>k. 0 < (k::nat)) ks \<Longrightarrow> length ks \<le> sum_list ks"
  by (induction ks) auto

text \<open>Claim C29. Ingestion always returns, whatever the clock shows and whatever the writer does: after
  at most one transaction per event it ends with the committed transactions, each of one to fifty
  events. Replaying exactly those transactions in order (preparing, writing the events of each in
  order, finishing) gives the committed state, so every event before the end is written once and in
  order; nothing was thrown precisely when all events were written.\<close>

theorem ingestion_terminates:
  "\<exists>err sizes s'. telemetryBatches clock w events 0 n [] s = Some (err, sizes, s') \<and>
     length sizes \<le> length events \<and> list_all (\<lambda>k. 0 < k \<and> k \<le> 50) sizes \<and>
     commit_chunks w events sizes s = Inr s' \<and> (err = None \<longleftrightarrow> sum_list sizes = length events)"
proof -
  obtain err ks s' where run: "telemetryBatches clock w events 0 n [] s = Some (err, [] @ ks, s')"
    and out: "batches_outcome w (drop 0 events) s (err, ks, s')"
    using telemetryBatches_returns[of clock w events 0 n "[]" s] by blast
  have "length ks \<le> sum_list ks"
    using out by (intro length_le_sum_list) (auto simp: batches_outcome_def list_all_iff)
  then show ?thesis
    using run out by (intro exI[of _ err] exI[of _ ks] exI[of _ s'])
      (simp add: batches_outcome_def TELEMETRY_BATCH_SIZE_def)
qed

text \<open>Watermarks: the table keeps the newest event time of every Runner it has seen.\<close>

lemma map_of_watermark_add:
  "map_of (watermark_add r t newest) = (map_of newest)(r \<mapsto> (case map_of newest r of None \<Rightarrow> t | Some u \<Rightarrow> max u t))"
  by (auto simp: watermark_add_def update_conv' max_def map_add_def fun_eq_iff split: option.splits)

lemma set_insert_by [simp]: "set (insert_by le x ys) = insert x (set ys)"
  by (induction ys) auto

lemma set_stable_sort [simp]: "set (stable_sort le xs) = set xs"
  by (induction xs) (auto simp: stable_sort_def)

lemma length_insert_by [simp]: "length (insert_by le x ys) = Suc (length ys)"
  by (induction ys) auto

lemma length_stable_sort [simp]: "length (stable_sort le xs) = length xs"
  by (induction xs) (simp_all add: stable_sort_def)

definition seen_at_least :: "string \<Rightarrow> int \<Rightarrow> watermark_row list \<Rightarrow> bool" where
  "seen_at_least r t rows \<longleftrightarrow>
    (\<exists>row \<in> set rows. wm_runnerId row = r \<and> (\<exists>u \<ge> t. wm_lastEventOccurredAt row = Some u))"

lemma upsert_keeps: "seen_at_least r t rows \<Longrightarrow> seen_at_least r t (upsert_watermark now e rows)"
proof -
  assume "seen_at_least r t rows"
  then obtain row u where row: "row \<in> set rows" "wm_runnerId row = r" "t \<le> u" "wm_lastEventOccurredAt row = Some u"
    by (auto simp: seen_at_least_def)
  let ?f = "\<lambda>q. if wm_runnerId q = fst e then q\<lparr>wm_lastEventOccurredAt :=
      sql_greatest (wm_lastEventOccurredAt q) (snd e), wm_lastReceivedAt := now\<rparr> else q"
  have "wm_runnerId (?f row) = r \<and> (\<exists>v \<ge> t. wm_lastEventOccurredAt (?f row) = Some v)"
    using row by (auto simp: sql_greatest_def)
  moreover have "?f row \<in> set (upsert_watermark now e rows) \<or> row \<in> set (upsert_watermark now e rows)"
    using row(1) by (auto simp: upsert_watermark_def)
  ultimately show ?thesis
    using row unfolding seen_at_least_def by blast
qed

lemma upsert_covers: "seen_at_least (fst e) (snd e) (upsert_watermark now e rows)"
proof (cases "list_ex (\<lambda>r. wm_runnerId r = fst e) rows")
  case True
  then obtain row where row: "row \<in> set rows" "wm_runnerId row = fst e" by (auto simp: list_ex_iff)
  let ?row = "row\<lparr>wm_lastEventOccurredAt := sql_greatest (wm_lastEventOccurredAt row) (snd e), wm_lastReceivedAt := now\<rparr>"
  have "?row \<in> set (upsert_watermark now e rows)"
    using True row by (auto simp: upsert_watermark_def image_iff)
  moreover have "\<exists>u \<ge> snd e. sql_greatest (wm_lastEventOccurredAt row) (snd e) = Some u"
    by (auto simp: sql_greatest_def split: option.splits)
  ultimately show ?thesis
    using row(2) unfolding seen_at_least_def by (intro bexI[of _ ?row]) simp_all
qed (simp add: seen_at_least_def upsert_watermark_def)

lemma flush_keeps: "seen_at_least r t rows \<Longrightarrow> seen_at_least r t (fold (upsert_watermark now) es rows)"
  by (induction es arbitrary: rows) (simp_all add: upsert_keeps)

lemma flush_covers:
  assumes "e \<in> set es" shows "seen_at_least (fst e) (snd e) (fold (upsert_watermark now) es rows)"
  using assms
proof (induction es arbitrary: rows)
  case (Cons x es)
  have "seen_at_least (fst x) (snd x) (fold (upsert_watermark now) es (upsert_watermark now x rows))"
    by (rule flush_keeps[OF upsert_covers])
  then show ?case using Cons by auto
qed simp

text \<open>Flushing a batch leaves no watermark behind what it was or behind an event of the batch.\<close>

lemma watermarks_advance:
  assumes "seen_at_least r t rows \<or> (r, t) \<in> set newest"
  shows "seen_at_least r t (watermark_flush localeCompare now newest rows)"
  using assms flush_keeps flush_covers[of "(r, t)"] by (auto simp: watermark_flush_def)

end
