(* ===== verification/Endpoint_Credentials.thy ===== *)
theory Endpoint_Credentials
  imports Telemetry_Batches
begin

text \<open>
  The credentials of an Endpoint: \<^verbatim>\<open>controller/server/services/endpoint-credentials.ts\<close>. They
  are stored as JSON and read back defensively: entries that are not well-formed are ignored. Random
  bytes, identifiers, the digest, the collation of the runtime and the ellipsis of a key hint (a
  character above 255) are arguments; instants are their ISO texts.
\<close>

section \<open>Stored credentials\<close>

record StoredEndpointCredential =
  cr_id :: string
  cr_sha256 :: string
  cr_keyHint :: string
  cr_createdAt :: string
  cr_revokedAt :: "string option"

record PublicEndpointCredential =
  pc_id :: string
  pc_keyHint :: string
  pc_createdAt :: string

definition toPublicCredential :: "StoredEndpointCredential \<Rightarrow> PublicEndpointCredential" where
  "toPublicCredential c = \<lparr>pc_id = cr_id c, pc_keyHint = cr_keyHint c, pc_createdAt = cr_createdAt c\<rparr>"

text \<open>A property of a value: \<open>None\<close> when the value is not a plain object or has no such property.\<close>

fun json_member :: "json \<Rightarrow> string \<Rightarrow> json option" where
  "json_member (JObj members) key = map_of members key"
| "json_member _ key = None"

fun nonEmptyString :: "json option \<Rightarrow> string option" where
  "nonEmptyString (Some (JStr s)) = (if s = [] then None else Some s)"
| "nonEmptyString _ = None"

fun revocation :: "json option \<Rightarrow> string option option" where
  "revocation None = Some None"
| "revocation (Some JNull) = Some None"
| "revocation v = map_option Some (nonEmptyString v)"

definition structured_value :: "json \<Rightarrow> StoredEndpointCredential list" where
  "structured_value v =
    (case (nonEmptyString (json_member v ''id''), nonEmptyString (json_member v ''sha256''),
           nonEmptyString (json_member v ''keyHint''), nonEmptyString (json_member v ''createdAt''),
           revocation (json_member v ''revokedAt'')) of
       (Some i, Some h, Some k, Some t, Some r) \<Rightarrow>
         [\<lparr>cr_id = i, cr_sha256 = h, cr_keyHint = k, cr_createdAt = t, cr_revokedAt = r\<rparr>]
     | _ \<Rightarrow> [])"

fun structuredCredentials :: "json \<Rightarrow> StoredEndpointCredential list" where
  "structuredCredentials (JObj members) =
    (case map_of members ''credentials'' of
       Some (JArr values) \<Rightarrow> concat (map structured_value values) | _ \<Rightarrow> [])"
| "structuredCredentials _ = []"

text \<open>The JSON the operations store.\<close>

definition credential_json :: "StoredEndpointCredential \<Rightarrow> json" where
  "credential_json c = JObj [(''id'', JStr (cr_id c)), (''sha256'', JStr (cr_sha256 c)),
     (''keyHint'', JStr (cr_keyHint c)), (''createdAt'', JStr (cr_createdAt c)),
     (''revokedAt'', case cr_revokedAt c of None \<Rightarrow> JNull | Some t \<Rightarrow> JStr t)]"

definition verification_json :: "StoredEndpointCredential list \<Rightarrow> json" where
  "verification_json cs = JObj [(''credentials'', JArr (map credential_json cs))]"

section \<open>Operations\<close>

definition credentialHint :: "string \<Rightarrow> string \<Rightarrow> string" where
  "credentialHint ellipsis value = take 7 value @ ellipsis @ drop (length value - 4) value"

record issue_source =
  iss_random :: string
  iss_uuid :: string
  iss_now :: string
  iss_ellipsis :: string
  iss_sha256 :: "string \<Rightarrow> string"

definition issueEndpointCredential :: "issue_source \<Rightarrow> string \<times> StoredEndpointCredential" where
  "issueEndpointCredential src =
    (let value = ''tg_'' @ iss_random src in
     (value, \<lparr>cr_id = iss_uuid src, cr_sha256 = iss_sha256 src value,
        cr_keyHint = credentialHint (iss_ellipsis src) value, cr_createdAt = iss_now src, cr_revokedAt = None\<rparr>))"

definition activeEndpointCredentials ::
  "(string \<Rightarrow> string \<Rightarrow> int) \<Rightarrow> json \<Rightarrow> StoredEndpointCredential list" where
  "activeEndpointCredentials localeCompare verification =
    stable_sort (\<lambda>l r. localeCompare (cr_createdAt r) (cr_createdAt l) \<le> 0)
      (filter (\<lambda>c. cr_revokedAt c = None) (structuredCredentials verification))"

definition publicEndpointCredentials ::
  "(string \<Rightarrow> string \<Rightarrow> int) \<Rightarrow> json \<Rightarrow> PublicEndpointCredential list" where
  "publicEndpointCredentials localeCompare verification =
    map toPublicCredential (activeEndpointCredentials localeCompare verification)"

definition appendEndpointCredential :: "json \<Rightarrow> StoredEndpointCredential \<Rightarrow> json" where
  "appendEndpointCredential verification credential =
    verification_json (structuredCredentials verification @ [credential])"

definition revokes :: "string \<Rightarrow> StoredEndpointCredential \<Rightarrow> bool" where
  "revokes credentialId c \<longleftrightarrow> cr_id c = credentialId \<and> cr_revokedAt c = None"

definition revokeCredential :: "json \<Rightarrow> string \<Rightarrow> string \<Rightarrow> json option" where
  "revokeCredential verification credentialId now =
    (let cs = structuredCredentials verification in
     if list_ex (revokes credentialId) cs
     then Some (verification_json (map (\<lambda>c. if revokes credentialId c then c\<lparr>cr_revokedAt := Some now\<rparr> else c) cs))
     else None)"

section \<open>Round trip of the stored form\<close>

definition credential_ok :: "StoredEndpointCredential \<Rightarrow> bool" where
  "credential_ok c \<longleftrightarrow> cr_id c \<noteq> [] \<and> cr_sha256 c \<noteq> [] \<and> cr_keyHint c \<noteq> [] \<and> cr_createdAt c \<noteq> [] \<and>
    cr_revokedAt c \<noteq> Some []"

lemma structured_value_json: "credential_ok c \<Longrightarrow> structured_value (credential_json c) = [c]"
  by (cases "cr_revokedAt c") (auto simp: structured_value_def credential_json_def credential_ok_def)

lemma structured_json [simp]:
  "list_all credential_ok cs \<Longrightarrow> structuredCredentials (verification_json cs) = cs"
  by (induction cs) (simp_all add: verification_json_def structured_value_json)

lemma nonEmptyString_ok: "nonEmptyString v = Some s \<Longrightarrow> s \<noteq> []"
  by (induction v rule: nonEmptyString.induct) (auto split: if_splits)

lemma revocation_ok: "revocation v = Some r \<Longrightarrow> r \<noteq> Some []"
  by (induction v rule: revocation.induct) (auto split: if_splits)

lemma structured_value_ok: "c \<in> set (structured_value v) \<Longrightarrow> credential_ok c"
  by (auto simp: structured_value_def credential_ok_def split: option.splits
      dest: nonEmptyString_ok[OF sym] revocation_ok[OF sym])

lemma structured_ok [simp]: "list_all credential_ok (structuredCredentials v)"
  by (induction v rule: structuredCredentials.induct)
    (auto simp: list_all_iff structured_value_ok split: option.splits json.splits)

lemma structured_append:
  "credential_ok c \<Longrightarrow> structuredCredentials (appendEndpointCredential v c) = structuredCredentials v @ [c]"
  by (simp add: appendEndpointCredential_def)

lemma structured_revoked:
  assumes "revokeCredential v i now = Some v'" "now \<noteq> []"
  shows "structuredCredentials v' =
    map (\<lambda>c. if revokes i c then c\<lparr>cr_revokedAt := Some now\<rparr> else c) (structuredCredentials v)"
proof -
  have "list_all credential_ok (map (\<lambda>c. if revokes i c then c\<lparr>cr_revokedAt := Some now\<rparr> else c) (structuredCredentials v))"
    using structured_ok[of v] assms(2) by (auto simp: list_all_iff credential_ok_def)
  then show ?thesis using assms(1) by (auto simp: revokeCredential_def Let_def split: if_splits)
qed

lemma set_active [simp]:
  "set (activeEndpointCredentials lc v) = {c \<in> set (structuredCredentials v). cr_revokedAt c = None}"
  by (auto simp: activeEndpointCredentials_def)

lemma length_active [simp]:
  "length (activeEndpointCredentials lc v) = length (filter (\<lambda>c. cr_revokedAt c = None) (structuredCredentials v))"
  by (simp add: activeEndpointCredentials_def)

lemma issued_ok:
  assumes "iss_uuid src \<noteq> []" "iss_now src \<noteq> []" "\<And>v. iss_sha256 src v \<noteq> []"
  shows "credential_ok (snd (issueEndpointCredential src))"
  using assms by (simp add: issueEndpointCredential_def credential_ok_def credentialHint_def Let_def)

end
