(* ===== verification/Runner_Sessions.thy ===== *)
theory Runner_Sessions
  imports Project_Context Runner_Capacity
begin

text \<open>
  Registration of Runners, their control sessions and the serving grants issued to them:
  \<^verbatim>\<open>registerRunner\<close>, \<^verbatim>\<open>recordHeartbeat\<close>, \<^verbatim>\<open>disconnectRunner\<close>,
  \<^verbatim>\<open>markStaleRunnersOffline\<close>, \<^verbatim>\<open>updateRunnerPool\<close> and \<^verbatim>\<open>removeRunnerInstance\<close> of
  \<^verbatim>\<open>controller/server/services/control-plane.ts\<close>,
  \<^verbatim>\<open>controller/server/services/runner-control-sessions.ts\<close> and
  \<^verbatim>\<open>controller/server/services/runner-lease-ledger.ts\<close>. A table is the list of its rows; a
  transaction maps the tables to new ones or throws, which rolls it back. Clock readings are
  arguments. The main results: a grant is only issued to the live stream that accepted the current
  snapshot, and a stream that was superseded, disconnected or declared stale never becomes current
  again.
\<close>

section \<open>Tables\<close>

record runner_pool_row =
  pl_id :: string
  pl_projectId :: "string option"
  pl_groupId :: string
  pl_desiredReplicas :: int
  pl_safeRpsPerRunner :: rat
  pl_maxConcurrencyPerRunner :: rat

record epoch_row =
  ep_poolId :: string
  ep_epoch :: int
  ep_draining :: bool

record session_row =
  ss_id :: string
  ss_runnerId :: string
  ss_bootId :: string
  ss_poolId :: string
  ss_disconnectedAt :: "int option"
  ss_snapshotNonce :: "string option"
  ss_snapshotGeneration :: "int option"
  ss_snapshotModelRevisionId :: "string option"
  ss_snapshotEpoch :: "int option"
  ss_snapshotGroupId :: "string option"
  ss_snapshotDispatchedAt :: "int option"
  ss_snapshotAcknowledgedAt :: "int option"
  ss_snapshotAccepted :: bool

record runner_load =
  ld_inflight :: rat
  ld_maxConcurrency :: rat
  ld_queueDepth :: rat
  ld_cpuUtilization :: rat
  ld_memoryUtilization :: rat
  ld_requestsDelta :: rat
  ld_errorsDelta :: rat
  ld_timeoutsDelta :: rat
  ld_latencyP95Ms :: rat
  ld_observationIntervalMs :: "rat option"

record registration =
  rg_runnerId :: string
  rg_bootId :: string
  rg_poolId :: string
  rg_runnerVersion :: string
  rg_nemoVersion :: string
  rg_maxConcurrency :: rat
  rg_compilerCapable :: bool
  rg_labels :: "(string \<times> string) list"
  rg_appliedGeneration :: int

record instance_row =
  in_registration :: registration
  in_controlSessionId :: "string option"
  in_status :: RunnerStatus
  in_desiredGeneration :: int
  in_appliedGeneration :: int
  in_protectionGeneration :: int
  in_protectionRejectedGeneration :: int
  in_protectionError :: "string option"
  in_heartbeatSequence :: int
  in_load :: "runner_load option"
  in_connectedAt :: int
  in_lastHeartbeatAt :: int
  in_disconnectedAt :: "int option"

abbreviation in_runnerId :: "instance_row \<Rightarrow> string" where
  "in_runnerId r \<equiv> rg_runnerId (in_registration r)"

abbreviation in_bootId :: "instance_row \<Rightarrow> string" where
  "in_bootId r \<equiv> rg_bootId (in_registration r)"

abbreviation in_poolId :: "instance_row \<Rightarrow> string" where
  "in_poolId r \<equiv> rg_poolId (in_registration r)"

record grant_row =
  gr_poolId :: string
  gr_runnerId :: string
  gr_bootId :: string
  gr_nonce :: string
  gr_epoch :: int
  gr_generation :: int
  gr_durationMs :: int
  gr_uncertaintyMs :: int
  gr_snapshotNonce :: string
  gr_modelRevisionId :: string
  gr_controlSessionId :: string
  gr_issuedAt :: int
  gr_conservativeExpiresAt :: int

text \<open>\<open>generation\<close> is the desired generation of the singleton controller row, if that row exists;
  \<open>project_names\<close> lists the projects' names by id, \<open>audit\<close> the audit events written here.\<close>

record fleet_db =
  pools :: "runner_pool_row list"
  project_names :: "(string \<times> string) list"
  lease_epochs :: "epoch_row list"
  sessions :: "session_row list"
  runners :: "instance_row list"
  grants :: "grant_row list"
  generation :: "int option"
  audit :: "(string \<times> string \<times> string) list"

definition is_integer :: "rat \<Rightarrow> bool" where
  "is_integer x \<longleftrightarrow> of_int \<lfloor>x\<rfloor> = x"

section \<open>Runner names\<close>

definition runnerPoolName :: "string \<Rightarrow> string" where
  "runnerPoolName projectName = ''runner-'' @ projectName"

definition ordinal_digit :: "char \<Rightarrow> bool" where
  "ordinal_digit c = (let n = js_code c in 48 \<le> n \<and> n \<le> 57)"

definition ordinal_value :: "string \<Rightarrow> int" where
  "ordinal_value s = foldl (\<lambda>n c. 10 * n + int (js_code c - 48)) 0 s"

definition isRunnerName :: "string \<Rightarrow> string \<Rightarrow> bool" where
  "isRunnerName value projectName =
    (let pre = runnerPoolName projectName @ ''-'' in
     if \<not> js_startsWith value pre then False
     else let ordinal = drop (length pre) value in
       (ordinal = ''0'' \<or>
          ordinal \<noteq> [] \<and> list_all ordinal_digit ordinal \<and> hd ordinal \<noteq> CHR ''0'') \<and>
       ordinal_value ordinal \<le> 2147483647)"

section \<open>Registration, heartbeats and disconnection\<close>

definition find_pool :: "fleet_db \<Rightarrow> string \<Rightarrow> runner_pool_row option" where
  "find_pool db pid = List.find (\<lambda>p. pl_id p = pid) (pools db)"

definition find_instance :: "fleet_db \<Rightarrow> string \<Rightarrow> instance_row option" where
  "find_instance db rid = List.find (\<lambda>r. in_runnerId r = rid) (runners db)"

definition find_session :: "fleet_db \<Rightarrow> string \<Rightarrow> session_row option" where
  "find_session db sid = List.find (\<lambda>s. ss_id s = sid) (sessions db)"

definition close_session :: "int \<Rightarrow> string set \<Rightarrow> session_row \<Rightarrow> session_row" where
  "close_session now ids s = (if ss_id s \<in> ids then s\<lparr>ss_disconnectedAt := Some now\<rparr> else s)"

definition close_sessions :: "int \<Rightarrow> string set \<Rightarrow> fleet_db \<Rightarrow> fleet_db" where
  "close_sessions now ids db = db\<lparr>sessions := map (close_session now ids) (sessions db)\<rparr>"

definition new_session :: "string \<Rightarrow> registration \<Rightarrow> session_row" where
  "new_session sid input = \<lparr>ss_id = sid, ss_runnerId = rg_runnerId input, ss_bootId = rg_bootId input,
     ss_poolId = rg_poolId input, ss_disconnectedAt = None, ss_snapshotNonce = None,
     ss_snapshotGeneration = None, ss_snapshotModelRevisionId = None, ss_snapshotEpoch = None,
     ss_snapshotGroupId = None, ss_snapshotDispatchedAt = None, ss_snapshotAcknowledgedAt = None,
     ss_snapshotAccepted = False\<rparr>"

definition duplicate_key :: thrown where
  "duplicate_key = JsError ''duplicate key value violates unique constraint''"

definition open_session :: "string option \<Rightarrow> registration \<Rightarrow> fleet_db \<Rightarrow> thrown + fleet_db" where
  "open_session sid input db =
    (case sid of None \<Rightarrow> Inr db
     | Some s \<Rightarrow> if find_session db s \<noteq> None then Inl duplicate_key
        else Inr (db\<lparr>sessions := sessions db @ [new_session s input]\<rparr>))"

definition registered :: "int \<Rightarrow> int \<Rightarrow> registration \<Rightarrow> string option \<Rightarrow> runner_load option \<Rightarrow> instance_row" where
  "registered now desired input sid prior_load =
    \<lparr>in_registration = input, in_controlSessionId = sid,
     in_status = (if rg_appliedGeneration input = desired then Ready else Syncing),
     in_desiredGeneration = desired, in_appliedGeneration = rg_appliedGeneration input,
     in_protectionGeneration = 0, in_protectionRejectedGeneration = 0, in_protectionError = None,
     in_heartbeatSequence = 0, in_load = prior_load, in_connectedAt = now, in_lastHeartbeatAt = now,
     in_disconnectedAt = None\<rparr>"

definition upsert_instance :: "int \<Rightarrow> int \<Rightarrow> registration \<Rightarrow> string option \<Rightarrow> fleet_db \<Rightarrow> fleet_db" where
  "upsert_instance now desired input sid db =
    db\<lparr>runners :=
      (if find_instance db (rg_runnerId input) = None
       then runners db @ [registered now desired input sid None]
       else map (\<lambda>r. if in_runnerId r = rg_runnerId input
              then registered now desired input sid (in_load r) else r) (runners db))\<rparr>"

definition invalid_session_id :: "string option \<Rightarrow> bool" where
  "invalid_session_id sid = (case sid of None \<Rightarrow> False
     | Some s \<Rightarrow> s = [] \<or> s \<noteq> js_trim s \<or> length s > 256)"

definition pool_project_name :: "fleet_db \<Rightarrow> runner_pool_row \<Rightarrow> string option" where
  "pool_project_name db p =
    (if pl_id p = ''default'' then Some ''default''
     else Option.bind (pl_projectId p) (map_of (project_names db)))"

definition runner_name_error :: "string option \<Rightarrow> thrown" where
  "runner_name_error name = (case name of
     None \<Rightarrow> ValidationError ''Runner pool has no Project binding.'' []
   | Some n \<Rightarrow> if n = [] then ValidationError ''Runner pool has no Project binding.'' []
       else ValidationError (''Runner ID must be runner-'' @ n @ ''-<ordinal>, starting at 0.'') [])"

definition pool_unregistered :: thrown where
  "pool_unregistered = ValidationError
     ''Runner pool is not registered. An administrator must allocate it to a project group first.'' []"

definition pool_identity_conflict :: thrown where
  "pool_identity_conflict = ConflictError ''Runner ID is already registered to another pool.''
     ''runner_pool_identity_conflict'' []"

definition uninitialized :: thrown where
  "uninitialized = JsError ''Controller state is not initialized.''"

definition admit_registration :: "bool \<Rightarrow> registration \<Rightarrow> fleet_db \<Rightarrow> thrown + int" where
  "admit_registration poolTokens input db =
    (case find_pool db (rg_poolId input) of
       None \<Rightarrow> Inl pool_unregistered
     | Some p \<Rightarrow>
        if poolTokens \<and> (case find_instance db (rg_runnerId input) of None \<Rightarrow> False
             | Some r \<Rightarrow> in_poolId r \<noteq> rg_poolId input)
        then Inl pool_identity_conflict
        else (let name = pool_project_name db p in
          if (case name of None \<Rightarrow> True | Some n \<Rightarrow> n = [] \<or> \<not> isRunnerName (rg_runnerId input) n)
          then Inl (runner_name_error name)
          else (case generation db of None \<Rightarrow> Inl uninitialized | Some g \<Rightarrow> Inr g)))"

definition prior_sessions :: "registration \<Rightarrow> fleet_db \<Rightarrow> string set" where
  "prior_sessions input db =
    (case Option.bind (find_instance db (rg_runnerId input)) in_controlSessionId of
       None \<Rightarrow> {} | Some s \<Rightarrow> if s = [] then {} else {s})"

definition registerRunner ::
  "bool \<Rightarrow> int \<Rightarrow> registration \<Rightarrow> string option \<Rightarrow> fleet_db \<Rightarrow> thrown + int \<times> fleet_db" where
  "registerRunner poolTokens now input sid db =
    (if invalid_session_id sid
     then Inl (ValidationError ''Runner control session identity is invalid.'' [])
     else and_then (admit_registration poolTokens input db) (\<lambda>desired.
       and_then (open_session sid input (close_sessions now (prior_sessions input db) db)) (\<lambda>db1.
         Inr (desired, upsert_instance now desired input sid db1))))"

record heartbeat =
  hb_runnerId :: string
  hb_bootId :: string
  hb_sequence :: int
  hb_appliedGeneration :: int
  hb_load :: runner_load
  hb_controlSessionId :: "string option"

definition heartbeat_status :: "int \<Rightarrow> heartbeat \<Rightarrow> RunnerStatus" where
  "heartbeat_status desired input =
    (let l = hb_load input;
         pressure = max (max (if ld_maxConcurrency l > 0 then ld_inflight l / ld_maxConcurrency l else 0)
           (ld_cpuUtilization l)) (ld_memoryUtilization l)
     in if hb_appliedGeneration input \<noteq> desired then Syncing
        else if ld_queueDepth l > 10 \<or> pressure \<ge> 9 / 10 then Saturated
        else if pressure \<ge> 7 / 10 then Busy else Ready)"

definition heartbeat_hits :: "heartbeat \<Rightarrow> instance_row \<Rightarrow> bool" where
  "heartbeat_hits input r \<longleftrightarrow> in_runnerId r = hb_runnerId input \<and> in_bootId r = hb_bootId input \<and>
    in_controlSessionId r = hb_controlSessionId input \<and> in_disconnectedAt r = None \<and>
    in_heartbeatSequence r < hb_sequence input"

definition recordHeartbeat :: "int \<Rightarrow> heartbeat \<Rightarrow> fleet_db \<Rightarrow> thrown + bool \<times> fleet_db" where
  "recordHeartbeat now input db =
    (case generation db of None \<Rightarrow> Inl uninitialized
     | Some desired \<Rightarrow>
        Inr (list_ex (heartbeat_hits input) (runners db),
          db\<lparr>runners := map (\<lambda>r. if heartbeat_hits input r then
               r\<lparr>in_desiredGeneration := desired, in_appliedGeneration := hb_appliedGeneration input,
                 in_heartbeatSequence := hb_sequence input, in_load := Some (hb_load input),
                 in_status := heartbeat_status desired input, in_lastHeartbeatAt := now\<rparr>
               else r) (runners db)\<rparr>))"

text \<open>Taking Runners offline: the rows that satisfy the condition are updated and the sessions they
  name are closed, in one transaction.\<close>

definition take_offline :: "int \<Rightarrow> (instance_row \<Rightarrow> bool) \<Rightarrow> fleet_db \<Rightarrow> fleet_db" where
  "take_offline now hit db =
    (let ids = set (concat (map (\<lambda>r. case in_controlSessionId r of None \<Rightarrow> []
           | Some s \<Rightarrow> if s = [] then [] else [s]) (filter hit (runners db))))
     in close_sessions now ids (db\<lparr>runners := map (\<lambda>r. if hit r
          then r\<lparr>in_status := Offline, in_disconnectedAt := Some now\<rparr> else r) (runners db)\<rparr>))"

definition disconnectRunner :: "int \<Rightarrow> string \<Rightarrow> string \<Rightarrow> string option \<Rightarrow> fleet_db \<Rightarrow> fleet_db" where
  "disconnectRunner now runnerId bootId sid = take_offline now
     (\<lambda>r. in_runnerId r = runnerId \<and> in_bootId r = bootId \<and> in_controlSessionId r = sid)"

definition markStaleRunnersOffline :: "int \<Rightarrow> int \<Rightarrow> fleet_db \<Rightarrow> fleet_db" where
  "markStaleRunnersOffline offline_after now = take_offline now
     (\<lambda>r. in_lastHeartbeatAt r \<le> now - offline_after * 1000 \<and> in_status r \<noteq> Offline)"

definition updateRunnerPool ::
  "AuthorityContext option \<Rightarrow> string \<Rightarrow> rat \<Rightarrow> rat \<Rightarrow> rat \<Rightarrow> string \<Rightarrow> fleet_db \<Rightarrow> thrown + runner_pool_row \<times> fleet_db" where
  "updateRunnerPool ctx pid desired safeRps maxConcurrency actorId db =
    and_then (assertPlatformAuthority ctx) (\<lambda>_.
      if \<not> is_integer desired \<or> desired < 1
      then Inl (ValidationError ''Runner pools require at least one desired replica.''
        [(''minimumDesiredReplicas'', JNum 1)])
      else (let change = (\<lambda>p. p\<lparr>pl_desiredReplicas := \<lfloor>desired\<rfloor>, pl_safeRpsPerRunner := safeRps,
                 pl_maxConcurrencyPerRunner := maxConcurrency\<rparr>) in
        case find_pool db pid of None \<Rightarrow> Inl (NotFoundError ''Runner Pool'' pid)
        | Some p \<Rightarrow> Inr (change p,
            db\<lparr>pools := map (\<lambda>q. if pl_id q = pid then change q else q) (pools db),
               audit := audit db @ [(''runner_pool.capacity_updated'', pid, actorId)]\<rparr>)))"

fun status_name :: "RunnerStatus \<Rightarrow> string" where
  "status_name Syncing = ''syncing''"
| "status_name Ready = ''ready''"
| "status_name Busy = ''busy''"
| "status_name Saturated = ''saturated''"
| "status_name Offline = ''offline''"

definition removal_conflict :: "bool \<Rightarrow> instance_row \<Rightarrow> thrown" where
  "removal_conflict force r =
    (let detail = [(''runnerId'', JStr (in_runnerId r)), (''status'', JStr (status_name (in_status r)))] in
     if force then ConflictError
       ''Runner state or registration changed. Refresh before forcing removal; serving Runners cannot be removed.''
       ''runner_removal_conflict'' detail
     else ConflictError ''Only an offline Runner registration can be removed.''
       ''runner_not_offline'' detail)"

definition removable :: "string \<Rightarrow> bool \<Rightarrow> string option \<Rightarrow> instance_row \<Rightarrow> bool" where
  "removable runnerId force bootId r \<longleftrightarrow> in_runnerId r = runnerId \<and>
    in_status r \<in> (if force then {Offline, Syncing} else {Offline}) \<and>
    (case bootId of None \<Rightarrow> True | Some b \<Rightarrow> b = [] \<or> in_bootId r = b)"

definition removeRunnerInstance ::
  "AuthorityContext option \<Rightarrow> string \<Rightarrow> string \<Rightarrow> bool \<Rightarrow> string option \<Rightarrow> fleet_db \<Rightarrow> thrown + string \<times> fleet_db" where
  "removeRunnerInstance ctx runnerId actorId force bootId db =
    and_then (assertPlatformAuthority ctx) (\<lambda>_.
      if force \<and> (bootId = None \<or> bootId = Some [])
      then Inl (ValidationError ''Force removal requires the Runner boot ID.'' [])
      else (case List.find (removable runnerId force bootId) (runners db) of
        Some r \<Rightarrow> Inr (in_bootId r,
          db\<lparr>runners := filter (\<lambda>q. \<not> removable runnerId force bootId q) (runners db),
             audit := audit db @ [(''runner_instance.removed'', in_runnerId r, actorId)]\<rparr>)
      | None \<Rightarrow> (case find_instance db runnerId of
          None \<Rightarrow> Inl (NotFoundError ''Runner'' runnerId)
        | Some r \<Rightarrow> Inl (removal_conflict force r))))"

text \<open>The capacity the fleet view shows for a pool: the rows of its Runners, with the last reported
  load or the defaults for a Runner that has not reported one, fed to the capacity policy.\<close>

definition ratio :: "rat \<Rightarrow> rat \<Rightarrow> rat" where
  "ratio numerator denominator = (if denominator > 0 then numerator / denominator else 0)"

definition capacity_input :: "rat \<Rightarrow> instance_row \<Rightarrow> RunnerCapacityInput" where
  "capacity_input heartbeatIntervalSeconds r =
    (let ld = (\<lambda>f d. case in_load r of None \<Rightarrow> d | Some l \<Rightarrow> f l);
         interval = (case Option.bind (in_load r) ld_observationIntervalMs of
           None \<Rightarrow> heartbeatIntervalSeconds * 1000 | Some ms \<Rightarrow> ms)
     in \<lparr>rc_status = status_name (in_status r), rc_inflight = ld ld_inflight 0,
         rc_maxConcurrency = ld ld_maxConcurrency (rg_maxConcurrency (in_registration r)),
         rc_queueDepth = ld ld_queueDepth 0, rc_cpuUtilization = ld ld_cpuUtilization 0,
         rc_memoryUtilization = ld ld_memoryUtilization 0,
         rc_requestsPerSecond = ld ld_requestsDelta 0 / max (1 / 1000) (interval / 1000),
         rc_errorRate = ratio (ld ld_errorsDelta 0 + ld ld_timeoutsDelta 0) (ld ld_requestsDelta 0),
         rc_latencyP95Ms = ld ld_latencyP95Ms 0\<rparr>)"

definition pool_capacity_view :: "rat \<Rightarrow> fleet_db \<Rightarrow> runner_pool_row \<Rightarrow> PoolCapacity" where
  "pool_capacity_view heartbeatIntervalSeconds db p =
    calculatePoolCapacity
      (map (capacity_input heartbeatIntervalSeconds) (filter (\<lambda>r. in_poolId r = pl_id p) (runners db)))
      (pl_safeRpsPerRunner p) None (5 / 4) 1"

lemma serving_status_name: "serving_status (status_name st) \<longleftrightarrow> st \<notin> {Syncing, Offline}"
  by (cases st) (simp_all add: serving_status_def)

lemma pool_view_offline:
  "capacity_status (pool_capacity_view hb db p) = CapOffline \<longleftrightarrow>
    (\<forall>r \<in> set (runners db). in_poolId r = pl_id p \<longrightarrow> in_status r \<in> {Syncing, Offline})"
proof -
  have "rc_status (capacity_input hb r) = status_name (in_status r)" for r
    by (simp add: capacity_input_def Let_def)
  then show ?thesis
    by (auto simp: pool_capacity_view_def calculatePoolCapacity_def capacity_fields pool_status_def
        ready_runners_def filter_empty_conv serving_status_name)
qed

section \<open>Control sessions\<close>

record ControlSessionIdentity =
  ci_sessionId :: string
  ci_runnerId :: string
  ci_bootId :: string
  ci_poolId :: string

record ControlSnapshotIdentity = ControlSessionIdentity +
  ci_nonce :: string
  ci_generation :: int
  ci_modelRevisionId :: string

text \<open>The two row conditions every query of the store repeats: the Runner row names this live
  stream, and the session row carries the same identity and is not disconnected.\<close>

definition instance_matches :: "'a ControlSessionIdentity_scheme \<Rightarrow> instance_row \<Rightarrow> bool" where
  "instance_matches ident r \<longleftrightarrow> in_runnerId r = ci_runnerId ident \<and> in_bootId r = ci_bootId ident \<and>
    in_poolId r = ci_poolId ident \<and> in_controlSessionId r = Some (ci_sessionId ident) \<and>
    in_disconnectedAt r = None \<and> in_status r \<noteq> Offline"

definition session_matches :: "'a ControlSessionIdentity_scheme \<Rightarrow> session_row \<Rightarrow> bool" where
  "session_matches ident s \<longleftrightarrow> ss_id s = ci_sessionId ident \<and> ss_runnerId s = ci_runnerId ident \<and>
    ss_bootId s = ci_bootId ident \<and> ss_poolId s = ci_poolId ident \<and> ss_disconnectedAt s = None"

definition isCurrent :: "'a ControlSessionIdentity_scheme \<Rightarrow> fleet_db \<Rightarrow> bool" where
  "isCurrent ident db \<longleftrightarrow>
    list_ex (\<lambda>r. instance_matches ident r \<and> list_ex (session_matches ident) (sessions db)) (runners db)"

text \<open>The inner join of Runner and pool: the group of the pool the Runner is allocated to.\<close>

definition current_group :: "'a ControlSessionIdentity_scheme \<Rightarrow> fleet_db \<Rightarrow> string option" where
  "current_group ident db =
    (if list_ex (instance_matches ident) (runners db)
     then map_option pl_groupId (find_pool db (ci_poolId ident)) else None)"

definition find_epoch :: "fleet_db \<Rightarrow> string \<Rightarrow> epoch_row option" where
  "find_epoch db pid = List.find (\<lambda>e. ep_poolId e = pid) (lease_epochs db)"

definition ensure_epoch :: "string \<Rightarrow> fleet_db \<Rightarrow> fleet_db" where
  "ensure_epoch pid db = (if find_epoch db pid \<noteq> None then db
     else db\<lparr>lease_epochs := lease_epochs db @ [\<lparr>ep_poolId = pid, ep_epoch = 0, ep_draining = False\<rparr>]\<rparr>)"

definition dispatch_snapshot :: "int \<Rightarrow> ControlSnapshotIdentity \<Rightarrow> int \<Rightarrow> string \<Rightarrow> session_row \<Rightarrow> session_row" where
  "dispatch_snapshot now input epoch gid s =
    (if session_matches input s
     then s\<lparr>ss_snapshotNonce := Some (ci_nonce input), ss_snapshotGeneration := Some (ci_generation input),
        ss_snapshotModelRevisionId := Some (ci_modelRevisionId input), ss_snapshotEpoch := Some epoch,
        ss_snapshotGroupId := Some gid, ss_snapshotDispatchedAt := Some now,
        ss_snapshotAcknowledgedAt := None, ss_snapshotAccepted := False\<rparr>
     else s)"

definition dispatchedAllocation ::
  "int \<Rightarrow> ControlSnapshotIdentity \<Rightarrow> fleet_db \<Rightarrow> (int \<times> string) option \<times> fleet_db" where
  "dispatchedAllocation now input db =
    (case current_group input db of
       None \<Rightarrow> (None, db)
     | Some gid \<Rightarrow>
        if generation db \<noteq> Some (ci_generation input) then (None, db)
        else (let db1 = ensure_epoch (ci_poolId input) db;
                  epoch = (case find_epoch db1 (ci_poolId input) of Some e \<Rightarrow> ep_epoch e | None \<Rightarrow> 0);
                  hits = length (filter (session_matches input) (sessions db1))
              in (if hits = 1 then Some (epoch, gid) else None,
                  db1\<lparr>sessions := map (dispatch_snapshot now input epoch gid) (sessions db1)\<rparr>)))"

definition dispatched :: "int \<Rightarrow> ControlSnapshotIdentity \<Rightarrow> fleet_db \<Rightarrow> bool \<times> fleet_db" where
  "dispatched now input db =
    (let (r, db') = dispatchedAllocation now input db in (r \<noteq> None, db'))"

definition awaiting_ack :: "ControlSnapshotIdentity \<Rightarrow> int \<Rightarrow> string \<Rightarrow> session_row \<Rightarrow> bool" where
  "awaiting_ack input epoch gid s \<longleftrightarrow> session_matches input s \<and>
    ss_snapshotNonce s = Some (ci_nonce input) \<and> ss_snapshotGeneration s = Some (ci_generation input) \<and>
    ss_snapshotModelRevisionId s = Some (ci_modelRevisionId input) \<and> ss_snapshotEpoch s = Some epoch \<and>
    ss_snapshotGroupId s = Some gid \<and> ss_snapshotAcknowledgedAt s = None"

definition acknowledged :: "int \<Rightarrow> ControlSnapshotIdentity \<Rightarrow> bool \<Rightarrow> fleet_db \<Rightarrow> bool \<times> fleet_db" where
  "acknowledged now input accepted db =
    (case (current_group input db, find_epoch db (ci_poolId input), generation db) of
       (Some gid, Some e, Some g) \<Rightarrow>
         if g \<noteq> ci_generation input then (False, db)
         else (length (filter (awaiting_ack input (ep_epoch e) gid) (sessions db)) = 1,
           db\<lparr>sessions := map (\<lambda>s. if awaiting_ack input (ep_epoch e) gid s
             then s\<lparr>ss_snapshotAcknowledgedAt := Some now, ss_snapshotAccepted := accepted\<rparr> else s)
             (sessions db)\<rparr>)
     | _ \<Rightarrow> (False, db))"

section \<open>The lease ledger\<close>

record SnapshotBoundGrant =
  sg_poolId :: string
  sg_runnerId :: string
  sg_bootId :: string
  sg_nonce :: string
  sg_epoch :: rat
  sg_generation :: rat
  sg_durationMs :: rat
  sg_uncertaintyMs :: rat
  sg_snapshotNonce :: string
  sg_modelRevisionId :: string
  sg_controlSessionId :: string

definition MAX_DURATION_MS :: rat where
  "MAX_DURATION_MS = 60000"

definition MAX_UNCERTAINTY_MS :: rat where
  "MAX_UNCERTAINTY_MS = 60000"

definition validateId :: "string \<Rightarrow> thrown + unit" where
  "validateId v = (if v = [] \<or> length v > 256 \<or> v \<noteq> js_trim v
     then Inl (ValidationError ''Runner lease identities must be nonempty strings of at most 256 characters.'' [])
     else Inr ())"

definition is_safe_integer :: "rat \<Rightarrow> bool" where
  "is_safe_integer x \<longleftrightarrow> is_integer x \<and> \<bar>x\<bar> \<le> 9007199254740991"

definition validateCounter :: "rat \<Rightarrow> thrown + unit" where
  "validateCounter v = (if \<not> is_safe_integer v \<or> v < 0
     then Inl (ValidationError ''Runner lease epoch and generation must be nonnegative safe integers.'' [])
     else Inr ())"

definition validate_grant :: "SnapshotBoundGrant \<Rightarrow> thrown + unit" where
  "validate_grant input =
    and_then (fold_result (\<lambda>v _. validateId v)
      [sg_poolId input, sg_runnerId input, sg_bootId input, sg_nonce input] ()) (\<lambda>_.
    and_then (validateCounter (sg_epoch input)) (\<lambda>_.
    and_then (validateCounter (sg_generation input)) (\<lambda>_.
      if \<not> is_integer (sg_durationMs input) \<or> sg_durationMs input < 1 \<or> sg_durationMs input > MAX_DURATION_MS \<or>
         \<not> is_integer (sg_uncertaintyMs input) \<or> sg_uncertaintyMs input < 0 \<or>
         sg_uncertaintyMs input > MAX_UNCERTAINTY_MS
      then Inl (ValidationError ''Runner lease duration and uncertainty must be bounded integer milliseconds.'' [])
      else Inr ())))"

definition poolState :: "string \<Rightarrow> fleet_db \<Rightarrow> thrown + epoch_row \<times> fleet_db" where
  "poolState pid db = (case find_pool db pid of
     None \<Rightarrow> Inl (NotFoundError ''Runner Pool'' pid)
   | Some _ \<Rightarrow> (let db1 = ensure_epoch pid db in
       case find_epoch db1 pid of
         None \<Rightarrow> Inl (JsError ''Runner pool lease state is unavailable.'')
       | Some e \<Rightarrow> Inr (e, db1)))"

definition grant_identity :: "SnapshotBoundGrant \<Rightarrow> ControlSessionIdentity" where
  "grant_identity input = \<lparr>ci_sessionId = sg_controlSessionId input, ci_runnerId = sg_runnerId input,
     ci_bootId = sg_bootId input, ci_poolId = sg_poolId input\<rparr>"

definition snapshot_accepted :: "SnapshotBoundGrant \<Rightarrow> string \<Rightarrow> session_row \<Rightarrow> bool" where
  "snapshot_accepted input gid s \<longleftrightarrow> session_matches (grant_identity input) s \<and>
    ss_snapshotNonce s = Some (sg_snapshotNonce input) \<and>
    map_option of_int (ss_snapshotGeneration s) = Some (sg_generation input) \<and>
    ss_snapshotModelRevisionId s = Some (sg_modelRevisionId input) \<and>
    map_option of_int (ss_snapshotEpoch s) = Some (sg_epoch input) \<and>
    ss_snapshotGroupId s = Some gid \<and> ss_snapshotAccepted s \<and> ss_snapshotAcknowledgedAt s \<noteq> None"

definition registration_current :: "SnapshotBoundGrant \<Rightarrow> fleet_db \<Rightarrow> bool" where
  "registration_current input db = (case current_group (grant_identity input) db of
     None \<Rightarrow> False | Some gid \<Rightarrow> list_ex (snapshot_accepted input gid) (sessions db))"

definition same_challenge :: "SnapshotBoundGrant \<Rightarrow> grant_row \<Rightarrow> bool" where
  "same_challenge input g \<longleftrightarrow> gr_poolId g = sg_poolId input \<and> gr_runnerId g = sg_runnerId input \<and>
    gr_bootId g = sg_bootId input \<and> gr_nonce g = sg_nonce input"

definition grant_of :: "int \<Rightarrow> int \<Rightarrow> SnapshotBoundGrant \<Rightarrow> grant_row" where
  "grant_of now later input = \<lparr>gr_poolId = sg_poolId input, gr_runnerId = sg_runnerId input,
     gr_bootId = sg_bootId input, gr_nonce = sg_nonce input, gr_epoch = \<lfloor>sg_epoch input\<rfloor>,
     gr_generation = \<lfloor>sg_generation input\<rfloor>, gr_durationMs = \<lfloor>sg_durationMs input\<rfloor>,
     gr_uncertaintyMs = \<lfloor>sg_uncertaintyMs input\<rfloor>, gr_snapshotNonce = sg_snapshotNonce input,
     gr_modelRevisionId = sg_modelRevisionId input, gr_controlSessionId = sg_controlSessionId input,
     gr_issuedAt = now,
     gr_conservativeExpiresAt = later + \<lfloor>sg_durationMs input + sg_uncertaintyMs input\<rfloor>\<rparr>"

definition validate_snapshot_grant :: "SnapshotBoundGrant \<Rightarrow> thrown + unit" where
  "validate_snapshot_grant input =
    and_then (validateId (sg_controlSessionId input)) (\<lambda>_.
    and_then (validateId (sg_snapshotNonce input)) (\<lambda>_.
      if length (sg_modelRevisionId input) > 256 \<or> sg_modelRevisionId input \<noteq> js_trim (sg_modelRevisionId input)
      then Inl (ValidationError ''Runner lease model revision is invalid.'' [])
      else validate_grant input))"

definition epoch_unavailable :: thrown where
  "epoch_unavailable = ConflictError ''Runner pool is draining or has a different lease epoch.''
     ''runner_lease_epoch_unavailable'' []"

definition snapshot_unavailable :: thrown where
  "snapshot_unavailable = ConflictError ''Runner registration or snapshot generation is no longer current.''
     ''runner_lease_snapshot_unavailable'' []"

definition challenge_conflict :: thrown where
  "challenge_conflict = ConflictError ''Runner lease challenge was already used.''
     ''runner_lease_challenge_conflict'' []"

text \<open>The clock is read once for the issue time and once for the expiry.\<close>

definition issueSnapshotBound ::
  "int \<Rightarrow> int \<Rightarrow> SnapshotBoundGrant \<Rightarrow> fleet_db \<Rightarrow> thrown + grant_row \<times> fleet_db" where
  "issueSnapshotBound now later input db =
    and_then (validate_snapshot_grant input) (\<lambda>_.
    and_then (poolState (sg_poolId input) db) (\<lambda>(state, db1).
      if ep_draining state \<or> of_int (ep_epoch state) \<noteq> sg_epoch input then Inl epoch_unavailable
      else if \<not> registration_current input db1 \<or> map_option of_int (generation db1) \<noteq> Some (sg_generation input)
      then Inl snapshot_unavailable
      else if list_ex (same_challenge input) (grants db1) then Inl challenge_conflict
      else (let g = grant_of now later input in Inr (g, db1\<lparr>grants := grants db1 @ [g]\<rparr>))))"

section \<open>The fleet as a transition system\<close>

text \<open>Every writer of the modelled tables is a step. The services that allocate pools and publish
  configuration write the pool and project tables and only ever raise the desired generation.\<close>

definition generation_at_least :: "int \<Rightarrow> fleet_db \<Rightarrow> bool" where
  "generation_at_least k db = (case generation db of None \<Rightarrow> False | Some g \<Rightarrow> k \<le> g)"

inductive fleet_step :: "fleet_db \<Rightarrow> fleet_db \<Rightarrow> bool" where
  st_register: "registerRunner tok now input sid db = Inr (g, db') \<Longrightarrow> fleet_step db db'"
| st_heartbeat: "recordHeartbeat now hb db = Inr (b, db') \<Longrightarrow> fleet_step db db'"
| st_disconnect: "fleet_step db (disconnectRunner now rid bid sid db)"
| st_stale: "fleet_step db (markStaleRunnersOffline after now db)"
| st_pool: "updateRunnerPool ctx pid desired safe conc actor db = Inr (p, db') \<Longrightarrow> fleet_step db db'"
| st_remove: "removeRunnerInstance ctx rid actor force bid db = Inr (b, db') \<Longrightarrow> fleet_step db db'"
| st_dispatch: "dispatchedAllocation now ident db = (a, db') \<Longrightarrow> fleet_step db db'"
| st_ack: "acknowledged now ident ok db = (b, db') \<Longrightarrow> fleet_step db db'"
| st_issue: "issueSnapshotBound now later req db = Inr (gr, db') \<Longrightarrow> fleet_step db db'"
| st_other: "generation db = None \<or> generation_at_least (the (generation db)) db' \<Longrightarrow>
    db' = db\<lparr>pools := ps, project_names := ns, generation := gn\<rparr> \<Longrightarrow> fleet_step db db'"

definition fleet_init :: "fleet_db \<Rightarrow> bool" where
  "fleet_init db \<longleftrightarrow> sessions db = [] \<and> runners db = [] \<and> grants db = [] \<and> lease_epochs db = []"

definition session_key :: "session_row \<Rightarrow> string \<times> string \<times> string \<times> string" where
  "session_key s = (ss_id s, ss_runnerId s, ss_bootId s, ss_poolId s)"

definition grant_key :: "grant_row \<Rightarrow> string \<times> string \<times> string \<times> string" where
  "grant_key g = (gr_poolId g, gr_runnerId g, gr_bootId g, gr_nonce g)"

definition runner_ok :: "fleet_db \<Rightarrow> instance_row \<Rightarrow> bool" where
  "runner_ok db r \<longleftrightarrow> (in_status r = Offline \<longrightarrow> in_disconnectedAt r \<noteq> None) \<and>
    (\<forall>sid. in_controlSessionId r = Some sid \<longrightarrow>
       (sid, in_runnerId r, in_bootId r, in_poolId r) \<in> session_key ` set (sessions db))"

definition session_ok :: "fleet_db \<Rightarrow> session_row \<Rightarrow> bool" where
  "session_ok db s \<longleftrightarrow> (ss_snapshotAccepted s \<longrightarrow> ss_snapshotAcknowledgedAt s \<noteq> None) \<and>
    (ss_snapshotAcknowledgedAt s \<noteq> None \<longrightarrow> ss_snapshotNonce s \<noteq> None) \<and>
    (ss_snapshotNonce s \<noteq> None \<longrightarrow> ss_snapshotDispatchedAt s \<noteq> None \<and> ss_snapshotEpoch s \<noteq> None) \<and>
    (\<forall>k. ss_snapshotGeneration s = Some k \<longrightarrow> generation_at_least k db)"

definition grant_ok :: "fleet_db \<Rightarrow> grant_row \<Rightarrow> bool" where
  "grant_ok db g \<longleftrightarrow> 1 \<le> gr_durationMs g \<and> gr_durationMs g \<le> 60000 \<and> 0 \<le> gr_uncertaintyMs g \<and>
    gr_uncertaintyMs g \<le> 60000 \<and> generation_at_least (gr_generation g) db \<and>
    (gr_controlSessionId g, gr_runnerId g, gr_bootId g, gr_poolId g) \<in> session_key ` set (sessions db)"

definition fleet_inv :: "fleet_db \<Rightarrow> bool" where
  "fleet_inv db \<longleftrightarrow> distinct (map in_runnerId (runners db)) \<and> distinct (map ss_id (sessions db)) \<and>
    distinct (map grant_key (grants db)) \<and> (\<forall>r \<in> set (runners db). runner_ok db r) \<and>
    (\<forall>s \<in> set (sessions db). session_ok db s) \<and> (\<forall>g \<in> set (grants db). grant_ok db g)"

text \<open>What the invariant reads of the database: a step that keeps the session keys and the
  generation keeps every row condition of the tables it does not write.\<close>

lemma ok_transfer:
  assumes "session_key ` set (sessions db) \<subseteq> session_key ` set (sessions db')"
    and "generation db' = generation db"
  shows "runner_ok db r \<Longrightarrow> runner_ok db' r"
    and "session_ok db s \<Longrightarrow> session_ok db' s"
    and "grant_ok db g \<Longrightarrow> grant_ok db' g"
  using assms by (auto simp: runner_ok_def session_ok_def grant_ok_def generation_at_least_def)

lemma find_instance_None: "find_instance db rid = None \<longleftrightarrow> rid \<notin> in_runnerId ` set (runners db)"
  by (auto simp: find_instance_def find_None_iff)

lemma find_session_None: "find_session db sid = None \<longleftrightarrow> sid \<notin> ss_id ` set (sessions db)"
  by (auto simp: find_session_def find_None_iff)

lemma session_key_close [simp]: "session_key (close_session now ids s) = session_key s"
  by (simp add: close_session_def session_key_def)

lemma ss_id_close [simp]: "ss_id (close_session now ids s) = ss_id s"
  by (simp add: close_session_def)

lemma session_ok_close [simp]: "session_ok db (close_session now ids s) = session_ok db s"
  by (simp add: close_session_def session_ok_def)

lemma close_sessions_fields [simp]:
  "runners (close_sessions now ids db) = runners db" "grants (close_sessions now ids db) = grants db"
  "generation (close_sessions now ids db) = generation db"
  "sessions (close_sessions now ids db) = map (close_session now ids) (sessions db)"
  by (simp_all add: close_sessions_def)

lemma keys_closed [simp]:
  "session_key ` set (map (close_session now ids) ss) = session_key ` set ss"
  by (auto simp: image_image)

lemma map_ss_id_closed [simp]: "map (ss_id \<circ> close_session now ids) ss = map ss_id ss"
  by simp

lemma inv_close_sessions: "fleet_inv db \<Longrightarrow> fleet_inv (close_sessions now ids db)"
proof -
  have "session_key ` set (sessions db) \<subseteq> session_key ` set (sessions (close_sessions now ids db))"
    unfolding close_sessions_fields keys_closed by (rule subset_refl)
  from ok_transfer [OF this] show "fleet_inv db \<Longrightarrow> fleet_inv (close_sessions now ids db)"
    by (simp add: fleet_inv_def)
qed

lemma inv_open_session:
  assumes "fleet_inv db" and op: "open_session sid input db = Inr db1"
  shows "fleet_inv db1"
proof (cases sid)
  case None
  with assms show ?thesis by (simp add: open_session_def)
next
  case (Some x)
  then have db1: "db1 = db\<lparr>sessions := sessions db @ [new_session x input]\<rparr>"
    and new: "x \<notin> ss_id ` set (sessions db)"
    using op by (auto simp: open_session_def find_session_None split: if_splits)
  have "session_key ` set (sessions db) \<subseteq> session_key ` set (sessions db1)" by (auto simp: db1)
  moreover have "generation db1 = generation db" by (simp add: db1)
  moreover have "session_ok db1 (new_session x input)" by (simp add: session_ok_def new_session_def)
  moreover have "ss_id (new_session x input) = x" by (simp add: new_session_def)
  ultimately show ?thesis
    using assms(1) new ok_transfer [of db db1] by (auto simp: fleet_inv_def db1)
qed

lemma inv_upsert:
  assumes inv: "fleet_inv db"
    and key: "\<And>x. sid = Some x \<Longrightarrow>
      (x, rg_runnerId input, rg_bootId input, rg_poolId input) \<in> session_key ` set (sessions db)"
  shows "fleet_inv (upsert_instance now g input sid db)"
proof -
  let ?db = "upsert_instance now g input sid db"
  have f: "sessions ?db = sessions db" "grants ?db = grants db" "generation ?db = generation db"
    by (simp_all add: upsert_instance_def)
  note tr = ok_transfer [of db ?db, unfolded f, OF subset_refl refl]
  have new: "runner_ok ?db (registered now g input sid l)" for l
    unfolding runner_ok_def f by (simp add: registered_def) (use key in blast)
  have "map in_runnerId (runners ?db) = (if find_instance db (rg_runnerId input) = None
      then map in_runnerId (runners db) @ [rg_runnerId input] else map in_runnerId (runners db))"
    by (auto simp: upsert_instance_def registered_def)
  then have "distinct (map in_runnerId (runners ?db))"
    using inv by (auto simp: fleet_inv_def find_instance_None split: if_splits)
  moreover have "\<forall>r \<in> set (runners ?db). runner_ok ?db r"
  proof
    fix r assume "r \<in> set (runners ?db)"
    then consider "r \<in> set (runners db)" | l where "r = registered now g input sid l"
      by (auto simp: upsert_instance_def split: if_splits)
    then show "runner_ok ?db r" using inv new tr by cases (auto simp: fleet_inv_def)
  qed
  ultimately show ?thesis using inv tr by (simp add: fleet_inv_def f)
qed

lemma inv_register:
  assumes "fleet_inv db" "registerRunner tok now input sid db = Inr (g, db')"
  shows "fleet_inv db'"
proof -
  obtain db1 where op: "open_session sid input (close_sessions now (prior_sessions input db) db) = Inr db1"
    and db': "db' = upsert_instance now g input sid db1"
    using assms(2) by (auto simp: registerRunner_def and_then_eq_Inr split: if_splits)
  have "fleet_inv db1" using inv_open_session [OF inv_close_sessions [OF assms(1)] op] .
  moreover have "(x, rg_runnerId input, rg_bootId input, rg_poolId input) \<in> session_key ` set (sessions db1)"
    if "sid = Some x" for x
    using op that by (auto simp: open_session_def new_session_def session_key_def split: if_splits)
  ultimately show ?thesis unfolding db' by (rule inv_upsert)
qed

text \<open>Operations that rewrite rows of the Runner table one by one.\<close>

lemma inv_map_runners:
  assumes inv: "fleet_inv db"
    and f: "\<And>r. in_registration (f r) = in_registration r" "\<And>r. in_controlSessionId (f r) = in_controlSessionId r"
      "\<And>r. r \<in> set (runners db) \<Longrightarrow> in_status (f r) = Offline \<Longrightarrow> in_disconnectedAt (f r) \<noteq> None"
  shows "fleet_inv (db\<lparr>runners := map f (runners db)\<rparr>)"
proof -
  note tr = ok_transfer [of db "db\<lparr>runners := map f (runners db)\<rparr>", simplified]
  have "\<forall>r \<in> set (runners db). runner_ok (db\<lparr>runners := map f (runners db)\<rparr>) (f r)"
    using inv f(3) by (auto simp: fleet_inv_def runner_ok_def f(1,2))
  then show ?thesis using inv tr by (simp add: fleet_inv_def f(1) comp_def)
qed

lemma heartbeat_not_offline: "heartbeat_status g hb \<noteq> Offline"
  by (simp add: heartbeat_status_def Let_def)

lemma inv_heartbeat:
  assumes inv: "fleet_inv db" and hb: "recordHeartbeat now hb db = Inr (b, db')"
  shows "fleet_inv db'"
proof -
  obtain g where db': "db' = db\<lparr>runners := map (\<lambda>r. if heartbeat_hits hb r then
      r\<lparr>in_desiredGeneration := g, in_appliedGeneration := hb_appliedGeneration hb,
        in_heartbeatSequence := hb_sequence hb, in_load := Some (hb_load hb),
        in_status := heartbeat_status g hb, in_lastHeartbeatAt := now\<rparr> else r) (runners db)\<rparr>"
    using hb by (auto simp: recordHeartbeat_def split: option.splits)
  show ?thesis unfolding db'
    by (rule inv_map_runners [OF inv])
      (use inv in \<open>auto simp: heartbeat_not_offline fleet_inv_def runner_ok_def split: if_splits\<close>)
qed

lemma inv_take_offline: "fleet_inv db \<Longrightarrow> fleet_inv (take_offline now hit db)"
  unfolding take_offline_def Let_def
  by (rule inv_close_sessions, rule inv_map_runners) (auto simp: fleet_inv_def runner_ok_def)

text \<open>Operations that touch none of the three tables of the invariant, and the removal of rows.\<close>

lemma inv_frame:
  assumes "fleet_inv db" "runners db' = runners db" "sessions db' = sessions db" "grants db' = grants db"
    "generation db = None \<or> generation_at_least (the (generation db)) db'"
  shows "fleet_inv db'"
proof -
  have mono: "generation_at_least k db \<Longrightarrow> generation_at_least k db'" for k
    using assms(5) by (auto simp: generation_at_least_def split: option.splits)
  have "runner_ok db r \<Longrightarrow> runner_ok db' r" "session_ok db s \<Longrightarrow> session_ok db' s"
    "grant_ok db g \<Longrightarrow> grant_ok db' g" for r s g
    using mono assms(3) by (auto simp: runner_ok_def session_ok_def grant_ok_def)
  with assms(1) show ?thesis by (simp add: fleet_inv_def assms(2-4))
qed

lemma generation_kept: "generation db' = generation db \<Longrightarrow>
    generation db = None \<or> generation_at_least (the (generation db)) db'"
  by (cases "generation db") (simp_all add: generation_at_least_def)

lemma inv_filter_runners:
  assumes inv: "fleet_inv db" and "runners db' = filter P (runners db)" "sessions db' = sessions db"
    "grants db' = grants db" "generation db' = generation db"
  shows "fleet_inv db'"
proof -
  have "fleet_inv (db'\<lparr>runners := runners db\<rparr>)"
    by (rule inv_frame [OF inv _ _ _ generation_kept]) (simp_all add: assms)
  moreover have "runner_ok (db'\<lparr>runners := runners db\<rparr>) r = runner_ok db' r"
    "session_ok (db'\<lparr>runners := runners db\<rparr>) s = session_ok db' s"
    "grant_ok (db'\<lparr>runners := runners db\<rparr>) g = grant_ok db' g" for r s g
    by (simp_all add: runner_ok_def session_ok_def grant_ok_def generation_at_least_def)
  ultimately show ?thesis by (auto simp: fleet_inv_def assms(2) distinct_map_filter)
qed

lemma inv_map_sessions:
  assumes inv: "fleet_inv db" and f: "\<And>s. session_key (f s) = session_key s"
    and ok: "\<And>s. s \<in> set (sessions db) \<Longrightarrow> session_ok db s \<Longrightarrow> session_ok db (f s)"
    and "runners db' = runners db" "sessions db' = map f (sessions db)" "grants db' = grants db"
      "generation db' = generation db"
  shows "fleet_inv db'"
proof -
  have ids: "map ss_id (sessions db') = map ss_id (sessions db)"
    using f by (auto simp: assms(5) session_key_def)
  have "session_key ` set (sessions db') = session_key ` set (sessions db)"
    by (auto simp: assms(5) f image_image)
  then have tr: "runner_ok db r \<Longrightarrow> runner_ok db' r" "session_ok db s \<Longrightarrow> session_ok db' s"
    "grant_ok db g \<Longrightarrow> grant_ok db' g" for r s g
    using ok_transfer [of db db'] assms(7) by auto
  have "\<forall>s \<in> set (sessions db'). session_ok db' s"
    using inv ok tr(2) by (auto simp: fleet_inv_def assms(5))
  with inv tr(1,3) show ?thesis unfolding fleet_inv_def ids assms(4,6) by blast
qed

lemma ensure_epoch_fields [simp]:
  "runners (ensure_epoch pid db) = runners db" "sessions (ensure_epoch pid db) = sessions db"
  "grants (ensure_epoch pid db) = grants db" "generation (ensure_epoch pid db) = generation db"
  "pools (ensure_epoch pid db) = pools db"
  by (simp_all add: ensure_epoch_def)

lemma inv_ensure_epoch: "fleet_inv db \<Longrightarrow> fleet_inv (ensure_epoch pid db)"
  by (rule inv_frame [OF _ _ _ _ generation_kept]) simp_all

lemma dispatched_shape:
  assumes "dispatchedAllocation now input db = (a, db')"
  obtains (none) "db' = db" "a = None"
  | (hit) epoch gid where "generation db = Some (ci_generation input)"
      "db' = (ensure_epoch (ci_poolId input) db)\<lparr>sessions :=
         map (dispatch_snapshot now input epoch gid) (sessions db)\<rparr>"
proof (cases "current_group input db")
  case None
  with assms show thesis by (intro none) (simp_all add: dispatchedAllocation_def)
next
  case (Some gid)
  show thesis
  proof (cases "generation db = Some (ci_generation input)")
    case True
    with assms Some show thesis
      by (intro hit [OF True]) (auto simp: dispatchedAllocation_def Let_def)
  next
    case False
    with assms Some show thesis by (intro none) (simp_all add: dispatchedAllocation_def)
  qed
qed

lemma session_key_dispatch [simp]: "session_key (dispatch_snapshot now input e gid s) = session_key s"
  by (simp add: dispatch_snapshot_def session_key_def)

lemma inv_dispatch:
  assumes inv: "fleet_inv db" and d: "dispatchedAllocation now input db = (a, db')"
  shows "fleet_inv db'"
  using d
proof (cases rule: dispatched_shape)
  case none
  with inv show ?thesis by simp
next
  case (hit epoch gid)
  have "session_ok db s \<Longrightarrow> session_ok db (dispatch_snapshot now input epoch gid s)" for s
    using hit(1) by (simp add: dispatch_snapshot_def session_ok_def generation_at_least_def)
  then show ?thesis
    by (intro inv_map_sessions [OF inv, of "dispatch_snapshot now input epoch gid"])
      (simp_all add: hit(2))
qed

lemma acknowledged_shape:
  assumes "acknowledged now input ok db = (b, db')"
  obtains (none) "db' = db" "\<not> b"
  | (hit) epoch gid where
      "db' = db\<lparr>sessions := map (\<lambda>s. if awaiting_ack input epoch gid s
         then s\<lparr>ss_snapshotAcknowledgedAt := Some now, ss_snapshotAccepted := ok\<rparr> else s) (sessions db)\<rparr>"
proof (cases "current_group input db = None \<or> find_epoch db (ci_poolId input) = None \<or>
    generation db \<noteq> Some (ci_generation input)")
  case True
  with assms show thesis by (intro none) (auto simp: acknowledged_def split: option.splits if_splits)
next
  case False
  then obtain gid e where "current_group input db = Some gid" "find_epoch db (ci_poolId input) = Some e"
    "generation db = Some (ci_generation input)" by auto
  with assms show thesis by (intro hit [of "ep_epoch e" gid]) (simp add: acknowledged_def)
qed

lemma inv_ack:
  assumes inv: "fleet_inv db" and a: "acknowledged now input ok db = (b, db')"
  shows "fleet_inv db'"
  using a
proof (cases rule: acknowledged_shape)
  case none
  with inv show ?thesis by simp
next
  case (hit epoch gid)
  let ?f = "\<lambda>s. if awaiting_ack input epoch gid s
    then s\<lparr>ss_snapshotAcknowledgedAt := Some now, ss_snapshotAccepted := ok\<rparr> else s"
  have "session_ok db s \<Longrightarrow> session_ok db (?f s)" for s
    by (simp add: session_ok_def awaiting_ack_def)
  moreover have "session_key (?f s) = session_key s" for s by (simp add: session_key_def)
  ultimately show ?thesis by (intro inv_map_sessions [OF inv, of ?f]) (simp_all add: hit)
qed

text \<open>What a successful call of the ledger has checked.\<close>

lemma issued_shape:
  assumes "issueSnapshotBound now later req db = Inr (g, db')"
  obtains st where "validate_snapshot_grant req = Inr ()"
    "find_epoch (ensure_epoch (sg_poolId req) db) (sg_poolId req) = Some st"
    "\<not> ep_draining st" "of_int (ep_epoch st) = sg_epoch req"
    "registration_current req (ensure_epoch (sg_poolId req) db)"
    "map_option of_int (generation db) = Some (sg_generation req)"
    "\<not> list_ex (same_challenge req) (grants db)"
    "g = grant_of now later req"
    "db' = (ensure_epoch (sg_poolId req) db)\<lparr>grants := grants db @ [g]\<rparr>"
proof -
  let ?db = "ensure_epoch (sg_poolId req) db"
  obtain st db1 where v: "validate_snapshot_grant req = Inr ()" and ps: "poolState (sg_poolId req) db = Inr (st, db1)"
    and rest: "(if ep_draining st \<or> of_int (ep_epoch st) \<noteq> sg_epoch req then Inl epoch_unavailable
      else if \<not> registration_current req db1 \<or> map_option of_int (generation db1) \<noteq> Some (sg_generation req)
      then Inl snapshot_unavailable
      else if list_ex (same_challenge req) (grants db1) then Inl challenge_conflict
      else (let g = grant_of now later req in Inr (g, db1\<lparr>grants := grants db1 @ [g]\<rparr>))) = Inr (g, db')"
    using assms unfolding issueSnapshotBound_def and_then_eq_Inr by auto
  have db1: "db1 = ?db" "find_epoch ?db (sg_poolId req) = Some st"
    using ps by (auto simp: poolState_def Let_def split: option.splits)
  show thesis
    by (rule that [OF v db1(2)]) (use rest in \<open>auto simp: db1(1) Let_def split: if_splits\<close>)
qed

lemma current_group_ensure [simp]: "current_group ident (ensure_epoch pid db) = current_group ident db"
  by (simp add: current_group_def find_pool_def)

lemma issued_session:
  assumes "registration_current req db"
  obtains r s gid where "r \<in> set (runners db)" "instance_matches (grant_identity req) r"
    "s \<in> set (sessions db)" "snapshot_accepted req gid s"
    "map_option pl_groupId (find_pool db (sg_poolId req)) = Some gid"
  using assms
  by (auto simp: registration_current_def current_group_def list_ex_iff grant_identity_def
      split: option.splits if_splits)

lemma valid_durations:
  assumes "validate_snapshot_grant req = Inr ()"
  shows "is_integer (sg_durationMs req) \<and> 1 \<le> sg_durationMs req \<and> sg_durationMs req \<le> 60000 \<and>
    is_integer (sg_uncertaintyMs req) \<and> 0 \<le> sg_uncertaintyMs req \<and> sg_uncertaintyMs req \<le> 60000"
  using assms
  by (auto simp: validate_snapshot_grant_def validate_grant_def and_then_eq_Inr MAX_DURATION_MS_def
      MAX_UNCERTAINTY_MS_def split: if_splits)

lemma floor_of_int_option: "map_option of_int x = Some (q :: rat) \<Longrightarrow> x = Some \<lfloor>q\<rfloor>"
  by (cases x) auto

lemma inv_issue:
  assumes inv: "fleet_inv db" and i: "issueSnapshotBound now later req db = Inr (g, db')"
  shows "fleet_inv db'"
proof -
  let ?db = "ensure_epoch (sg_poolId req) db"
  from i obtain st where v: "validate_snapshot_grant req = Inr ()" and rc: "registration_current req ?db"
    and gen: "map_option of_int (generation db) = Some (sg_generation req)"
    and fresh: "\<not> list_ex (same_challenge req) (grants db)" and g: "g = grant_of now later req"
    and db': "db' = ?db\<lparr>grants := grants db @ [g]\<rparr>"
    by (rule issued_shape)
  obtain s gid where s: "s \<in> set (sessions db)" "snapshot_accepted req gid s"
    using issued_session [OF rc] by (metis ensure_epoch_fields(2))
  have key: "(sg_controlSessionId req, sg_runnerId req, sg_bootId req, sg_poolId req) = session_key s"
    using s(2) by (simp add: snapshot_accepted_def session_matches_def session_key_def grant_identity_def)
  have "generation_at_least \<lfloor>sg_generation req\<rfloor> db'"
    using floor_of_int_option [OF gen] by (simp add: db' generation_at_least_def)
  moreover have "1 \<le> \<lfloor>sg_durationMs req\<rfloor> \<and> \<lfloor>sg_durationMs req\<rfloor> \<le> 60000 \<and>
      0 \<le> \<lfloor>sg_uncertaintyMs req\<rfloor> \<and> \<lfloor>sg_uncertaintyMs req\<rfloor> \<le> 60000"
    using valid_durations [OF v] by (simp add: le_floor_iff floor_le_iff)
  moreover have "(sg_controlSessionId req, sg_runnerId req, sg_bootId req, sg_poolId req)
      \<in> session_key ` set (sessions db')"
    unfolding key using s(1) by (simp add: db')
  ultimately have "grant_ok db' g" unfolding grant_ok_def g grant_of_def by simp
  moreover have "grant_key g \<notin> grant_key ` set (grants db)"
    using fresh by (auto simp: g grant_of_def grant_key_def same_challenge_def list_ex_iff)
  moreover have "session_key ` set (sessions db) \<subseteq> session_key ` set (sessions db')"
    "generation db' = generation db" by (simp_all add: db')
  from ok_transfer [OF this] have "runner_ok db r \<Longrightarrow> runner_ok db' r"
    "session_ok db t \<Longrightarrow> session_ok db' t" "grant_ok db h \<Longrightarrow> grant_ok db' h" for r t h by auto
  moreover have "runners db' = runners db" "sessions db' = sessions db" "grants db' = grants db @ [g]"
    by (simp_all add: db')
  ultimately show ?thesis using inv by (simp add: fleet_inv_def)
qed

lemma inv_pool:
  assumes "fleet_inv db" "updateRunnerPool ctx pid d sf c actor db = Inr (p, db')"
  shows "fleet_inv db'"
proof -
  have "runners db' = runners db" "sessions db' = sessions db" "grants db' = grants db"
    "generation db' = generation db"
    using assms(2) by (auto simp: updateRunnerPool_def and_then_eq_Inr Let_def split: if_splits option.splits)
  with assms(1) show ?thesis by (metis inv_frame generation_kept)
qed

lemma removed_shape:
  assumes "removeRunnerInstance ctx rid actor force bid db = Inr (b, db')"
  shows "runners db' = filter (\<lambda>q. \<not> removable rid force bid q) (runners db) \<and>
    sessions db' = sessions db \<and> grants db' = grants db \<and> generation db' = generation db"
  using assms by (auto simp: removeRunnerInstance_def and_then_eq_Inr split: if_splits option.splits)

lemma fleet_step_inv:
  assumes inv: "fleet_inv db" and step: "fleet_step db db'"
  shows "fleet_inv db'"
  using step
proof cases
  case (st_remove ctx rid actor force bid b)
  then show ?thesis using removed_shape inv by (metis inv_filter_runners)
next
  case (st_other ps ns gn)
  then show ?thesis by (intro inv_frame [OF inv]) simp_all
qed (simp_all add: inv inv_take_offline disconnectRunner_def markStaleRunnersOffline_def
    inv_register [OF inv] inv_heartbeat [OF inv] inv_pool [OF inv] inv_dispatch [OF inv]
    inv_ack [OF inv] inv_issue [OF inv])

interpretation fleet: invariant_system fleet_init fleet_step fleet_inv
  by unfold_locales (simp add: fleet_init_def fleet_inv_def, rule fleet_step_inv)

section \<open>A stream that has ended stays ended\<close>

lemma isCurrent_iff: "isCurrent ident db \<longleftrightarrow>
    (\<exists>r \<in> set (runners db). instance_matches ident r) \<and> (\<exists>s \<in> set (sessions db). session_matches ident s)"
  by (auto simp: isCurrent_def list_ex_iff)

definition known_session :: "fleet_db \<Rightarrow> string \<Rightarrow> bool" where
  "known_session db sid \<longleftrightarrow> sid \<in> ss_id ` set (sessions db)"

text \<open>A step that introduces no live row for the identity cannot make it current.\<close>

lemma current_backwards:
  assumes "isCurrent ident db'"
    and "\<And>r. r \<in> set (runners db') \<Longrightarrow> instance_matches ident r \<Longrightarrow>
      \<exists>q \<in> set (runners db). instance_matches ident q"
    and "\<And>s. s \<in> set (sessions db') \<Longrightarrow> session_matches ident s \<Longrightarrow>
      \<exists>t \<in> set (sessions db). session_matches ident t"
  shows "isCurrent ident db"
  using assms unfolding isCurrent_iff by blast

lemma session_matches_close: "session_matches ident (close_session now ids s) \<Longrightarrow> session_matches ident s"
  by (auto simp: session_matches_def close_session_def split: if_splits)

lemma current_register:
  assumes reg: "registerRunner tok now input sid db = Inr (g, db')"
    and known: "known_session db (ci_sessionId ident)" and cur: "isCurrent ident db'"
  shows "isCurrent ident db"
proof -
  let ?cl = "close_sessions now (prior_sessions input db) db"
  obtain db1 where op: "open_session sid input ?cl = Inr db1" and db': "db' = upsert_instance now g input sid db1"
    using reg by (auto simp: registerRunner_def and_then_eq_Inr split: if_splits)
  have fresh: "sid \<noteq> Some (ci_sessionId ident)"
    using op known by (auto simp: open_session_def find_session_None known_session_def image_image split: if_splits)
  have sess: "s \<in> set (sessions db) \<or> s \<in> set (sessions ?cl) \<or> Some (ss_id s) = sid"
    if "s \<in> set (sessions db')" for s
    using op that by (auto simp: db' upsert_instance_def open_session_def new_session_def
        split: option.splits if_splits)
  have runs: "runners db1 = runners db"
    using op by (auto simp: open_session_def split: option.splits if_splits)
  show ?thesis
  proof (rule current_backwards [OF cur])
    fix r assume "r \<in> set (runners db')" and m: "instance_matches ident r"
    then have "r \<in> set (runners db) \<or> in_controlSessionId r = sid"
      by (auto simp: db' upsert_instance_def runs registered_def split: if_splits)
    then show "\<exists>q \<in> set (runners db). instance_matches ident q"
      using m fresh by (auto simp: instance_matches_def)
  next
    fix s assume "s \<in> set (sessions db')" and m: "session_matches ident s"
    moreover from m have "ss_id s = ci_sessionId ident" by (simp add: session_matches_def)
    ultimately show "\<exists>t \<in> set (sessions db). session_matches ident t"
      using sess fresh by (fastforce dest: session_matches_close)
  qed
qed

lemma current_heartbeat:
  assumes inv: "fleet_inv db" and hb: "recordHeartbeat now hb db = Inr (b, db')" and cur: "isCurrent ident db'"
  shows "isCurrent ident db"
proof (rule current_backwards [OF cur])
  fix s assume "s \<in> set (sessions db')" "session_matches ident s"
  then show "\<exists>t \<in> set (sessions db). session_matches ident t"
    using hb by (auto simp: recordHeartbeat_def split: option.splits)
next
  fix r assume "r \<in> set (runners db')" and m: "instance_matches ident r"
  then obtain q where q: "q \<in> set (runners db)" "in_registration r = in_registration q"
      "in_controlSessionId r = in_controlSessionId q" "in_disconnectedAt r = in_disconnectedAt q"
    using hb by (auto simp: recordHeartbeat_def split: option.splits if_splits)
  moreover from q(1) inv have "in_disconnectedAt q = None \<longrightarrow> in_status q \<noteq> Offline"
    by (auto simp: fleet_inv_def runner_ok_def)
  ultimately show "\<exists>q \<in> set (runners db). instance_matches ident q"
    using m by (auto simp: instance_matches_def)
qed

lemma current_take_offline:
  assumes "isCurrent ident (take_offline now hit db)"
  shows "isCurrent ident db"
  by (rule current_backwards [OF assms])
    (auto simp: take_offline_def Let_def instance_matches_def dest: session_matches_close split: if_splits)

lemma dispatch_matches: "session_matches ident (dispatch_snapshot now input e gid s) = session_matches ident s"
  by (simp add: dispatch_snapshot_def session_matches_def)

lemma current_dispatch:
  assumes "dispatchedAllocation now input db = (a, db')" "isCurrent ident db'"
  shows "isCurrent ident db"
  using assms(1)
proof (cases rule: dispatched_shape)
  case none
  with assms(2) show ?thesis by simp
next
  case (hit epoch gid)
  show ?thesis by (rule current_backwards [OF assms(2)]) (auto simp: hit(2) dispatch_matches)
qed

lemma current_ack:
  assumes "acknowledged now input ok db = (b, db')" "isCurrent ident db'"
  shows "isCurrent ident db"
  using assms(1)
proof (cases rule: acknowledged_shape)
  case none
  with assms(2) show ?thesis by simp
next
  case (hit epoch gid)
  show ?thesis by (rule current_backwards [OF assms(2)]) (auto simp: hit session_matches_def split: if_splits)
qed

lemma step_not_current:
  assumes inv: "fleet_inv db" and step: "fleet_step db db'"
    and known: "known_session db (ci_sessionId ident)" and cur: "isCurrent ident db'"
  shows "isCurrent ident db"
  using step
proof cases
  case (st_register tok now input sid g)
  then show ?thesis using current_register known cur by blast
next
  case (st_heartbeat now hb b)
  then show ?thesis using current_heartbeat inv cur by blast
next
  case (st_pool ctx pid desired safe conc actor p)
  then have "runners db' = runners db" "sessions db' = sessions db"
    by (auto simp: updateRunnerPool_def and_then_eq_Inr Let_def split: if_splits option.splits)
  with cur show ?thesis by (simp add: isCurrent_def)
next
  case (st_remove ctx rid actor force bid b)
  from removed_shape [OF this] cur show ?thesis by (auto simp: isCurrent_iff)
next
  case (st_issue now later req gr)
  then have "runners db' = runners db" "sessions db' = sessions db"
    by (auto elim: issued_shape)
  with cur show ?thesis by (simp add: isCurrent_def)
next
  case (st_other ps ns gn)
  with cur show ?thesis by (simp add: isCurrent_def)
qed (use cur in \<open>auto simp: disconnectRunner_def markStaleRunnersOffline_def
    intro: current_take_offline current_dispatch current_ack\<close>)

lemma known_map:
  assumes "sessions db' = map f (sessions db)" "\<And>s. ss_id (f s) = ss_id s" "known_session db sid"
  shows "known_session db' sid"
  using assms(3) by (auto simp: known_session_def assms(1,2) image_image)

lemma step_known:
  assumes "fleet_step db db'" and "known_session db sid"
  shows "known_session db' sid"
  using assms(1)
proof cases
  case (st_register tok now input x g)
  then obtain db1 where "open_session x input (close_sessions now (prior_sessions input db) db) = Inr db1"
    and "db' = upsert_instance now g input x db1"
    by (auto simp: registerRunner_def and_then_eq_Inr split: if_splits)
  with assms(2) show ?thesis
    by (auto simp: open_session_def upsert_instance_def known_session_def image_image
        split: option.splits if_splits)
next
  case (st_dispatch now ident a)
  then show ?thesis
  proof (cases rule: dispatched_shape)
    case (hit epoch gid)
    show ?thesis
      by (rule known_map [OF _ _ assms(2), of _ "dispatch_snapshot now ident epoch gid"])
        (simp_all add: hit(2) dispatch_snapshot_def)
  qed (use assms(2) in simp)
next
  case (st_ack now ident ok b)
  then show ?thesis
  proof (cases rule: acknowledged_shape)
    case (hit epoch gid)
    show ?thesis
      by (rule known_map [OF _ _ assms(2), of _ "\<lambda>s. if awaiting_ack ident epoch gid s
        then s\<lparr>ss_snapshotAcknowledgedAt := Some now, ss_snapshotAccepted := ok\<rparr> else s"])
        (simp_all add: hit)
  qed (use assms(2) in simp)
next
  case (st_issue now later req gr)
  then have "sessions db' = sessions db" by (auto elim: issued_shape)
  with assms(2) show ?thesis by (simp add: known_session_def)
next
  case (st_heartbeat now hb b)
  then show ?thesis using assms(2) by (auto simp: recordHeartbeat_def known_session_def split: option.splits)
next
  case (st_pool ctx pid desired safe conc actor p)
  then show ?thesis using assms(2)
    by (auto simp: updateRunnerPool_def and_then_eq_Inr Let_def known_session_def split: if_splits option.splits)
next
  case (st_remove ctx rid actor force bid b)
  from removed_shape [OF this] assms(2) show ?thesis by (simp add: known_session_def)
qed (use assms(2) in \<open>auto simp: disconnectRunner_def markStaleRunnersOffline_def take_offline_def
    known_session_def Let_def image_image\<close>)

lemma ended_stays_ended:
  assumes "fleet_step\<^sup>*\<^sup>* db db'" "fleet_inv db" "known_session db (ci_sessionId ident)" "\<not> isCurrent ident db"
  shows "\<not> isCurrent ident db' \<and> known_session db' (ci_sessionId ident) \<and> fleet_inv db'"
  using assms
proof (induction rule: rtranclp_induct)
  case (step y z)
  then show ?case using step_not_current step_known fleet_step_inv by metis
qed simp

lemma issue_needs_current:
  assumes "issueSnapshotBound now later req db = Inr (g, db')"
  shows "isCurrent (grant_identity req) db"
proof -
  from assms obtain st where rc: "registration_current req (ensure_epoch (sg_poolId req) db)"
    by (rule issued_shape)
  from issued_session [OF rc] show ?thesis
    unfolding isCurrent_iff snapshot_accepted_def by (metis ensure_epoch_fields(1,2))
qed

section \<open>A run: register, dispatch, acknowledge, grant, register again\<close>

definition sample_fleet :: fleet_db where
  "sample_fleet = \<lparr>pools = [\<lparr>pl_id = ''default'', pl_projectId = None, pl_groupId = ''default'',
       pl_desiredReplicas = 1, pl_safeRpsPerRunner = 1, pl_maxConcurrencyPerRunner = 64\<rparr>],
     project_names = [], lease_epochs = [], sessions = [], runners = [], grants = [],
     generation = Some 3, audit = []\<rparr>"

definition sample_registration :: registration where
  "sample_registration = \<lparr>rg_runnerId = ''runner-default-0'', rg_bootId = ''b'', rg_poolId = ''default'',
     rg_runnerVersion = ''1'', rg_nemoVersion = ''1'', rg_maxConcurrency = 64, rg_compilerCapable = True,
     rg_labels = [], rg_appliedGeneration = 3\<rparr>"

definition sample_snapshot :: ControlSnapshotIdentity where
  "sample_snapshot = \<lparr>ci_sessionId = ''s1'', ci_runnerId = ''runner-default-0'', ci_bootId = ''b'',
     ci_poolId = ''default'', ci_nonce = ''n'', ci_generation = 3, ci_modelRevisionId = ''m''\<rparr>"

definition sample_request :: SnapshotBoundGrant where
  "sample_request = \<lparr>sg_poolId = ''default'', sg_runnerId = ''runner-default-0'', sg_bootId = ''b'',
     sg_nonce = ''c1'', sg_epoch = 0, sg_generation = 3, sg_durationMs = 15000, sg_uncertaintyMs = 500,
     sg_snapshotNonce = ''n'', sg_modelRevisionId = ''m'', sg_controlSessionId = ''s1''\<rparr>"

definition sample_connected :: fleet_db where
  "sample_connected = snd (projr (registerRunner False 100 sample_registration (Some ''s1'') sample_fleet))"

definition sample_accepted :: fleet_db where
  "sample_accepted = snd (acknowledged 120 sample_snapshot True
     (snd (dispatchedAllocation 110 sample_snapshot sample_connected)))"

definition sample_granted :: fleet_db where
  "sample_granted = snd (projr (issueSnapshotBound 130 131 sample_request sample_accepted))"

definition sample_superseded :: fleet_db where
  "sample_superseded = snd (projr (registerRunner False 200 sample_registration (Some ''s2'') sample_granted))"

lemma sample_registered: "registerRunner False 100 sample_registration (Some ''s1'') sample_fleet = Inr (3, sample_connected)"
  by code_simp

lemma sample_issued:
  "issueSnapshotBound 130 131 sample_request sample_accepted = Inr (grant_of 130 131 sample_request, sample_granted)"
  by code_simp

lemma sample_registered_again:
  "registerRunner False 200 sample_registration (Some ''s2'') sample_granted = Inr (3, sample_superseded)"
  by code_simp

lemma sample_accepted_reach: "reach fleet_init fleet_step sample_accepted"
proof -
  have "reach fleet_init fleet_step sample_fleet"
    by (rule reach_init) (simp add: fleet_init_def sample_fleet_def)
  then have "reach fleet_init fleet_step sample_connected"
    by (rule reach_step) (rule st_register [OF sample_registered])
  then have "reach fleet_init fleet_step (snd (dispatchedAllocation 110 sample_snapshot sample_connected))"
    by (rule reach_step) (rule st_dispatch [OF prod.collapse [symmetric]])
  then show ?thesis
    unfolding sample_accepted_def by (rule reach_step) (rule st_ack [OF prod.collapse [symmetric]])
qed

lemma sample_superseded_reach: "reach fleet_init fleet_step sample_superseded"
  by (rule reach_step [OF reach_step [OF sample_accepted_reach st_issue [OF sample_issued]]
      st_register [OF sample_registered_again]])

section \<open>Properties\<close>

text \<open>Claim C8. The ledger issues a serving grant only to the live stream that proved it runs the
  current configuration: the Runner row names the session, the session is connected, its latest
  dispatched snapshot was acknowledged and accepted, and that snapshot has the requested nonce, the
  controller's current generation, the pool's current lease epoch and the pool's current group;
  the pool is not draining and the challenge was never used before. The grant is appended to the
  ledger, nothing else of Runners and sessions changes, and its conservative expiry covers the full
  lease from the issue time and is at most two minutes after the clock reading it is based on.\<close>

theorem grant_only_to_accepted_stream:
  assumes "issueSnapshotBound now later req db = Inr (g, db')"
  shows "isCurrent (grant_identity req) db \<and>
    (\<exists>s \<in> set (sessions db). ss_id s = sg_controlSessionId req \<and> ss_disconnectedAt s = None \<and>
       ss_snapshotAccepted s \<and> ss_snapshotAcknowledgedAt s \<noteq> None \<and>
       ss_snapshotNonce s = Some (sg_snapshotNonce req) \<and>
       ss_snapshotGeneration s = generation db \<and> ss_snapshotEpoch s = Some (gr_epoch g) \<and>
       ss_snapshotGroupId s = map_option pl_groupId (find_pool db (sg_poolId req))) \<and>
    generation db = Some (gr_generation g) \<and>
    (\<forall>e. find_epoch db (sg_poolId req) = Some e \<longrightarrow> \<not> ep_draining e \<and> ep_epoch e = gr_epoch g) \<and>
    grant_key g \<notin> grant_key ` set (grants db) \<and>
    grants db' = grants db @ [g] \<and> runners db' = runners db \<and> sessions db' = sessions db \<and>
    (now \<le> later \<longrightarrow> gr_issuedAt g + gr_durationMs g + gr_uncertaintyMs g \<le> gr_conservativeExpiresAt g) \<and>
    gr_conservativeExpiresAt g \<le> later + 120000"
proof -
  let ?db = "ensure_epoch (sg_poolId req) db"
  from assms obtain st where v: "validate_snapshot_grant req = Inr ()"
    and ep: "find_epoch ?db (sg_poolId req) = Some st" "\<not> ep_draining st" "of_int (ep_epoch st) = sg_epoch req"
    and rc: "registration_current req ?db"
    and gen: "map_option of_int (generation db) = Some (sg_generation req)"
    and fresh: "\<not> list_ex (same_challenge req) (grants db)" and g: "g = grant_of now later req"
    and db': "db' = ?db\<lparr>grants := grants db @ [g]\<rparr>"
    by (rule issued_shape)
  have gen': "generation db = Some (gr_generation g)"
    using floor_of_int_option [OF gen] by (simp add: g grant_of_def)
  have epoch: "ep_epoch e = gr_epoch g \<and> \<not> ep_draining e" if "find_epoch db (sg_poolId req) = Some e" for e
    using that ep by (auto simp: ensure_epoch_def g grant_of_def ep(3) [symmetric])
  obtain s gid where s: "s \<in> set (sessions db)" "snapshot_accepted req gid s"
      "map_option pl_groupId (find_pool db (sg_poolId req)) = Some gid"
    using issued_session [OF rc] by (metis ensure_epoch_fields(2,5) find_pool_def)
  then have "ss_snapshotGeneration s = generation db" "ss_snapshotEpoch s = Some (gr_epoch g)"
    using floor_of_int_option [of "ss_snapshotGeneration s"] floor_of_int_option [of "ss_snapshotEpoch s"] gen'
    by (auto simp: snapshot_accepted_def g grant_of_def)
  with s have ev: "\<exists>s \<in> set (sessions db). ss_id s = sg_controlSessionId req \<and> ss_disconnectedAt s = None \<and>
       ss_snapshotAccepted s \<and> ss_snapshotAcknowledgedAt s \<noteq> None \<and>
       ss_snapshotNonce s = Some (sg_snapshotNonce req) \<and>
       ss_snapshotGeneration s = generation db \<and> ss_snapshotEpoch s = Some (gr_epoch g) \<and>
       ss_snapshotGroupId s = map_option pl_groupId (find_pool db (sg_poolId req))"
    by (intro bexI [of _ s]) (auto simp: snapshot_accepted_def session_matches_def grant_identity_def)
  have key: "grant_key g \<notin> grant_key ` set (grants db)"
    using fresh by (auto simp: g grant_of_def grant_key_def same_challenge_def list_ex_iff)
  obtain d u where du: "sg_durationMs req = of_int d" "sg_uncertaintyMs req = of_int u" "d \<le> 60000" "u \<le> 60000"
    using valid_durations [OF v] unfolding is_integer_def
    by (metis of_int_le_iff of_int_numeral)
  have "\<lfloor>sg_durationMs req + sg_uncertaintyMs req\<rfloor> = d + u"
    unfolding du by (simp flip: of_int_add)
  with du have "(now \<le> later \<longrightarrow> gr_issuedAt g + gr_durationMs g + gr_uncertaintyMs g \<le> gr_conservativeExpiresAt g) \<and>
      gr_conservativeExpiresAt g \<le> later + 120000"
    by (simp add: g grant_of_def)
  then show ?thesis using issue_needs_current [OF assms] ev gen' epoch key by (simp add: db')
qed

theorem grant_only_to_accepted_stream_witness:
  "isCurrent (grant_identity sample_request) sample_accepted \<and>
   grants sample_granted = grants sample_accepted @ [grant_of 130 131 sample_request]"
  using grant_only_to_accepted_stream [OF sample_issued] by simp

text \<open>Claim C9. Once a control stream is no longer current (superseded by a newer registration,
  disconnected, declared stale or its Runner removed), no sequence of registrations, heartbeats,
  snapshot exchanges, grants, removals and configuration changes makes it current again, and the
  ledger refuses every grant requested under its identity.\<close>

theorem ended_stream_never_granted:
  assumes "reach fleet_init fleet_step db" and "known_session db (sg_controlSessionId req)"
    and "\<not> isCurrent (grant_identity req) db" and "fleet_step\<^sup>*\<^sup>* db db'"
  shows "\<not> isCurrent (grant_identity req) db' \<and> throwing (issueSnapshotBound now later req db')"
proof -
  have "known_session db (ci_sessionId (grant_identity req))" using assms(2) by (simp add: grant_identity_def)
  with assms have not: "\<not> isCurrent (grant_identity req) db'"
    using ended_stays_ended fleet.reachable_inv by blast
  then have "issueSnapshotBound now later req db' \<noteq> Inr r" for r
    using issue_needs_current by (cases r) blast
  with not show ?thesis by (metis isl_def sum.exhaust)
qed

theorem ended_stream_never_granted_witness:
  "throwing (issueSnapshotBound 300 300 sample_request
     (markStaleRunnersOffline 30 250 sample_superseded))"
proof -
  have k: "known_session sample_superseded (sg_controlSessionId sample_request)"
    unfolding known_session_def by code_simp
  have n: "\<not> isCurrent (grant_identity sample_request) sample_superseded" by code_simp
  have "fleet_step\<^sup>*\<^sup>* sample_superseded (markStaleRunnersOffline 30 250 sample_superseded)"
    by (rule r_into_rtranclp) (rule st_stale)
  from ended_stream_never_granted [OF sample_superseded_reach k n this] show ?thesis by simp
qed

text \<open>Claim C10. In every reachable state of the fleet tables Runner ids, session ids and grant
  challenges are unique; an offline Runner is also marked disconnected; the session a Runner names
  exists and carries the same Runner, boot and pool; an accepted snapshot was dispatched and
  acknowledged, and no snapshot or grant is ahead of the controller's generation; every grant is
  bounded in duration and uncertainty and belongs to a recorded session of that Runner, boot and
  pool.\<close>

theorem fleet_tables_consistent:
  assumes "reach fleet_init fleet_step db"
  shows "distinct (map in_runnerId (runners db)) \<and> distinct (map ss_id (sessions db)) \<and>
    distinct (map grant_key (grants db)) \<and>
    (\<forall>r \<in> set (runners db). runner_ok db r) \<and> (\<forall>s \<in> set (sessions db). session_ok db s) \<and>
    (\<forall>g \<in> set (grants db). grant_ok db g)"
  using fleet.reachable_inv [OF assms] by (simp add: fleet_inv_def)

theorem fleet_tables_consistent_witness:
  "distinct (map grant_key (grants sample_superseded)) \<and> grants sample_superseded \<noteq> []"
proof -
  have "grants sample_superseded \<noteq> []" by code_simp
  with fleet_tables_consistent [OF sample_superseded_reach] show ?thesis by simp
qed

end
