(* ===== verification/Protection_Modes.thy ===== *)
theory Protection_Modes
  imports Runner_Sessions
begin

text \<open>
  Operating modes of Guardrails: \<^verbatim>\<open>controller/server/services/protection-modes.ts\<close> with
  the settings of \<^verbatim>\<open>controller/shared/protection-mode.ts\<close>. A mode change raises the desired
  generation of the controller and is only shown as applied once every Runner allocated to the
  Guardrail has acknowledged that generation. The Runner table is the one of \<open>Runner_Sessions\<close>;
  the Guardrail, version, artifact and user tables appear with the columns this service reads. Clock
  readings and fresh identifiers are arguments, instants are milliseconds.
\<close>

section \<open>Settings and tables\<close>

datatype ProtectionMode = Mode_Enforce | Mode_Monitor | Mode_Bypass

fun mode_name :: "ProtectionMode \<Rightarrow> string" where
  "mode_name Mode_Enforce = ''enforce''"
| "mode_name Mode_Monitor = ''monitor''"
| "mode_name Mode_Bypass = ''bypass''"

definition PROTECTION_MODE_CAPABILITY :: string where
  "PROTECTION_MODE_CAPABILITY = ''tasklattice.protection-modes''"

datatype runner_mode_status = Mode_Applied | Mode_Pending | Mode_Offline | Mode_Unsupported | Mode_Failed

datatype mode_status = All_Applied | All_Applying | Partly_Applied | Any_Failed | No_Runner

record runner_mode =
  rm_runnerId :: string
  rm_modeApplied :: bool
  rm_status :: runner_mode_status
  rm_reason :: "string option"

record ProtectionModeSettings =
  pm_guardrailId :: string
  pm_mode :: ProtectionMode
  pm_appliedMode :: ProtectionMode
  pm_generation :: int
  pm_ready :: bool
  pm_status :: mode_status
  pm_applied :: nat
  pm_total :: nat
  pm_runners :: "runner_mode list"
  pm_updatedAt :: "int option"
  pm_updatedBy :: "string option"
  pm_reason :: string

datatype GuardrailLifecycleState = Lifecycle_Draft | Lifecycle_Active | Lifecycle_Disabled

record mode_row =
  gm_id :: string
  gm_projectId :: "string option"
  gm_status :: GuardrailLifecycleState
  gm_deleted :: bool
  gm_mode :: ProtectionMode
  gm_applied :: ProtectionMode
  gm_generation :: int
  gm_updatedAt :: "int option"
  gm_updatedBy :: "string option"
  gm_reason :: string
  gm_desiredGeneration :: int

record released_row =
  rel_guardrailId :: string
  rel_version :: int
  rel_artifactId :: "string option"
  rel_ready :: bool

record artifact_row =
  ar_id :: string
  ar_guardrailId :: string
  ar_version :: int

record mode_db =
  md_fleet :: fleet_db
  md_owners :: owner_db
  md_projects :: "project_row list"
  md_guardrails :: "mode_row list"
  md_versions :: "released_row list"
  md_artifacts :: "artifact_row list"
  md_users :: "(string \<times> string option) list"
  md_outbox :: "(string \<times> string \<times> string \<times> (string \<times> json) list) list"
  md_audit :: "(string \<times> string \<times> string \<times> string \<times> (string \<times> json) list) list"

section \<open>The snapshot\<close>

definition hasReleasedGuardrail :: "mode_db \<Rightarrow> string \<Rightarrow> bool" where
  "hasReleasedGuardrail db gid = list_ex (\<lambda>v. rel_guardrailId v = gid \<and> rel_ready v \<and>
     list_ex (\<lambda>a. rel_artifactId v = Some (ar_id a) \<and> ar_guardrailId a = rel_guardrailId v \<and>
       ar_version a = rel_version v) (md_artifacts db)) (md_versions db)"

definition runner_mode_of :: "int \<Rightarrow> int \<Rightarrow> instance_row \<Rightarrow> runner_mode" where
  "runner_mode_of wanted cutoff r =
    (let supported = map_of (rg_labels (in_registration r)) PROTECTION_MODE_CAPABILITY = Some ''1'';
         offline = (in_status r = Offline \<or> in_lastHeartbeatAt r < cutoff);
         modeApplied = (supported \<and> \<not> offline \<and> in_protectionGeneration r \<ge> wanted);
         status = (if offline then Mode_Offline else if \<not> supported then Mode_Unsupported
           else if modeApplied then Mode_Applied
           else if \<not> falsy (in_protectionError r) \<and> in_protectionRejectedGeneration r \<ge> wanted
             then Mode_Failed else Mode_Pending)
     in \<lparr>rm_runnerId = in_runnerId r, rm_modeApplied = modeApplied, rm_status = status,
         rm_reason = (if status = Mode_Failed then in_protectionError r else None)\<rparr>)"

definition protectionModeSnapshot ::
  "mode_row \<Rightarrow> instance_row list \<Rightarrow> bool \<Rightarrow> int \<Rightarrow> ProtectionModeSettings" where
  "protectionModeSnapshot row rs ready cutoff =
    (let states = map (runner_mode_of (gm_generation row) cutoff) rs;
         applied = length (filter rm_modeApplied states);
         failed = list_ex (\<lambda>r. rm_status r = Mode_Failed \<or> rm_status r = Mode_Unsupported) states
     in \<lparr>pm_guardrailId = gm_id row, pm_mode = gm_mode row, pm_appliedMode = gm_applied row,
         pm_generation = gm_generation row, pm_ready = ready,
         pm_status = (if states = [] then No_Runner else if applied = length states then All_Applied
           else if applied \<noteq> 0 then Partly_Applied else if failed then Any_Failed else All_Applying),
         pm_applied = applied, pm_total = length states, pm_runners = states,
         pm_updatedAt = gm_updatedAt row, pm_updatedBy = gm_updatedBy row, pm_reason = gm_reason row\<rparr>)"

section \<open>The service\<close>

text \<open>The columns of a pool the allocation rule reads.\<close>

definition pool_view :: "runner_pool_row \<Rightarrow> pool_row" where
  "pool_view p = \<lparr>pool_id = pl_id p, pool_projectId = pl_projectId p, pool_groupId = pl_groupId p,
     pool_runtimeUrl = None\<rparr>"

definition allocated :: "fleet_db \<Rightarrow> project_row \<Rightarrow> runner_pool_row \<Rightarrow> bool" where
  "allocated fl pr pool = projectPoolAllocation (map pool_view (pools fl)) pr (pool_view pool)"

definition joined_runners :: "mode_db \<Rightarrow> instance_row list" where
  "joined_runners db = filter (\<lambda>r. find_pool (md_fleet db) (in_poolId r) \<noteq> None) (runners (md_fleet db))"

definition awaited_runners :: "mode_db \<Rightarrow> (project_row \<Rightarrow> bool) \<Rightarrow> mode_row \<Rightarrow> instance_row list" where
  "awaited_runners db visible row =
    (case gm_projectId row of
       None \<Rightarrow> filter (\<lambda>r. in_poolId r = ''default'') (joined_runners db)
     | Some p \<Rightarrow>
        let allowed = map pl_id (filter (\<lambda>pool. list_ex (\<lambda>pr. pr_id pr = p \<and> visible pr \<and> allocated (md_fleet db) pr pool)
              (md_projects db)) (pools (md_fleet db)))
        in filter (\<lambda>r. in_poolId r \<in> set allowed) (joined_runners db))"

definition mode_runners ::
  "AuthorityContext option \<Rightarrow> bool \<Rightarrow> mode_db \<Rightarrow> mode_row \<Rightarrow> thrown + instance_row list" where
  "mode_runners ctx projectScoped db row =
    (if gm_projectId row = None \<or> \<not> projectScoped then Inr (awaited_runners db (\<lambda>_. True) row)
     else and_then (currentProjectId ctx) (\<lambda>p.
       Inr (awaited_runners db (\<lambda>pr. falsy p \<or> Some (pr_id pr) = p) row)))"

definition mode_summary ::
  "AuthorityContext option \<Rightarrow> int \<Rightarrow> int \<Rightarrow> mode_db \<Rightarrow> mode_row \<Rightarrow> bool \<Rightarrow> thrown + ProtectionModeSettings" where
  "mode_summary ctx offlineAfter now db row ready =
    and_then (mode_runners ctx True db row) (\<lambda>rs.
      let snapshot = protectionModeSnapshot row rs ready (now - offlineAfter * 1000);
          username = (if falsy (gm_updatedBy row) then None
            else Option.bind (map_of (md_users db) (the (gm_updatedBy row))) id)
      in Inr (snapshot\<lparr>pm_updatedBy := (case username of None \<Rightarrow> pm_updatedBy snapshot | Some u \<Rightarrow> Some u)\<rparr>))"

definition get_mode ::
  "AuthorityContext option \<Rightarrow> int \<Rightarrow> int \<Rightarrow> mode_db \<Rightarrow> string \<Rightarrow> thrown + ProtectionModeSettings" where
  "get_mode ctx offlineAfter now db gid =
    and_then (resourceReadPredicate (md_owners db) ctx Guardrail) (\<lambda>readable.
      case List.find (\<lambda>g. gm_id g = gid \<and> \<not> gm_deleted g \<and> readable (gm_id g) (gm_projectId g)) (md_guardrails db) of
        None \<Rightarrow> Inl (NotFoundError ''Guardrail'' gid)
      | Some row \<Rightarrow> mode_summary ctx offlineAfter now db row
          (gm_status row \<noteq> Lifecycle_Disabled \<and> hasReleasedGuardrail db gid))"

record mode_update =
  mu_id :: string
  mu_mode :: ProtectionMode
  mu_expectedGeneration :: int
  mu_reason :: string
  mu_actorId :: string

definition changed_row :: "int \<Rightarrow> int \<Rightarrow> mode_update \<Rightarrow> mode_row \<Rightarrow> mode_row" where
  "changed_row now g input row =
    row\<lparr>gm_mode := mu_mode input, gm_generation := g, gm_updatedAt := Some now,
        gm_updatedBy := Some (mu_actorId input), gm_reason := mu_reason input, gm_desiredGeneration := g\<rparr>"

definition mode_conflict :: thrown where
  "mode_conflict = ConflictError ''The protection mode changed. Reload before applying another change.''
     ''protection_mode_conflict'' []"

definition mode_not_ready :: thrown where
  "mode_not_ready = ConflictError ''Publish a Guardrail version before changing its protection mode.''
     ''guardrail_not_ready'' []"

definition update_transaction ::
  "AuthorityContext option \<Rightarrow> int \<Rightarrow> string \<times> string \<Rightarrow> mode_update \<Rightarrow> mode_db \<Rightarrow> thrown + mode_db" where
  "update_transaction ctx now ids input db =
    and_then (resourceWritePredicate ctx) (\<lambda>writable.
      case List.find (\<lambda>g. gm_id g = mu_id input \<and> \<not> gm_deleted g \<and> writable (gm_projectId g)) (md_guardrails db) of
        None \<Rightarrow> Inl (NotFoundError ''Guardrail'' (mu_id input))
      | Some row \<Rightarrow>
        if gm_generation row \<noteq> mu_expectedGeneration input then Inl mode_conflict
        else if gm_status row = Lifecycle_Disabled \<or> \<not> hasReleasedGuardrail db (gm_id row) then Inl mode_not_ready
        else (case generation (md_fleet db) of
          None \<Rightarrow> Inl (JsError ''Controller state is not initialized.'')
        | Some k \<Rightarrow>
          let g = k + 1 in
          Inr (db\<lparr>md_fleet := (md_fleet db)\<lparr>generation := Some g\<rparr>,
            md_guardrails := map (\<lambda>q. if gm_id q = gm_id row then changed_row now g input q else q) (md_guardrails db),
            md_outbox := md_outbox db @ [(fst ids, ''runner.desired_state_changed'', gm_id row,
              [(''guardrailId'', JStr (gm_id row)), (''protectionMode'', JStr (mode_name (mu_mode input))),
               (''generation'', JNum (of_int g))])],
            md_audit := md_audit db @ [(snd ids, ''guardrail.protection_mode_changed'', mu_actorId input, gm_id row,
              [(''previousMode'', JStr (mode_name (gm_mode row))), (''mode'', JStr (mode_name (mu_mode input))),
               (''reason'', JStr (mu_reason input)), (''generation'', JNum (of_int g))])]\<rparr>)))"

text \<open>The transaction commits before the settings are read back, so the tables stay changed
  whatever that read returns.\<close>

definition update_mode ::
  "AuthorityContext option \<Rightarrow> int \<Rightarrow> int \<Rightarrow> int \<Rightarrow> string \<times> string \<Rightarrow> mode_update \<Rightarrow> mode_db
     \<Rightarrow> (thrown + ProtectionModeSettings) \<times> mode_db" where
  "update_mode ctx offlineAfter now later ids input db =
    (case update_transaction ctx now ids input db of Inl e \<Rightarrow> (Inl e, db)
     | Inr db' \<Rightarrow> (get_mode ctx offlineAfter later db' (mu_id input), db'))"

definition desired_modes :: "string option \<Rightarrow> mode_db \<Rightarrow> thrown + int \<times> (string \<times> ProtectionMode) list" where
  "desired_modes poolId db =
    (let g = (case generation (md_fleet db) of None \<Rightarrow> 0 | Some k \<Rightarrow> k);
         rows = (\<lambda>visible. map (\<lambda>q. (gm_id q, gm_mode q))
           (filter (\<lambda>q. \<not> gm_deleted q \<and> gm_status q = Lifecycle_Active \<and> visible q) (md_guardrails db)))
     in if falsy poolId then Inr (g, rows (\<lambda>_. True))
        else (case find_pool (md_fleet db) (the poolId) of
          None \<Rightarrow> Inl (NotFoundError ''Runner pool'' (the poolId))
        | Some pool \<Rightarrow>
          let memberIds = map pr_id (filter (\<lambda>pr. allocated (md_fleet db) pr pool) (md_projects db))
          in Inr (g, rows (\<lambda>q. list_ex (\<lambda>m. gm_projectId q = Some m) memberIds))))"

record mode_result =
  mr_runnerId :: string
  mr_bootId :: string
  mr_generation :: int
  mr_accepted :: bool
  mr_reason :: "string option"

definition result_hits :: "mode_result \<Rightarrow> instance_row \<Rightarrow> bool" where
  "result_hits input r \<longleftrightarrow> in_runnerId r = mr_runnerId input \<and> in_bootId r = mr_bootId input \<and>
     in_protectionGeneration r \<le> mr_generation input \<and>
     in_protectionRejectedGeneration r \<le> mr_generation input"

definition result_row :: "mode_result \<Rightarrow> instance_row \<Rightarrow> instance_row" where
  "result_row input r =
    (if mr_accepted input
     then r\<lparr>in_protectionGeneration := mr_generation input, in_protectionError := None,
            in_protectionRejectedGeneration := 0\<rparr>
     else r\<lparr>in_protectionError := (if falsy (mr_reason input)
              then Some ''Runner rejected the protection mode.'' else mr_reason input),
            in_protectionRejectedGeneration := mr_generation input\<rparr>)"

definition settle_row :: "int \<Rightarrow> mode_row \<Rightarrow> mode_db \<Rightarrow> mode_db" where
  "settle_row cutoff row db =
    (if pm_status (protectionModeSnapshot row (awaited_runners db (\<lambda>_. True) row) True cutoff) \<noteq> All_Applied
     then db
     else db\<lparr>md_guardrails := map (\<lambda>q. if gm_id q = gm_id row \<and> gm_generation q = gm_generation row
            then q\<lparr>gm_applied := gm_mode row\<rparr> else q) (md_guardrails db)\<rparr>)"

definition unsettled :: "mode_row \<Rightarrow> bool" where
  "unsettled q \<longleftrightarrow> \<not> gm_deleted q \<and> gm_generation q > 0 \<and> gm_applied q \<noteq> gm_mode q"

definition record_result :: "int \<Rightarrow> int \<Rightarrow> mode_result \<Rightarrow> mode_db \<Rightarrow> mode_db" where
  "record_result offlineAfter now input db =
    (case generation (md_fleet db) of None \<Rightarrow> db
     | Some k \<Rightarrow>
       if mr_generation input > k then db
       else let hit = list_ex (result_hits input) (runners (md_fleet db));
                db1 = db\<lparr>md_fleet := (md_fleet db)\<lparr>runners :=
                  map (\<lambda>r. if result_hits input r then result_row input r else r) (runners (md_fleet db))\<rparr>\<rparr>
            in if \<not> hit \<or> \<not> mr_accepted input then db1
               else fold (settle_row (now - offlineAfter * 1000))
                      (filter unsettled (md_guardrails db1)) db1)"

section \<open>The modes as a transition system\<close>

text \<open>Besides the two transactions above, the fleet's own steps and the services that create,
  publish, delete and restore Guardrails and Projects change the tables; the latter write the mode
  columns only with the current generation.\<close>

inductive mode_step :: "mode_db \<Rightarrow> mode_db \<Rightarrow> bool" where
  ms_fleet: "fleet_step (md_fleet db) fl \<Longrightarrow> mode_step db (db\<lparr>md_fleet := fl\<rparr>)"
| ms_update: "update_transaction ctx now ids input db = Inr db' \<Longrightarrow> mode_step db db'"
| ms_result: "mode_step db (record_result after now input db)"
| ms_other: "distinct (map gm_id gs) \<Longrightarrow> \<forall>q \<in> set gs. generation_at_least (gm_generation q) (md_fleet db) \<Longrightarrow>
    mode_step db (db\<lparr>md_guardrails := gs, md_versions := vs, md_artifacts := as, md_projects := ps,
      md_owners := os, md_users := us\<rparr>)"

definition mode_init :: "mode_db \<Rightarrow> bool" where
  "mode_init db \<longleftrightarrow> generation_at_least 0 (md_fleet db) \<and> runners (md_fleet db) = [] \<and> md_guardrails db = []"

text \<open>Nothing is ahead of the controller: its generation bounds those of the modes and those the
  Runners have acknowledged or refused.\<close>

definition mode_inv :: "mode_db \<Rightarrow> bool" where
  "mode_inv db \<longleftrightarrow> generation_at_least 0 (md_fleet db) \<and> distinct (map gm_id (md_guardrails db)) \<and>
    (\<forall>q \<in> set (md_guardrails db). generation_at_least (gm_generation q) (md_fleet db)) \<and>
    (\<forall>r \<in> set (runners (md_fleet db)). generation_at_least (in_protectionGeneration r) (md_fleet db) \<and>
       generation_at_least (in_protectionRejectedGeneration r) (md_fleet db))"

lemma take_offline_fields [simp]:
  "generation (take_offline now hit fl) = generation fl"
  "runners (take_offline now hit fl) = map (\<lambda>r. if hit r
     then r\<lparr>in_status := Offline, in_disconnectedAt := Some now\<rparr> else r) (runners fl)"
  by (simp_all add: take_offline_def Let_def)

lemma register_fields:
  assumes "registerRunner tok now input sid fl = Inr (g, fl')"
  shows "generation fl' = generation fl"
    "r \<in> set (runners fl') \<Longrightarrow> (\<exists>l. r = registered now g input sid l) \<or> r \<in> set (runners fl)"
  using assms
  by (auto simp: registerRunner_def and_then_eq_Inr open_session_def upsert_instance_def
      split: if_splits option.splits)

lemma fleet_generation:
  "fleet_step fl fl' \<Longrightarrow> generation_at_least k fl \<Longrightarrow> generation_at_least k fl'"
proof (induction rule: fleet_step.induct)
  case (st_register tok now input sid db g db')
  then show ?case using register_fields(1) by (simp add: generation_at_least_def)
next
  case (st_dispatch now ident db a db')
  then show ?case by (auto elim!: dispatched_shape simp: generation_at_least_def)
next
  case (st_ack now ident ok db b db')
  then show ?case by (auto elim!: acknowledged_shape simp: generation_at_least_def)
next
  case (st_issue now later req db gr db')
  then show ?case by (auto elim!: issued_shape simp: generation_at_least_def)
next
  case (st_other db db' ps ns gn)
  then show ?case by (auto simp: generation_at_least_def split: option.splits)
qed (auto simp: generation_at_least_def recordHeartbeat_def disconnectRunner_def
    markStaleRunnersOffline_def updateRunnerPool_def removeRunnerInstance_def and_then_eq_Inr Let_def
    split: option.splits if_splits)

text \<open>The fleet's own steps forget acknowledgements or keep them.\<close>

definition same_protection :: "instance_row \<Rightarrow> instance_row \<Rightarrow> bool" where
  "same_protection q r \<longleftrightarrow> in_protectionGeneration r = in_protectionGeneration q \<and>
     in_protectionRejectedGeneration r = in_protectionRejectedGeneration q"

lemma same_protection_map:
  "r \<in> set (map f rs) \<Longrightarrow> (\<And>q. same_protection q (f q)) \<Longrightarrow> \<exists>q \<in> set rs. same_protection q r"
  by auto

lemma same_protection_subset:
  "r \<in> set rs' \<Longrightarrow> set rs' \<subseteq> set rs \<Longrightarrow> \<exists>q \<in> set rs. same_protection q r"
  by (auto simp: same_protection_def)

lemma fleet_protection:
  "fleet_step fl fl' \<Longrightarrow> r \<in> set (runners fl') \<Longrightarrow>
    (in_protectionGeneration r = 0 \<and> in_protectionRejectedGeneration r = 0) \<or>
    (\<exists>q \<in> set (runners fl). same_protection q r)"
proof (induction rule: fleet_step.induct)
  case (st_register tok now input sid db g db')
  then show ?case
    using register_fields(2)[OF st_register(1), of r] same_protection_subset[OF _ subset_refl, of r]
    by (auto simp: registered_def)
next
  case (st_heartbeat now hb db b db')
  then have "\<exists>q \<in> set (runners db). same_protection q r"
    by (auto simp: recordHeartbeat_def same_protection_def simp del: set_map split: option.splits
        intro!: same_protection_map[unfolded same_protection_def])
  then show ?case ..
next
  case (st_disconnect db now rid bid sid)
  then show ?case
    by (intro disjI2) (auto simp: disconnectRunner_def same_protection_def simp del: set_map
        intro!: same_protection_map[unfolded same_protection_def])
next
  case (st_stale db after now)
  then show ?case
    by (intro disjI2) (auto simp: markStaleRunnersOffline_def same_protection_def simp del: set_map
        intro!: same_protection_map[unfolded same_protection_def])
next
  case (st_dispatch now ident db a db')
  then have "runners db' = runners db" by (auto elim!: dispatched_shape)
  then show ?case using st_dispatch(2) same_protection_subset[OF _ subset_refl, of r] by simp
next
  case (st_ack now ident ok db b db')
  then have "runners db' = runners db" by (auto elim!: acknowledged_shape)
  then show ?case using st_ack(2) same_protection_subset[OF _ subset_refl, of r] by simp
next
  case (st_issue now later req db gr db')
  then have "runners db' = runners db" by (auto elim!: issued_shape)
  then show ?case using st_issue(2) same_protection_subset[OF _ subset_refl, of r] by simp
next
  case (st_pool ctx pid desired safe conc actor db p db')
  then have "runners db' = runners db"
    by (auto simp: updateRunnerPool_def and_then_eq_Inr Let_def split: if_splits option.splits)
  then show ?case using st_pool(2) same_protection_subset[OF _ subset_refl, of r] by simp
next
  case (st_remove ctx rid actor force bid db b db')
  then have "set (runners db') \<subseteq> set (runners db)"
    by (auto simp: removeRunnerInstance_def and_then_eq_Inr split: if_splits option.splits)
  then show ?case using st_remove(2) same_protection_subset by blast
next
  case (st_other db db' ps ns gn)
  then show ?case using same_protection_subset[OF _ subset_refl, of r] by simp
qed

lemma generation_at_least_trans: "generation_at_least k fl \<Longrightarrow> j \<le> k \<Longrightarrow> generation_at_least j fl"
  by (auto simp: generation_at_least_def split: option.splits)

lemma inv_fleet_step:
  assumes "mode_inv db" "fleet_step (md_fleet db) fl"
  shows "mode_inv (db\<lparr>md_fleet := fl\<rparr>)"
  using assms fleet_generation[OF assms(2)] fleet_protection[OF assms(2)]
  unfolding mode_inv_def same_protection_def by simp metis

lemma updated_shape:
  assumes "update_transaction ctx now ids input db = Inr db'"
  obtains row k where "row \<in> set (md_guardrails db)" "gm_id row = mu_id input" "\<not> gm_deleted row"
    "gm_generation row = mu_expectedGeneration input" "generation (md_fleet db) = Some k"
    "md_fleet db' = (md_fleet db)\<lparr>generation := Some (k + 1)\<rparr>"
    "md_guardrails db' = map (\<lambda>q. if gm_id q = mu_id input then changed_row now (k + 1) input q else q)
       (md_guardrails db)"
    "md_projects db' = md_projects db" "md_versions db' = md_versions db" "md_owners db' = md_owners db"
proof (cases "resourceWritePredicate ctx")
  case (Inr w)
  let ?f = "List.find (\<lambda>g. gm_id g = mu_id input \<and> \<not> gm_deleted g \<and> w (gm_projectId g)) (md_guardrails db)"
  obtain row where f: "?f = Some row"
    using assms Inr by (cases ?f) (simp_all add: update_transaction_def)
  have row: "row \<in> set (md_guardrails db)" "gm_id row = mu_id input" "\<not> gm_deleted row"
    using find_Some_mem[OF f] by simp_all
  obtain k where k: "generation (md_fleet db) = Some k"
    using assms Inr f
    by (cases "generation (md_fleet db)") (simp_all add: update_transaction_def split: if_splits)
  show thesis
    by (rule that[OF row _ k])
      (use assms Inr f k row(2) in \<open>auto simp: update_transaction_def Let_def split: if_splits\<close>)
qed (use assms in \<open>simp add: update_transaction_def\<close>)

lemma gm_id_changed [simp]: "gm_id (changed_row now g input q) = gm_id q"
  by (simp add: changed_row_def)

lemma inv_update:
  assumes "mode_inv db" "update_transaction ctx now ids input db = Inr db'"
  shows "mode_inv db'"
  using assms(2)
proof (cases rule: updated_shape)
  case (1 row k)
  have "map gm_id (md_guardrails db') = map gm_id (md_guardrails db)"
    by (simp add: 1 comp_def if_distrib cong: if_cong)
  moreover have "generation_at_least j (md_fleet db')" if "generation_at_least j (md_fleet db)" for j
    using that 1 by (simp add: generation_at_least_def)
  moreover have "generation_at_least (gm_generation (changed_row now (k + 1) input q)) (md_fleet db')" for q
    by (simp add: 1 generation_at_least_def changed_row_def)
  moreover have "q \<in> set (md_guardrails db) \<or> (\<exists>p. q = changed_row now (k + 1) input p)"
    if "q \<in> set (md_guardrails db')" for q
    using that by (auto simp: 1 split: if_splits)
  moreover have "runners (md_fleet db') = runners (md_fleet db)" by (simp add: 1)
  ultimately show ?thesis
    using assms(1) unfolding mode_inv_def by metis
qed

lemma settle_row_fields [simp]:
  "md_fleet (settle_row cutoff row db) = md_fleet db"
  "md_projects (settle_row cutoff row db) = md_projects db"
  by (simp_all add: settle_row_def)

lemma settle_rows_fields [simp]:
  "md_fleet (fold (settle_row cutoff) rows db) = md_fleet db"
  "md_projects (fold (settle_row cutoff) rows db) = md_projects db"
  by (induction rows arbitrary: db) simp_all

lemma settle_row_keys:
  "map (\<lambda>q. (gm_id q, gm_generation q)) (md_guardrails (settle_row cutoff row db))
    = map (\<lambda>q. (gm_id q, gm_generation q)) (md_guardrails db)"
  by (auto simp: settle_row_def)

lemma settle_rows_keys:
  "map (\<lambda>q. (gm_id q, gm_generation q)) (md_guardrails (fold (settle_row cutoff) rows db))
    = map (\<lambda>q. (gm_id q, gm_generation q)) (md_guardrails db)"
  by (induction rows arbitrary: db) (simp_all add: settle_row_keys)

section \<open>Settling a mode\<close>

text \<open>The condition for showing a mode as applied, without the snapshot: there are Runners, and each
  announces the capability, is online with a recent heartbeat and has acknowledged the generation.\<close>

definition acknowledged_by_all :: "int \<Rightarrow> mode_row \<Rightarrow> instance_row list \<Rightarrow> bool" where
  "acknowledged_by_all cutoff q rs \<longleftrightarrow> rs \<noteq> [] \<and>
    list_all (\<lambda>r. map_of (rg_labels (in_registration r)) PROTECTION_MODE_CAPABILITY = Some ''1'' \<and>
      in_status r \<noteq> Offline \<and> cutoff \<le> in_lastHeartbeatAt r \<and>
      gm_generation q \<le> in_protectionGeneration r) rs"

lemma modeApplied_iff:
  "rm_modeApplied (runner_mode_of g cutoff r) \<longleftrightarrow>
    map_of (rg_labels (in_registration r)) PROTECTION_MODE_CAPABILITY = Some ''1'' \<and>
    in_status r \<noteq> Offline \<and> cutoff \<le> in_lastHeartbeatAt r \<and> g \<le> in_protectionGeneration r"
  by (auto simp: runner_mode_of_def Let_def)

lemma length_filter_all: "length (filter P xs) = length xs \<longleftrightarrow> list_all P xs"
  by (induction xs) (auto simp: le_imp_less_Suc less_imp_neq)

lemma snapshot_all_applied:
  "pm_status (protectionModeSnapshot q rs ready cutoff) = All_Applied \<longleftrightarrow> acknowledged_by_all cutoff q rs"
proof -
  let ?states = "map (runner_mode_of (gm_generation q) cutoff) rs"
  have "list_all rm_modeApplied ?states \<longleftrightarrow> list_all (\<lambda>r. rm_modeApplied (runner_mode_of (gm_generation q) cutoff r)) rs"
    by (simp add: list.pred_map comp_def)
  then show ?thesis
    using length_filter_all[of rm_modeApplied ?states]
    by (auto simp: protectionModeSnapshot_def Let_def acknowledged_by_all_def modeApplied_iff)
qed

lemma awaited_runners_cong:
  "md_fleet db' = md_fleet db \<Longrightarrow> md_projects db' = md_projects db \<Longrightarrow>
    awaited_runners db' v q = awaited_runners db v q"
  by (cases "gm_projectId q") (simp_all add: awaited_runners_def joined_runners_def allocated_def)

definition settle_one :: "(mode_row \<Rightarrow> bool) \<Rightarrow> mode_row \<Rightarrow> mode_row \<Rightarrow> mode_row" where
  "settle_one P row q = (if P row \<and> gm_id q = gm_id row \<and> gm_generation q = gm_generation row
     then q\<lparr>gm_applied := gm_mode row\<rparr> else q)"

lemma settle_rows:
  assumes "\<And>row. P row = acknowledged_by_all cutoff row (awaited_runners db (\<lambda>_. True) row)"
  shows "md_guardrails (fold (settle_row cutoff) rows db) = map (fold (settle_one P) rows) (md_guardrails db)"
  using assms
proof (induction rows arbitrary: db)
  case (Cons row rows)
  have "awaited_runners (settle_row cutoff row db) v q = awaited_runners db v q" for v q
    by (rule awaited_runners_cong) simp_all
  then have "md_guardrails (fold (settle_row cutoff) rows (settle_row cutoff row db))
      = map (fold (settle_one P) rows) (md_guardrails (settle_row cutoff row db))"
    by (intro Cons.IH) (simp add: Cons.prems)
  moreover have "md_guardrails (settle_row cutoff row db) = map (settle_one P row) (md_guardrails db)"
    using Cons.prems[of row]
    by (auto simp: settle_row_def snapshot_all_applied settle_one_def map_idI)
  ultimately show ?case by simp
qed simp

lemma settle_one_id [simp]: "gm_id (settle_one P row q) = gm_id q"
  by (simp add: settle_one_def)

lemma settle_others: "gm_id q \<notin> gm_id ` set rows \<Longrightarrow> fold (settle_one P) rows q = q"
  by (induction rows) (auto simp: settle_one_def)

lemma settle_own:
  assumes "distinct (map gm_id rows)" "\<And>row. row \<in> set rows \<Longrightarrow> gm_id row = gm_id q \<Longrightarrow> row = q"
  shows "fold (settle_one P) rows q = (if q \<in> set rows \<and> P q then q\<lparr>gm_applied := gm_mode q\<rparr> else q)"
  using assms
proof (induction rows)
  case (Cons row rows)
  show ?case
  proof (cases "gm_id row = gm_id q")
    case True
    then have "row = q" using Cons.prems(2) by simp
    moreover have "gm_id q \<notin> gm_id ` set rows"
      using Cons.prems(1) True by auto
    moreover have "settle_one P q q = (if P q then q\<lparr>gm_applied := gm_mode q\<rparr> else q)"
      by (simp add: settle_one_def)
    ultimately show ?thesis
      by (simp add: settle_others)
  next
    case False
    then have "settle_one P row q = q" "row \<noteq> q" by (auto simp: settle_one_def)
    then show ?thesis using Cons by auto
  qed
qed simp

text \<open>A result that counts: accepted, not ahead of the controller, and from the registered boot of a
  Runner that has not reported anything newer.\<close>

definition counting_result :: "mode_result \<Rightarrow> mode_db \<Rightarrow> bool" where
  "counting_result input db \<longleftrightarrow> mr_accepted input \<and>
    generation_at_least (mr_generation input) (md_fleet db) \<and> list_ex (result_hits input) (runners (md_fleet db))"

definition with_result :: "mode_result \<Rightarrow> mode_db \<Rightarrow> mode_db" where
  "with_result input db = db\<lparr>md_fleet := (md_fleet db)\<lparr>runners :=
     map (\<lambda>r. if result_hits input r then result_row input r else r) (runners (md_fleet db))\<rparr>\<rparr>"

lemma record_result_cases:
  "record_result after now input db =
    (if \<not> generation_at_least (mr_generation input) (md_fleet db) then db
     else if counting_result input db
       then fold (settle_row (now - after * 1000)) (filter unsettled (md_guardrails db)) (with_result input db)
     else with_result input db)"
  by (auto simp: record_result_def counting_result_def with_result_def generation_at_least_def Let_def
      split: option.splits)

lemma record_result_fleet:
  "md_fleet (record_result after now input db) = (if generation_at_least (mr_generation input) (md_fleet db)
     then md_fleet (with_result input db) else md_fleet db)"
  "md_projects (record_result after now input db) = md_projects db"
  by (simp_all add: record_result_cases with_result_def)

lemma record_result_rows:
  assumes "distinct (map gm_id (md_guardrails db))"
  shows "md_guardrails (record_result after now input db) = map (\<lambda>q.
    if counting_result input db \<and> unsettled q \<and>
      acknowledged_by_all (now - after * 1000) q
        (awaited_runners (record_result after now input db) (\<lambda>_. True) q)
    then q\<lparr>gm_applied := gm_mode q\<rparr> else q) (md_guardrails db)"
proof (cases "counting_result input db")
  case True
  then have g: "generation_at_least (mr_generation input) (md_fleet db)" by (simp add: counting_result_def)
  let ?P = "\<lambda>row. acknowledged_by_all (now - after * 1000) row
    (awaited_runners (with_result input db) (\<lambda>_. True) row)"
  have al: "awaited_runners (record_result after now input db) v q = awaited_runners (with_result input db) v q"
    for v q
    by (rule awaited_runners_cong) (use g in \<open>simp_all add: record_result_fleet with_result_def\<close>)
  have "md_guardrails (record_result after now input db)
      = map (fold (settle_one ?P) (filter unsettled (md_guardrails db))) (md_guardrails db)"
    using True g settle_rows[of ?P, OF refl] by (simp add: record_result_cases with_result_def)
  also have "\<dots> = map (\<lambda>q. if unsettled q \<and> ?P q then q\<lparr>gm_applied := gm_mode q\<rparr> else q) (md_guardrails db)"
  proof (rule map_cong[OF refl])
    fix q assume q: "q \<in> set (md_guardrails db)"
    have "row = q" if "row \<in> set (filter unsettled (md_guardrails db))" "gm_id row = gm_id q" for row
      using that q assms by (auto simp: distinct_map inj_on_def)
    then show "fold (settle_one ?P) (filter unsettled (md_guardrails db)) q
        = (if unsettled q \<and> ?P q then q\<lparr>gm_applied := gm_mode q\<rparr> else q)"
      using settle_own[of "filter unsettled (md_guardrails db)" q ?P] assms q
      by (simp add: distinct_map_filter)
  qed
  finally show ?thesis using True al by simp
next
  case False
  then show ?thesis by (simp add: record_result_cases with_result_def map_idI)
qed

lemma inv_result: "mode_inv db \<Longrightarrow> mode_inv (record_result after now input db)"
proof -
  assume inv: "mode_inv db"
  let ?db = "record_result after now input db"
  have gen: "generation_at_least k (md_fleet ?db) = generation_at_least k (md_fleet db)" for k
    by (simp add: record_result_fleet with_result_def generation_at_least_def)
  have rows: "map (\<lambda>q. (gm_id q, gm_generation q)) (md_guardrails ?db)
      = map (\<lambda>q. (gm_id q, gm_generation q)) (md_guardrails db)"
    by (simp add: record_result_cases settle_rows_keys with_result_def)
  have ids: "map gm_id (md_guardrails ?db) = map gm_id (md_guardrails db)"
    and gens: "map gm_generation (md_guardrails ?db) = map gm_generation (md_guardrails db)"
    using arg_cong[OF rows, of "map fst"] arg_cong[OF rows, of "map snd"] by (simp_all add: comp_def)
  have "gm_generation ` set (md_guardrails ?db) = gm_generation ` set (md_guardrails db)"
    using gens by (metis list.set_map)
  moreover have "\<forall>k \<in> gm_generation ` set (md_guardrails db). generation_at_least k (md_fleet db)"
    using inv by (simp add: mode_inv_def)
  ultimately have "\<forall>q \<in> set (md_guardrails ?db). generation_at_least (gm_generation q) (md_fleet db)"
    by blast
  moreover have "\<forall>r \<in> set (runners (md_fleet ?db)). generation_at_least (in_protectionGeneration r) (md_fleet db) \<and>
       generation_at_least (in_protectionRejectedGeneration r) (md_fleet db)"
    using inv by (auto simp: mode_inv_def record_result_fleet with_result_def result_row_def)
  ultimately show ?thesis
    using inv by (simp add: mode_inv_def gen ids)
qed

interpretation modes: invariant_system mode_init mode_step mode_inv
proof
  show "mode_init db \<Longrightarrow> mode_inv db" for db
    by (simp add: mode_init_def mode_inv_def)
  show "mode_inv db'" if "mode_inv db" "mode_step db db'" for db db'
    using that(2,1)
  proof (cases rule: mode_step.cases)
    case (ms_other gs vs as ps os us)
    then show ?thesis using that(1) by (simp add: mode_inv_def)
  qed (auto intro: inv_fleet_step inv_update inv_result that(1))
qed

section \<open>What the service guarantees\<close>

text \<open>Claim C12. Settling a mode is exact: in every reachable state, recording a Runner's result
  changes nothing of a Guardrail except its applied mode, and that becomes its desired mode exactly
  when the result counts (accepted, not ahead of the controller, from the registered boot of a
  Runner with nothing newer), the mode was still unsettled, and after the result every Runner
  allocated to the Guardrail (at least one) announces the capability, is online with a recent
  heartbeat and has acknowledged the generation of the change.\<close>

theorem result_settles_exactly:
  assumes "reach mode_init mode_step db"
  shows "md_guardrails (record_result after now input db) = map (\<lambda>q.
    if counting_result input db \<and> unsettled q \<and>
      acknowledged_by_all (now - after * 1000) q
        (awaited_runners (record_result after now input db) (\<lambda>_. True) q)
    then q\<lparr>gm_applied := gm_mode q\<rparr> else q) (md_guardrails db)"
  using modes.reachable_inv[OF assms] by (intro record_result_rows) (simp add: mode_inv_def)

lemma fresh_generation_unapplied:
  assumes "mode_inv db" "update_transaction ctx now ids input db = Inr db'" "r \<in> set (runners (md_fleet db'))"
    "q \<in> set (md_guardrails db')" "gm_id q = mu_id input"
  shows "in_protectionGeneration r < gm_generation q"
  using assms(2)
proof (cases rule: updated_shape)
  case (1 row k)
  have "gm_generation q = k + 1"
    using assms(4,5) by (auto simp: 1 changed_row_def)
  moreover have "in_protectionGeneration r \<le> k"
    using assms(1,3) 1 by (auto simp: mode_inv_def generation_at_least_def)
  ultimately show ?thesis by simp
qed

lemma get_mode_shape:
  assumes "get_mode ctx after now db gid = Inr s"
  obtains q rs where "q \<in> set (md_guardrails db)" "gm_id q = gid" "set rs \<subseteq> set (runners (md_fleet db))"
    "\<exists>ready u. s = (protectionModeSnapshot q rs ready (now - after * 1000))\<lparr>pm_updatedBy := u\<rparr>"
proof -
  obtain w where w: "resourceReadPredicate (md_owners db) ctx Guardrail = Inr w"
    using assms by (cases "resourceReadPredicate (md_owners db) ctx Guardrail") (simp_all add: get_mode_def)
  let ?f = "List.find (\<lambda>g. gm_id g = gid \<and> \<not> gm_deleted g \<and> w (gm_id g) (gm_projectId g)) (md_guardrails db)"
  obtain q where q: "?f = Some q" using assms w by (cases ?f) (simp_all add: get_mode_def)
  obtain rs where rs: "mode_runners ctx True db q = Inr rs"
    using assms w q by (cases "mode_runners ctx True db q") (simp_all add: get_mode_def mode_summary_def)
  have "set (awaited_runners db v q) \<subseteq> set (runners (md_fleet db))" for v
    by (auto simp: awaited_runners_def joined_runners_def Let_def split: option.splits)
  then have "set rs \<subseteq> set (runners (md_fleet db))"
    using rs by (auto simp: mode_runners_def and_then_eq_Inr split: if_splits)
  then show thesis
    using find_Some_mem[OF q] assms w q rs
    by (intro that[of q rs]) (auto simp: get_mode_def mode_summary_def Let_def)
qed

lemma snapshot_none_applied:
  assumes "\<And>r. r \<in> set rs \<Longrightarrow> in_protectionGeneration r < gm_generation q"
  shows "pm_applied (protectionModeSnapshot q rs ready cutoff) = 0"
    "pm_status (protectionModeSnapshot q rs ready cutoff) \<in> {No_Runner, Any_Failed, All_Applying}"
proof -
  have none: "filter rm_modeApplied (map (runner_mode_of (gm_generation q) cutoff) rs) = []"
    using assms by (fastforce simp: filter_empty_conv modeApplied_iff)
  then show "pm_applied (protectionModeSnapshot q rs ready cutoff) = 0"
    by (simp add: protectionModeSnapshot_def Let_def)
  show "pm_status (protectionModeSnapshot q rs ready cutoff) \<in> {No_Runner, Any_Failed, All_Applying}"
    using none by (simp add: protectionModeSnapshot_def Let_def)
qed

lemma snapshot_row_fields [simp]:
  "pm_mode (protectionModeSnapshot q rs ready cutoff) = gm_mode q"
  "pm_appliedMode (protectionModeSnapshot q rs ready cutoff) = gm_applied q"
  "pm_generation (protectionModeSnapshot q rs ready cutoff) = gm_generation q"
  by (simp_all add: protectionModeSnapshot_def Let_def)

lemma repeated_update_conflicts:
  assumes "mode_inv db" "update_transaction ctx now ids input db = Inr db'"
    "mu_id input' = mu_id input" "mu_expectedGeneration input' = mu_expectedGeneration input"
  shows "throwing (update_transaction ctx' now' ids' input' db')"
proof (rule ccontr)
  assume "\<not> throwing (update_transaction ctx' now' ids' input' db')"
  then obtain db2 where "update_transaction ctx' now' ids' input' db' = Inr db2"
    by (cases "update_transaction ctx' now' ids' input' db'") auto
  then obtain row' where row': "row' \<in> set (md_guardrails db')" "gm_id row' = mu_id input"
    "gm_generation row' = mu_expectedGeneration input"
    by (rule updated_shape) (use assms in auto)
  from assms(2) show False
  proof (cases rule: updated_shape)
    case (1 row k)
    then have "gm_generation row \<le> k"
      using assms(1) by (auto simp: mode_inv_def generation_at_least_def)
    moreover have "gm_generation row' = k + 1"
      using row'(1,2) by (auto simp: 1 changed_row_def)
    ultimately show False using row'(3) 1 by simp
  qed
qed

text \<open>Claim C11. A mode change is never shown as applied before a Runner has acknowledged it, and is
  protected against concurrent edits: in every reachable state, the settings a successful update
  returns carry the new mode under a generation above the one the caller expected, keep the mode
  applied so far as the applied mode, count no Runner as applied and are not reported applied or
  partial; a second update that expects the same generation is refused, whoever makes it.\<close>

theorem mode_change_awaits_acknowledgement:
  assumes "reach mode_init mode_step db"
    and "update_mode ctx after now later ids input db = (Inr s, db')"
    and "mu_id input' = mu_id input" "mu_expectedGeneration input' = mu_expectedGeneration input"
  shows "pm_mode s = mu_mode input \<and> pm_generation s > mu_expectedGeneration input \<and> pm_applied s = 0 \<and>
    pm_status s \<in> {No_Runner, Any_Failed, All_Applying} \<and>
    (\<exists>row \<in> set (md_guardrails db). gm_id row = mu_id input \<and> pm_appliedMode s = gm_applied row) \<and>
    throwing (update_transaction ctx' now' ids' input' db')"
proof -
  have inv: "mode_inv db" using modes.reachable_inv[OF assms(1)] .
  have up: "update_transaction ctx now ids input db = Inr db'" and get: "get_mode ctx after later db' (mu_id input) = Inr s"
    using assms(2) by (auto simp: update_mode_def split: sum.splits)
  obtain q rs ready u where q: "q \<in> set (md_guardrails db')" "gm_id q = mu_id input"
    and rs: "set rs \<subseteq> set (runners (md_fleet db'))"
    and s: "s = (protectionModeSnapshot q rs ready (later - after * 1000))\<lparr>pm_updatedBy := u\<rparr>"
    by (rule get_mode_shape[OF get]) blast
  have behind: "in_protectionGeneration r < gm_generation q" if "r \<in> set rs" for r
    using fresh_generation_unapplied[OF inv up _ q] rs that by blast
  from up show ?thesis
  proof (cases rule: updated_shape)
    case (1 row k)
    obtain p where p: "p \<in> set (md_guardrails db)" "gm_id p = mu_id input" "q = changed_row now (k + 1) input p"
      using q by (auto simp: 1)
    have "gm_generation row \<le> k"
      using inv 1 by (auto simp: mode_inv_def generation_at_least_def)
    then show ?thesis
      using s p snapshot_none_applied[OF behind] 1 repeated_update_conflicts[OF inv up assms(3,4)]
      by (auto simp: changed_row_def)
  qed
qed

text \<open>The two queries by which a mode reaches Runners agree: the pools a Guardrail's mode is sent to
  and the Runners its settlement waits for.\<close>

lemma find_pool_unique:
  "distinct (map pl_id (pools fl)) \<Longrightarrow> find_pool fl pid = Some pool \<Longrightarrow>
    pool \<in> set (pools fl) \<and> pl_id pool = pid \<and> (\<forall>p \<in> set (pools fl). pl_id p = pid \<longrightarrow> p = pool)"
  unfolding find_pool_def using find_Some_mem by (fastforce simp: distinct_map inj_on_def)

lemma awaited_runners_project:
  assumes "gm_projectId q = Some p" "distinct (map pl_id (pools (md_fleet db)))"
    "find_pool (md_fleet db) (in_poolId r) = Some pool" "r \<in> set (runners (md_fleet db))"
  shows "r \<in> set (awaited_runners db (\<lambda>_. True) q) \<longleftrightarrow>
    (\<exists>pr \<in> set (md_projects db). pr_id pr = p \<and> allocated (md_fleet db) pr pool)"
proof -
  define C where "C x \<longleftrightarrow> (\<exists>pr \<in> set (md_projects db). pr_id pr = p \<and> allocated (md_fleet db) pr x)" for x :: runner_pool_row
  have "in_poolId r \<in> pl_id ` {x \<in> set (pools (md_fleet db)). C x} \<longleftrightarrow> C pool"
  proof
    assume "in_poolId r \<in> pl_id ` {x \<in> set (pools (md_fleet db)). C x}"
    then obtain x where x: "x \<in> set (pools (md_fleet db))" "C x" "pl_id x = in_poolId r" by auto
    then have "x = pool" using find_pool_unique[OF assms(2,3)] by blast
    then show "C pool" using x(2) by simp
  next
    assume "C pool"
    then show "in_poolId r \<in> pl_id ` {x \<in> set (pools (md_fleet db)). C x}"
      using find_pool_unique[OF assms(2,3)] by (intro image_eqI[of _ _ pool]) simp_all
  qed
  moreover have "r \<in> set (joined_runners db)"
    using assms(3,4) by (simp add: joined_runners_def)
  ultimately show ?thesis
    using assms(1) by (simp add: awaited_runners_def Let_def C_def list_ex_iff Bex_def)
qed

text \<open>Claim C13. Modes are awaited exactly where they are sent: for an active Guardrail of a Project
  and a registered Runner, the mode map sent to the Runner's pool contains the Guardrail with its
  desired mode if and only if the Runner is among those whose acknowledgement the settlement of that
  Guardrail waits for (tables with unique keys).\<close>

theorem mode_awaited_where_sent:
  assumes "distinct (map pl_id (pools (md_fleet db)))" "distinct (map gm_id (md_guardrails db))"
    and "q \<in> set (md_guardrails db)" "gm_projectId q = Some p" "gm_status q = Lifecycle_Active" "\<not> gm_deleted q"
    and "r \<in> set (runners (md_fleet db))" "in_poolId r \<noteq> []"
    and "desired_modes (Some (in_poolId r)) db = Inr (g, sent)"
  shows "(gm_id q, gm_mode q) \<in> set sent \<longleftrightarrow> r \<in> set (awaited_runners db (\<lambda>_. True) q)"
proof -
  obtain pool where pool: "find_pool (md_fleet db) (in_poolId r) = Some pool"
    using assms(8,9) by (cases "find_pool (md_fleet db) (in_poolId r)") (simp_all add: desired_modes_def Let_def falsy_def)
  have same: "x = q" if "x \<in> set (md_guardrails db)" "gm_id x = gm_id q" for x
    using that assms(2,3) by (auto simp: distinct_map inj_on_def)
  define V where "V x \<longleftrightarrow> list_ex (\<lambda>m. gm_projectId x = Some m)
    (map pr_id (filter (\<lambda>pr. allocated (md_fleet db) pr pool) (md_projects db)))" for x :: mode_row
  have "sent = map (\<lambda>x. (gm_id x, gm_mode x))
      (filter (\<lambda>x. \<not> gm_deleted x \<and> gm_status x = Lifecycle_Active \<and> V x) (md_guardrails db))"
    using assms(8,9) pool by (simp add: desired_modes_def Let_def falsy_def V_def)
  then have sent: "set sent = (\<lambda>x. (gm_id x, gm_mode x)) `
      {x \<in> set (md_guardrails db). \<not> gm_deleted x \<and> gm_status x = Lifecycle_Active \<and> V x}"
    by simp
  have "(gm_id q, gm_mode q) \<in> set sent \<longleftrightarrow> V q"
  proof
    assume "(gm_id q, gm_mode q) \<in> set sent"
    then obtain x where x: "x \<in> set (md_guardrails db)" "V x" "gm_id x = gm_id q"
      unfolding sent by auto
    then show "V q" using same[OF x(1,3)] by simp
  qed (unfold sent, rule image_eqI[of _ _ q], use assms(3,5,6) in simp_all)
  also have "\<dots> \<longleftrightarrow> (\<exists>pr \<in> set (md_projects db). allocated (md_fleet db) pr pool \<and> pr_id pr = p)"
    using assms(4) by (auto simp: V_def list_ex_iff)
  also have "\<dots> \<longleftrightarrow> r \<in> set (awaited_runners db (\<lambda>_. True) q)"
    using awaited_runners_project[OF assms(4,1) pool assms(7)] by blast
  finally show ?thesis .
qed

text \<open>A Guardrail without a Project waits for the Runners of the default pool, and its mode is never
  in the map sent to a pool.\<close>

lemma unowned_mode_never_sent:
  assumes "gm_projectId q = None" "distinct (map gm_id (md_guardrails db))" "q \<in> set (md_guardrails db)"
    "pid \<noteq> []" "desired_modes (Some pid) db = Inr (g, sent)"
  shows "gm_id q \<notin> fst ` set sent"
proof -
  have "x = q" if "x \<in> set (md_guardrails db)" "gm_id x = gm_id q" for x
    using that assms(2,3) by (auto simp: distinct_map inj_on_def)
  moreover have "\<exists>x \<in> set (md_guardrails db). gm_id x = i \<and> gm_projectId x \<noteq> None" if "(i, m) \<in> set sent" for i m
    using that assms(4,5) by (fastforce simp: desired_modes_def Let_def falsy_def list_ex_iff split: option.splits)
  ultimately show ?thesis using assms(1) by fastforce
qed

section \<open>A run: a Runner registers, a mode changes, the Runner acknowledges it\<close>

definition capable_registration :: registration where
  "capable_registration = sample_registration\<lparr>rg_labels := [(PROTECTION_MODE_CAPABILITY, ''1'')]\<rparr>"

definition sample_modes :: mode_db where
  "sample_modes = \<lparr>md_fleet = sample_fleet,
     md_owners = \<lparr>od_guardrails = [], od_trafficRouters = [], od_endpoints = [], od_policyResources = [],
       od_policyRecords = [], od_policyImportedVersions = [], od_modelDefinitions = []\<rparr>,
     md_projects = [], md_guardrails = [], md_versions = [], md_artifacts = [], md_users = [],
     md_outbox = [], md_audit = []\<rparr>"

definition sample_guardrail :: mode_row where
  "sample_guardrail = \<lparr>gm_id = ''g'', gm_projectId = Some ''p'', gm_status = Lifecycle_Active, gm_deleted = False,
     gm_mode = Mode_Enforce, gm_applied = Mode_Enforce, gm_generation = 0, gm_updatedAt = None, gm_updatedBy = None,
     gm_reason = [], gm_desiredGeneration = 3\<rparr>"

definition capable_fleet :: fleet_db where
  "capable_fleet = snd (projr (registerRunner False 100000 capable_registration (Some ''s1'') sample_fleet))"

definition sample_ready :: mode_db where
  "sample_ready = sample_modes\<lparr>md_fleet := capable_fleet, md_guardrails := [sample_guardrail],
     md_versions := [\<lparr>rel_guardrailId = ''g'', rel_version = 1, rel_artifactId = Some ''a'', rel_ready = True\<rparr>],
     md_artifacts := [\<lparr>ar_id = ''a'', ar_guardrailId = ''g'', ar_version = 1\<rparr>],
     md_projects := [\<lparr>pr_id = ''p'', pr_name = ''p'', pr_groupId = ''default''\<rparr>]\<rparr>"

definition sample_update :: mode_update where
  "sample_update = \<lparr>mu_id = ''g'', mu_mode = Mode_Monitor, mu_expectedGeneration = 0, mu_reason = ''incident'',
     mu_actorId = ''u''\<rparr>"

definition sample_changed :: mode_db where
  "sample_changed = snd (update_mode None 30 110000 110001 (''o'', ''e'') sample_update sample_ready)"

definition sample_result :: mode_result where
  "sample_result = \<lparr>mr_runnerId = ''runner-default-0'', mr_bootId = ''b'', mr_generation = 4, mr_accepted = True,
     mr_reason = None\<rparr>"

lemma sample_ready_reach: "reach mode_init mode_step sample_ready"
proof -
  have register: "registerRunner False 100000 capable_registration (Some ''s1'') sample_fleet = Inr (3, capable_fleet)"
    by code_simp
  have gen: "generation capable_fleet = Some 3" by code_simp
  have fleet: "md_fleet sample_modes = sample_fleet" by (simp add: sample_modes_def)
  have "reach mode_init mode_step sample_modes"
    by (rule reach_init) (simp add: mode_init_def sample_modes_def sample_fleet_def generation_at_least_def)
  then have "reach mode_init mode_step (sample_modes\<lparr>md_fleet := capable_fleet\<rparr>)"
    by (rule reach_step) (rule ms_fleet, unfold fleet, rule st_register[OF register])
  moreover have "mode_step (sample_modes\<lparr>md_fleet := capable_fleet\<rparr>) sample_ready"
    using ms_other[where gs = "[sample_guardrail]" and db = "sample_modes\<lparr>md_fleet := capable_fleet\<rparr>"
        and vs = "md_versions sample_ready" and as = "md_artifacts sample_ready"
        and ps = "md_projects sample_ready" and os = "md_owners sample_ready" and us = "md_users sample_ready"]
    by (simp add: sample_ready_def sample_modes_def sample_guardrail_def generation_at_least_def gen)
  ultimately show ?thesis by (rule reach_step)
qed

lemma sample_changed_update:
  "update_transaction None 110000 (''o'', ''e'') sample_update sample_ready = Inr sample_changed"
  by code_simp

lemma result_settles_exactly_witness:
  "map (\<lambda>q. (gm_id q, gm_mode q, gm_applied q)) (md_guardrails sample_changed) = [(''g'', Mode_Monitor, Mode_Enforce)] \<and>
   map (\<lambda>q. (gm_id q, gm_mode q, gm_applied q))
     (md_guardrails (record_result 30 120000 sample_result sample_changed)) = [(''g'', Mode_Monitor, Mode_Monitor)]"
proof
  show "map (\<lambda>q. (gm_id q, gm_mode q, gm_applied q)) (md_guardrails sample_changed) = [(''g'', Mode_Monitor, Mode_Enforce)]"
    by code_simp
  have reached: "reach mode_init mode_step sample_changed"
    using sample_ready_reach sample_changed_update by (blast intro: reach_step ms_update)
  show "map (\<lambda>q. (gm_id q, gm_mode q, gm_applied q))
     (md_guardrails (record_result 30 120000 sample_result sample_changed)) = [(''g'', Mode_Monitor, Mode_Monitor)]"
    unfolding result_settles_exactly[OF reached]
    by code_simp
qed

lemma mode_change_awaits_acknowledgement_witness:
  "\<exists>s. update_mode None 30 110000 110001 (''o'', ''e'') sample_update sample_ready = (Inr s, sample_changed) \<and>
    pm_generation s > 0 \<and> pm_status s \<in> {No_Runner, Any_Failed, All_Applying} \<and>
    throwing (update_transaction None 110002 (''o2'', ''e2'') (sample_update\<lparr>mu_mode := Mode_Bypass\<rparr>) sample_changed)"
proof -
  let ?r = "update_mode None 30 110000 110001 (''o'', ''e'') sample_update sample_ready"
  have "\<not> isl (fst ?r) \<and> snd ?r = sample_changed" by code_simp
  then obtain s where s: "?r = (Inr s, sample_changed)"
    by (metis prod.collapse sum.collapse(2))
  then show ?thesis
    using mode_change_awaits_acknowledgement[OF sample_ready_reach s,
        of "sample_update\<lparr>mu_mode := Mode_Bypass\<rparr>" None 110002 "(''o2'', ''e2'')"]
    by (auto simp: sample_update_def)
qed

lemma mode_awaited_where_sent_witness:
  "(gm_id sample_guardrail, gm_mode sample_guardrail) \<in> set [(''g'', Mode_Enforce)] \<and>
   hd (runners capable_fleet) \<in> set (awaited_runners sample_ready (\<lambda>_. True) sample_guardrail)"
proof -
  have facts: "distinct (map pl_id (pools (md_fleet sample_ready)))" "distinct (map gm_id (md_guardrails sample_ready))"
    "sample_guardrail \<in> set (md_guardrails sample_ready)" "gm_projectId sample_guardrail = Some ''p''"
    "gm_status sample_guardrail = Lifecycle_Active" "\<not> gm_deleted sample_guardrail"
    "hd (runners capable_fleet) \<in> set (runners (md_fleet sample_ready))"
    "in_poolId (hd (runners capable_fleet)) \<noteq> []"
    "desired_modes (Some (in_poolId (hd (runners capable_fleet)))) sample_ready = Inr (3, [(''g'', Mode_Enforce)])"
    by code_simp+
  have "(gm_id sample_guardrail, gm_mode sample_guardrail) \<in> set [(''g'', Mode_Enforce)]"
    by (simp add: sample_guardrail_def)
  then show ?thesis
    using mode_awaited_where_sent[OF facts] by blast
qed

end
