(* ===== verification/Endpoint_Service.thy ===== *)
theory Endpoint_Service
  imports Endpoint_Credentials Protection_Modes
begin

text \<open>
  The Endpoint workflows of \<^verbatim>\<open>controller/server/services/control-plane.ts\<close>: creation, update,
  credential rotation and revocation, the check of a scan credential, and deletion with its traffic
  impact, with the pool lookup of \<^verbatim>\<open>project-group-routing.ts\<close>. The Runner and pool tables are
  those of \<open>Runner_Sessions\<close>, the watermarks those of \<open>Telemetry_Batches\<close>. A transaction that
  throws leaves the tables as they were. Clock readings are numbered: \<open>clock k\<close> is the \<open>k\<close>-th reading
  of an operation. The setup text of an Endpoint's public view is not modelled.
\<close>

section \<open>Tables\<close>

datatype EndpointLifecycleState = Endpoint_Active | Endpoint_Disabled

fun endpoint_status_name :: "EndpointLifecycleState \<Rightarrow> string" where
  "endpoint_status_name Endpoint_Active = ''active''"
| "endpoint_status_name Endpoint_Disabled = ''disabled''"

record endpoint_record =
  et_id :: string
  et_projectId :: string
  et_trafficRouterId :: "string option"
  et_name :: string
  et_adapter :: string
  et_credentialRequired :: bool
  et_scanFlagOnlyDefault :: bool
  et_status :: EndpointLifecycleState
  et_verification :: json
  et_deletedAt :: "int option"
  et_deletedBy :: "string option"
  et_deleteReason :: "string option"
  et_createdAt :: int
  et_updatedAt :: int

record bound_router =
  br_id :: string
  br_projectId :: string
  br_deleted :: bool
  br_activeRevision :: "int option"

record runtime_event =
  ev_projectId :: "string option"
  ev_guardrailId :: "string option"
  ev_endpointId :: "string option"
  ev_routerId :: "string option"
  ev_direction :: string
  ev_occurredAt :: int

record audit_event =
  ae_kind :: string
  ae_projectId :: "string option"
  ae_actorId :: string
  ae_resourceId :: string
  ae_detail :: "(string \<times> json) list"

record outbox_event =
  ob_kind :: string
  ob_aggregateId :: string
  ob_payload :: "(string \<times> json) list"

record endpoint_db =
  es_fleet :: fleet_db
  es_projects :: "project_row list"
  es_endpoints :: "endpoint_record list"
  es_routers :: "bound_router list"
  es_events :: "runtime_event list"
  es_watermarks :: "watermark_row list"
  es_audit :: "audit_event list"
  es_outbox :: "outbox_event list"

record endpoint_config =
  ec_windowMinutes :: int
  ec_offlineAfterSeconds :: int
  ec_telemetryStaleAfterSeconds :: int
  ec_runnerScopedTelemetry :: bool

definition endpoint_owners :: "endpoint_db \<Rightarrow> owner_db" where
  "endpoint_owners db = \<lparr>od_guardrails = [], od_trafficRouters = [],
     od_endpoints = map (\<lambda>e. \<lparr>own_id = et_id e, own_projectId = Some (et_projectId e),
       own_deleted = (et_deletedAt e \<noteq> None)\<rparr>) (es_endpoints db),
     od_policyResources = [], od_policyRecords = [], od_policyImportedVersions = [], od_modelDefinitions = []\<rparr>"

definition find_endpoint :: "endpoint_db \<Rightarrow> string \<Rightarrow> endpoint_record option" where
  "find_endpoint db eid = List.find (\<lambda>e. et_id e = eid \<and> et_deletedAt e = None) (es_endpoints db)"

definition write_endpoint :: "(endpoint_record \<Rightarrow> endpoint_record) \<Rightarrow> string \<Rightarrow> endpoint_db \<Rightarrow> endpoint_db" where
  "write_endpoint f eid db = db\<lparr>es_endpoints :=
     map (\<lambda>e. if et_id e = eid \<and> et_deletedAt e = None then f e else e) (es_endpoints db)\<rparr>"

section \<open>Views\<close>

text \<open>What callers see of an Endpoint: the credentials without their digests. The operations below
  return the stored row, of which the response is this view.\<close>

record public_endpoint =
  pe_id :: string
  pe_projectId :: string
  pe_trafficRouterId :: "string option"
  pe_name :: string
  pe_adapter :: string
  pe_status :: EndpointLifecycleState
  pe_credentialRequired :: bool
  pe_scanFlagOnlyDefault :: "bool option"
  pe_createdAt :: int
  pe_updatedAt :: int
  pe_credentials :: "PublicEndpointCredential list"

definition publicEndpoint :: "(string \<Rightarrow> string \<Rightarrow> int) \<Rightarrow> endpoint_record \<Rightarrow> public_endpoint" where
  "publicEndpoint lc e = \<lparr>pe_id = et_id e, pe_projectId = et_projectId e,
     pe_trafficRouterId = et_trafficRouterId e, pe_name = et_name e, pe_adapter = et_adapter e,
     pe_status = et_status e, pe_credentialRequired = et_credentialRequired e,
     pe_scanFlagOnlyDefault = (if et_adapter e = ''f5-scan'' then Some (et_scanFlagOnlyDefault e) else None),
     pe_createdAt = et_createdAt e, pe_updatedAt = et_updatedAt e,
     pe_credentials = publicEndpointCredentials lc (et_verification e)\<rparr>"

definition getEndpoint ::
  "(string \<Rightarrow> string \<Rightarrow> int) \<Rightarrow> AuthorityContext option \<Rightarrow> endpoint_db \<Rightarrow> string \<Rightarrow> thrown + public_endpoint" where
  "getEndpoint lc ctx db eid = and_then (resourceReadPredicate (endpoint_owners db) ctx Endpoint) (\<lambda>readable.
     case List.find (\<lambda>e. et_id e = eid \<and> et_deletedAt e = None \<and> readable (et_id e) (Some (et_projectId e)))
       (es_endpoints db) of
       None \<Rightarrow> Inl (NotFoundError ''Endpoint'' eid) | Some e \<Rightarrow> Inr (publicEndpoint lc e))"

definition verifyScanTestCredential ::
  "(string \<Rightarrow> string \<Rightarrow> int) \<Rightarrow> (string \<Rightarrow> string) \<Rightarrow> endpoint_db \<Rightarrow> string \<Rightarrow> string \<Rightarrow> thrown + unit" where
  "verifyScanTestCredential lc sha256 db eid credential =
    (let refused = Inl (ValidationError ''Use an active API key belonging to the selected Scan Endpoint.'' []) in
     case find_endpoint db eid of None \<Rightarrow> refused
     | Some e \<Rightarrow>
       if et_adapter e \<noteq> ''f5-scan'' \<or> et_status e \<noteq> Endpoint_Active \<or>
          \<not> list_ex (\<lambda>c. cr_sha256 c = sha256 credential) (activeEndpointCredentials lc (et_verification e))
       then refused else Inr ())"

section \<open>Changes\<close>

text \<open>Every change raises the desired generation and announces it in the same transaction.\<close>

definition advanceEndpointDesiredState ::
  "string \<Rightarrow> string \<Rightarrow> string \<Rightarrow> (string \<times> json) list \<Rightarrow> endpoint_db \<Rightarrow> thrown + endpoint_db" where
  "advanceEndpointDesiredState endpointId actorId auditKind auditDetail db =
    (case generation (es_fleet db) of None \<Rightarrow> Inl uninitialized
     | Some k \<Rightarrow> let g = JNum (of_int (k + 1)) in
       Inr (db\<lparr>es_fleet := (es_fleet db)\<lparr>generation := Some (k + 1)\<rparr>,
         es_audit := es_audit db @ [\<lparr>ae_kind = auditKind, ae_projectId = None, ae_actorId = actorId,
           ae_resourceId = endpointId, ae_detail = auditDetail @ [(''generation'', g)]\<rparr>],
         es_outbox := es_outbox db @ [\<lparr>ob_kind = ''runner.desired_state_changed'', ob_aggregateId = endpointId,
           ob_payload = [(''resourceType'', JStr ''endpoint''), (''resourceId'', JStr endpointId),
             (''generation'', g), (''change'', JStr auditKind)]\<rparr>]\<rparr>))"

record endpoint_input =
  ei_name :: string
  ei_adapter :: string
  ei_credentialRequired :: "bool option"
  ei_scanFlagOnlyDefault :: "bool option"
  ei_actorId :: string

definition scan_flag_unsupported :: thrown where
  "scan_flag_unsupported =
     ValidationError ''scanFlagOnlyDefault is only supported by F5 Scan Endpoints.'' []"

definition or_default :: "'a option \<Rightarrow> 'a \<Rightarrow> 'a" where
  "or_default v d = (case v of None \<Rightarrow> d | Some x \<Rightarrow> x)"

definition new_endpoint :: "int \<Rightarrow> string \<Rightarrow> string \<Rightarrow> endpoint_input \<Rightarrow> StoredEndpointCredential \<Rightarrow> endpoint_record" where
  "new_endpoint now eid owner input stored =
    \<lparr>et_id = eid, et_projectId = owner, et_trafficRouterId = None, et_name = ei_name input,
     et_adapter = ei_adapter input, et_credentialRequired = or_default (ei_credentialRequired input) True,
     et_scanFlagOnlyDefault = or_default (ei_scanFlagOnlyDefault input) True, et_status = Endpoint_Active,
     et_verification = verification_json [stored], et_deletedAt = None, et_deletedBy = None,
     et_deleteReason = None, et_createdAt = now, et_updatedAt = now\<rparr>"

definition createEndpoint ::
  "AuthorityContext option \<Rightarrow> int \<Rightarrow> string \<Rightarrow> issue_source \<Rightarrow> endpoint_input \<Rightarrow> endpoint_db
     \<Rightarrow> thrown + (string \<times> endpoint_record) \<times> endpoint_db" where
  "createEndpoint ctx now eid src input db =
    (if ei_adapter input \<notin> {''litellm-generic-guardrail'', ''f5-scan''}
     then Inl (ValidationError ''Unsupported Endpoint adapter.'' [])
     else if ei_scanFlagOnlyDefault input \<noteq> None \<and> ei_adapter input \<noteq> ''f5-scan'' then Inl scan_flag_unsupported
     else let issued = issueEndpointCredential src in
       and_then (projectOwnerForCreate ctx) (\<lambda>owner.
         if list_ex (\<lambda>e. et_id e = eid) (es_endpoints db) then Inl duplicate_key
         else let e = new_endpoint now eid owner input (snd issued) in
           and_then (advanceEndpointDesiredState eid (ei_actorId input) ''endpoint.created''
             ([(''name'', JStr (ei_name input)), (''adapter'', JStr (ei_adapter input)),
               (''credentialId'', JStr (cr_id (snd issued))),
               (''credentialRequired'', JBool (or_default (ei_credentialRequired input) True))] @
              (if ei_adapter input = ''f5-scan''
               then [(''scanFlagOnlyDefault'', JBool (or_default (ei_scanFlagOnlyDefault input) True))] else []))
             (db\<lparr>es_endpoints := es_endpoints db @ [e]\<rparr>)) (\<lambda>db'.
           Inr ((fst issued, e), db'))))"

record endpoint_change =
  eu_id :: string
  eu_enabled :: "bool option"
  eu_credentialRequired :: "bool option"
  eu_scanFlagOnlyDefault :: "bool option"
  eu_actorId :: string

definition change_detail :: "endpoint_record \<Rightarrow> endpoint_record \<Rightarrow> (string \<times> json) list" where
  "change_detail old new =
    [(''previousStatus'', JStr (endpoint_status_name (et_status old))),
     (''status'', JStr (endpoint_status_name (et_status new)))] @
    (if et_credentialRequired new \<noteq> et_credentialRequired old
     then [(''previousCredentialRequired'', JBool (et_credentialRequired old)),
           (''credentialRequired'', JBool (et_credentialRequired new))] else []) @
    (if et_scanFlagOnlyDefault new \<noteq> et_scanFlagOnlyDefault old
     then [(''previousScanFlagOnlyDefault'', JBool (et_scanFlagOnlyDefault old)),
           (''scanFlagOnlyDefault'', JBool (et_scanFlagOnlyDefault new))] else [])"

definition updateEndpoint ::
  "AuthorityContext option \<Rightarrow> int \<Rightarrow> endpoint_change \<Rightarrow> endpoint_db \<Rightarrow> thrown + endpoint_record \<times> endpoint_db" where
  "updateEndpoint ctx now input db =
    and_then (assertResourceWriteAccess (endpoint_owners db) ctx Endpoint (eu_id input)) (\<lambda>_.
      case find_endpoint db (eu_id input) of None \<Rightarrow> Inl (NotFoundError ''Endpoint'' (eu_id input))
      | Some e \<Rightarrow>
        if eu_scanFlagOnlyDefault input \<noteq> None \<and> et_adapter e \<noteq> ''f5-scan'' then Inl scan_flag_unsupported
        else
          let status = (case eu_enabled input of None \<Rightarrow> et_status e
                | Some b \<Rightarrow> if b then Endpoint_Active else Endpoint_Disabled);
              e' = e\<lparr>et_status := status,
                et_scanFlagOnlyDefault := or_default (eu_scanFlagOnlyDefault input) (et_scanFlagOnlyDefault e),
                et_credentialRequired := or_default (eu_credentialRequired input) (et_credentialRequired e)\<rparr>
          in if e' = e then Inr (e, db)
             else let new = e'\<lparr>et_updatedAt := now\<rparr>;
                      kind = (if et_scanFlagOnlyDefault e' \<noteq> et_scanFlagOnlyDefault e \<or>
                                 et_credentialRequired e' \<noteq> et_credentialRequired e then ''endpoint.updated''
                              else if eu_enabled input = Some True then ''endpoint.enabled'' else ''endpoint.disabled'')
               in and_then (advanceEndpointDesiredState (eu_id input) (eu_actorId input) kind (change_detail e e')
                    (write_endpoint (\<lambda>_. new) (eu_id input) db)) (\<lambda>db'. Inr (new, db')))"

definition rotateEndpointCredential ::
  "AuthorityContext option \<Rightarrow> int \<Rightarrow> issue_source \<Rightarrow> string \<Rightarrow> string \<Rightarrow> endpoint_db
     \<Rightarrow> thrown + string \<times> endpoint_db" where
  "rotateEndpointCredential ctx now src eid actorId db =
    and_then (assertResourceWriteAccess (endpoint_owners db) ctx Endpoint eid) (\<lambda>_.
      let issued = issueEndpointCredential src in
      case find_endpoint db eid of None \<Rightarrow> Inl (NotFoundError ''Endpoint'' eid)
      | Some e \<Rightarrow>
        let verification = appendEndpointCredential (et_verification e) (snd issued) in
        and_then (advanceEndpointDesiredState eid actorId ''endpoint.credential_rotated''
          [(''credentialId'', JStr (cr_id (snd issued))), (''keyHint'', JStr (cr_keyHint (snd issued)))]
          (write_endpoint (\<lambda>q. q\<lparr>et_verification := verification, et_updatedAt := now\<rparr>) eid db)) (\<lambda>db'.
        Inr (fst issued, db')))"

definition revokeEndpointCredential ::
  "(string \<Rightarrow> string \<Rightarrow> int) \<Rightarrow> (int \<Rightarrow> string) \<Rightarrow> AuthorityContext option \<Rightarrow> int \<Rightarrow> string \<Rightarrow> string \<Rightarrow> string
     \<Rightarrow> endpoint_db \<Rightarrow> thrown + endpoint_db" where
  "revokeEndpointCredential lc isoText ctx now eid credentialId actorId db =
    and_then (assertResourceWriteAccess (endpoint_owners db) ctx Endpoint eid) (\<lambda>_.
      case find_endpoint db eid of None \<Rightarrow> Inl (NotFoundError ''Endpoint'' eid)
      | Some e \<Rightarrow>
        let active = activeEndpointCredentials lc (et_verification e) in
        if \<not> list_ex (\<lambda>c. cr_id c = credentialId) active then Inl (NotFoundError ''Endpoint credential'' credentialId)
        else if length active = 1 then Inl (ConflictError ''An Endpoint must retain at least one active credential.''
          ''last_endpoint_credential'' [])
        else case revokeCredential (et_verification e) credentialId (isoText now) of
          None \<Rightarrow> Inl (NotFoundError ''Endpoint credential'' credentialId)
        | Some verification \<Rightarrow>
          advanceEndpointDesiredState eid actorId ''endpoint.credential_revoked'' [(''credentialId'', JStr credentialId)]
            (write_endpoint (\<lambda>q. q\<lparr>et_verification := verification, et_updatedAt := now\<rparr>) eid db))"

section \<open>Deletion\<close>

text \<open>The pools that serve a Project, ordered by identifier.\<close>

definition poolsForProject :: "endpoint_db \<Rightarrow> string \<Rightarrow> thrown + runner_pool_row list" where
  "poolsForProject db projectId =
    (if \<not> list_ex (\<lambda>pr. pr_id pr = projectId) (es_projects db)
     then Inl (ControllerError ''The project has no Runner group assignment.'' 503 ''project_group_unavailable'' [])
     else Inr (sort_key pl_id (filter (\<lambda>pool. list_ex (\<lambda>pr. pr_id pr = projectId \<and> allocated (es_fleet db) pr pool)
       (es_projects db)) (pools (es_fleet db)))))"

definition allowedPoolIds :: "endpoint_db \<Rightarrow> string list \<Rightarrow> string \<Rightarrow> thrown + string list" where
  "allowedPoolIds db poolIds projectId =
    (if poolIds = [] then Inr []
     else and_then (poolsForProject db projectId) (\<lambda>permitted.
       Inr (filter (\<lambda>i. i \<in> set (map pl_id permitted)) poolIds)))"

fun all_results :: "('e + 'a) list \<Rightarrow> 'e + 'a list" where
  "all_results [] = Inr []"
| "all_results (r # rs) = and_then r (\<lambda>x. and_then (all_results rs) (\<lambda>xs. Inr (x # xs)))"

record DeletionImpact =
  di_resourceId :: string
  di_windowMinutes :: int
  di_incomingRequestCount :: nat
  di_lastRequestAt :: "int option"
  di_activeRouterCount :: nat
  di_telemetryFresh :: bool
  di_telemetryWatermark :: "int option"
  di_requiresSecondConfirmation :: bool

definition event_concerns :: "ResourceType \<Rightarrow> string \<Rightarrow> runtime_event \<Rightarrow> bool" where
  "event_concerns kind key ev =
    ((case kind of Guardrail \<Rightarrow> ev_guardrailId ev | Endpoint \<Rightarrow> ev_endpointId ev | _ \<Rightarrow> ev_routerId ev) = Some key)"

definition incoming_traffic :: "ResourceType \<Rightarrow> string \<Rightarrow> int \<Rightarrow> runtime_event list \<Rightarrow> runtime_event list" where
  "incoming_traffic kind key cutoff events =
    filter (\<lambda>ev. event_concerns kind key ev \<and> ev_direction ev = ''incoming'' \<and> cutoff \<le> ev_occurredAt ev) events"

definition last_occurred :: "runtime_event list \<Rightarrow> int option" where
  "last_occurred evs = (case map ev_occurredAt evs of [] \<Rightarrow> None | t # ts \<Rightarrow> Some (fold max ts t))"

definition last_received :: "endpoint_db \<Rightarrow> instance_row \<Rightarrow> int option" where
  "last_received db r =
    map_option wm_lastReceivedAt (List.find (\<lambda>w. wm_runnerId w = in_runnerId r) (es_watermarks db))"

definition telemetry_fresh ::
  "endpoint_config \<Rightarrow> nat \<Rightarrow> bool \<Rightarrow> string list \<Rightarrow> instance_row list \<Rightarrow> (instance_row \<Rightarrow> int option) \<Rightarrow> int \<Rightarrow> bool" where
  "telemetry_fresh config activeRouterCount missingPool poolIds serving received cutoff =
    (\<not> ec_runnerScopedTelemetry config \<and> (activeRouterCount = 0 \<or>
      (\<not> missingPool \<and> poolIds \<noteq> [] \<and>
       list_all (\<lambda>p. list_ex (\<lambda>r. in_poolId r = p) serving) poolIds \<and>
       list_all (\<lambda>r. case received r of None \<Rightarrow> False | Some t \<Rightarrow> cutoff \<le> t) serving)))"

definition oldest_received :: "int option list \<Rightarrow> int option" where
  "oldest_received ts = foldl (\<lambda>oldest t. case oldest of None \<Rightarrow> t
     | Some o1 \<Rightarrow> (case t of Some t1 \<Rightarrow> if t1 < o1 then Some t1 else oldest | None \<Rightarrow> oldest)) None ts"

definition deletionImpact ::
  "endpoint_config \<Rightarrow> (nat \<Rightarrow> int) \<Rightarrow> endpoint_db \<Rightarrow> ResourceType \<Rightarrow> string \<Rightarrow> nat \<Rightarrow> string list
     \<Rightarrow> thrown + DeletionImpact" where
  "deletionImpact config clock db kind key activeRouterCount routerProjectIds =
    (let traffic = incoming_traffic kind key (clock 0 - ec_windowMinutes config * 60000) (es_events db) in
     and_then (all_results (map (poolsForProject db) (js_unique routerProjectIds))) (\<lambda>allocations.
       let missingPool = list_ex (\<lambda>ps. ps = []) allocations;
           uniquePoolIds = js_unique (map pl_id (concat allocations));
           heartbeatCutoff = clock 1 - ec_offlineAfterSeconds config * 1000;
           serving = filter (\<lambda>r. in_poolId r \<in> set uniquePoolIds \<and> in_status r \<noteq> Offline \<and>
             heartbeatCutoff \<le> in_lastHeartbeatAt r) (runners (es_fleet db));
           fresh = telemetry_fresh config activeRouterCount missingPool uniquePoolIds serving (last_received db)
             (clock 2 - ec_telemetryStaleAfterSeconds config * 1000)
       in Inr \<lparr>di_resourceId = key, di_windowMinutes = ec_windowMinutes config,
            di_incomingRequestCount = length traffic, di_lastRequestAt = last_occurred traffic,
            di_activeRouterCount = activeRouterCount, di_telemetryFresh = fresh,
            di_telemetryWatermark = (if \<not> fresh \<or> list_ex (\<lambda>r. last_received db r = None) serving then None
              else oldest_received (map (last_received db) serving)),
            di_requiresSecondConfirmation = (0 < length traffic)\<rparr>))"

definition visibleDeletionImpact ::
  "AuthorityContext option \<Rightarrow> (nat \<Rightarrow> int) \<Rightarrow> endpoint_db \<Rightarrow> ResourceType \<Rightarrow> string \<Rightarrow> DeletionImpact \<Rightarrow> nat
     \<Rightarrow> thrown + DeletionImpact" where
  "visibleDeletionImpact ctx clock db kind key global activeRouterCount =
    and_then (currentProjectId ctx) (\<lambda>p.
      if falsy p then Inr global
      else let traffic = filter (\<lambda>ev. ev_projectId ev = p)
             (incoming_traffic kind key (clock 3 - di_windowMinutes global * 60000) (es_events db))
        in Inr (global\<lparr>di_incomingRequestCount := length traffic, di_lastRequestAt := last_occurred traffic,
             di_activeRouterCount := activeRouterCount, di_telemetryWatermark := None\<rparr>))"

definition endpointDeletionImpacts ::
  "endpoint_config \<Rightarrow> AuthorityContext option \<Rightarrow> (nat \<Rightarrow> int) \<Rightarrow> endpoint_db \<Rightarrow> string
     \<Rightarrow> thrown + DeletionImpact \<times> DeletionImpact" where
  "endpointDeletionImpacts config ctx clock db eid =
    and_then (assertResourceWriteAccess (endpoint_owners db) ctx Endpoint eid) (\<lambda>_.
      case find_endpoint db eid of None \<Rightarrow> Inl (NotFoundError ''Endpoint'' eid)
      | Some e \<Rightarrow>
        let bound = (if falsy (et_trafficRouterId e) then None
              else List.find (\<lambda>r. Some (br_id r) = et_trafficRouterId e \<and> \<not> br_deleted r \<and> br_activeRevision r \<noteq> None)
                (es_routers db)) in
        and_then (deletionImpact config clock db Endpoint eid (if bound = None then 0 else 1)
            (if bound = None then [] else [et_projectId e])) (\<lambda>global.
        and_then (currentProjectId ctx) (\<lambda>p.
        and_then (visibleDeletionImpact ctx clock db Endpoint eid global
            (case bound of None \<Rightarrow> 0 | Some r \<Rightarrow> if falsy p \<or> Some (br_projectId r) = p then 1 else 0)) (\<lambda>visible.
          Inr (global, visible)))))"

text \<open>The impact as it is attached to an error; instants as milliseconds.\<close>

definition impact_json :: "DeletionImpact \<Rightarrow> json" where
  "impact_json i = (let instant = (\<lambda>t. case t of None \<Rightarrow> JNull | Some x \<Rightarrow> JNum (of_int x)) in
    JObj [(''resourceId'', JStr (di_resourceId i)), (''windowMinutes'', JNum (of_int (di_windowMinutes i))),
      (''incomingRequestCount'', JNum (of_nat (di_incomingRequestCount i))),
      (''lastRequestAt'', instant (di_lastRequestAt i)),
      (''activeRouterCount'', JNum (of_nat (di_activeRouterCount i))), (''telemetryFresh'', JBool (di_telemetryFresh i)),
      (''telemetryWatermark'', instant (di_telemetryWatermark i)),
      (''requiresSecondConfirmation'', JBool (di_requiresSecondConfirmation i))])"

definition assertDeletionAllowed ::
  "DeletionImpact \<Rightarrow> bool \<Rightarrow> string option \<Rightarrow> string \<Rightarrow> DeletionImpact \<Rightarrow> thrown + unit" where
  "assertDeletionAllowed impact confirmed confirmationName resourceName visible =
    (if \<not> di_telemetryFresh impact then Inl (ConflictError
       ''Runtime telemetry is stale, so recent traffic cannot be evaluated safely.'' ''telemetry_stale''
       [(''impact'', impact_json visible)])
     else if di_requiresSecondConfirmation impact \<and> \<not> confirmed then Inl (ConflictError
       ''Recent incoming traffic requires explicit second confirmation.'' ''recent_traffic_confirmation_required''
       [(''impact'', impact_json visible)])
     else if di_requiresSecondConfirmation impact \<and> confirmationName \<noteq> Some resourceName then Inl (ConflictError
       ''The second confirmation must contain the exact resource name.'' ''confirmation_name_mismatch''
       [(''impact'', impact_json visible)])
     else Inr ())"

definition recordSoftDelete ::
  "string \<Rightarrow> string \<Rightarrow> string \<Rightarrow> DeletionImpact \<Rightarrow> int \<Rightarrow> string option \<Rightarrow> endpoint_db \<Rightarrow> endpoint_db" where
  "recordSoftDelete eid actorId reason impact g projectId db =
    db\<lparr>es_audit := es_audit db @ [\<lparr>ae_kind = ''endpoint.disabled'', ae_projectId = projectId, ae_actorId = actorId,
         ae_resourceId = eid, ae_detail = [(''reason'', JStr reason),
           (''impact'', JObj [(''resourceId'', JStr (di_resourceId impact)),
             (''windowMinutes'', JNum (of_int (di_windowMinutes impact))),
             (''telemetryFresh'', JBool (di_telemetryFresh impact)),
             (''requiresSecondConfirmation'', JBool (di_requiresSecondConfirmation impact))]),
           (''generation'', JNum (of_int g))]\<rparr>],
       es_outbox := es_outbox db @ [\<lparr>ob_kind = ''runner.desired_state_changed'', ob_aggregateId = eid,
         ob_payload = [(''resourceType'', JStr ''endpoint''), (''resourceId'', JStr eid),
           (''generation'', JNum (of_int g)), (''disabled'', JBool True)]\<rparr>]\<rparr>"

record endpoint_deletion =
  ed_id :: string
  ed_actorId :: string
  ed_reason :: string
  ed_confirmRecentTraffic :: bool
  ed_confirmationName :: "string option"

definition deleted_endpoint :: "int \<Rightarrow> endpoint_deletion \<Rightarrow> endpoint_record \<Rightarrow> endpoint_record" where
  "deleted_endpoint now input e = e\<lparr>et_status := Endpoint_Disabled, et_deletedAt := Some now,
     et_deletedBy := Some (ed_actorId input), et_deleteReason := Some (ed_reason input), et_updatedAt := now\<rparr>"

definition foreign_router :: "endpoint_db \<Rightarrow> string \<Rightarrow> string \<Rightarrow> bool" where
  "foreign_router db eid projectId = list_ex (\<lambda>e. et_id e = eid \<and> list_ex (\<lambda>r.
     et_trafficRouterId e = Some (br_id r) \<and> br_projectId r \<noteq> projectId \<and> \<not> br_deleted r) (es_routers db)) (es_endpoints db)"

definition softDeleteEndpoint ::
  "endpoint_config \<Rightarrow> AuthorityContext option \<Rightarrow> (nat \<Rightarrow> int) \<Rightarrow> endpoint_deletion \<Rightarrow> endpoint_db
     \<Rightarrow> thrown + endpoint_db" where
  "softDeleteEndpoint config ctx clock input db =
    and_then (assertResourceWriteAccess (endpoint_owners db) ctx Endpoint (ed_id input)) (\<lambda>_.
      case find_endpoint db (ed_id input) of None \<Rightarrow> Inl (NotFoundError ''Endpoint'' (ed_id input))
      | Some e \<Rightarrow>
        and_then (endpointDeletionImpacts config ctx clock db (ed_id input)) (\<lambda>impacts.
        and_then (assertDeletionAllowed (fst impacts) (ed_confirmRecentTraffic input) (ed_confirmationName input)
            (et_name e) (snd impacts)) (\<lambda>_.
          if foreign_router db (ed_id input) (et_projectId e)
          then Inl (ConflictError ''Endpoint is still referenced by another project's Router.'' ''endpoint_in_use'' [])
          else case generation (es_fleet db) of None \<Rightarrow> Inl uninitialized
            | Some k \<Rightarrow>
              Inr (recordSoftDelete (ed_id input) (ed_actorId input) (ed_reason input) (snd impacts) (k + 1)
                (Some (et_projectId e))
                (write_endpoint (deleted_endpoint (clock 4) input) (ed_id input)
                  (db\<lparr>es_fleet := (es_fleet db)\<lparr>generation := Some (k + 1)\<rparr>\<rparr>))))))"

section \<open>The Endpoints as a transition system\<close>

text \<open>What the service relies on when it issues a credential: a non-empty digest and time text, and an
  identifier that no stored credential has.\<close>

definition stored_ids :: "endpoint_db \<Rightarrow> string set" where
  "stored_ids db = (\<Union>e \<in> set (es_endpoints db). cr_id ` set (structuredCredentials (et_verification e)))"

definition fresh_source :: "issue_source \<Rightarrow> endpoint_db \<Rightarrow> bool" where
  "fresh_source src db \<longleftrightarrow> iss_uuid src \<noteq> [] \<and> iss_uuid src \<notin> stored_ids db \<and> iss_now src \<noteq> [] \<and>
     (\<forall>v. iss_sha256 src v \<noteq> [])"

text \<open>Other services bind Endpoints to Routers and write the remaining tables.\<close>

inductive endpoint_step :: "endpoint_db \<Rightarrow> endpoint_db \<Rightarrow> bool" where
  eps_create: "fresh_source src db \<Longrightarrow> createEndpoint ctx now eid src input db = Inr (r, db') \<Longrightarrow> endpoint_step db db'"
| eps_update: "updateEndpoint ctx now change db = Inr (u, db') \<Longrightarrow> endpoint_step db db'"
| eps_rotate: "fresh_source src db \<Longrightarrow> rotateEndpointCredential ctx now src eid actor db = Inr (v, db') \<Longrightarrow> endpoint_step db db'"
| eps_revoke: "isoText now \<noteq> [] \<Longrightarrow> revokeEndpointCredential lc isoText ctx now eid cid actor db = Inr db' \<Longrightarrow> endpoint_step db db'"
| eps_delete: "softDeleteEndpoint config ctx clock deletion db = Inr db' \<Longrightarrow> endpoint_step db db'"
| eps_other: "endpoint_step db (db\<lparr>es_fleet := fl, es_projects := ps, es_routers := rs, es_events := evs,
    es_watermarks := ws, es_audit := as, es_outbox := os,
    es_endpoints := map (\<lambda>e. e\<lparr>et_trafficRouterId := b (et_id e)\<rparr>) (es_endpoints db)\<rparr>)"

definition endpoint_init :: "endpoint_db \<Rightarrow> bool" where
  "endpoint_init db \<longleftrightarrow> es_endpoints db = []"

definition credentials_ok :: "json \<Rightarrow> bool" where
  "credentials_ok v \<longleftrightarrow> distinct (map cr_id (structuredCredentials v)) \<and>
     (\<exists>c \<in> set (structuredCredentials v). cr_revokedAt c = None)"

definition endpoint_inv :: "endpoint_db \<Rightarrow> bool" where
  "endpoint_inv db \<longleftrightarrow> distinct (map et_id (es_endpoints db)) \<and>
     (\<forall>e \<in> set (es_endpoints db). credentials_ok (et_verification e))"

lemma advance_fields:
  assumes "advanceEndpointDesiredState eid actor kind detail db = Inr db'"
  obtains k where "generation (es_fleet db) = Some k"
    "db' = db\<lparr>es_fleet := (es_fleet db)\<lparr>generation := Some (k + 1)\<rparr>,
       es_audit := es_audit db @ [\<lparr>ae_kind = kind, ae_projectId = None, ae_actorId = actor,
         ae_resourceId = eid, ae_detail = detail @ [(''generation'', JNum (of_int (k + 1)))]\<rparr>],
       es_outbox := es_outbox db @ [\<lparr>ob_kind = ''runner.desired_state_changed'', ob_aggregateId = eid,
         ob_payload = [(''resourceType'', JStr ''endpoint''), (''resourceId'', JStr eid),
           (''generation'', JNum (of_int (k + 1))), (''change'', JStr kind)]\<rparr>]\<rparr>"
  using assms by (cases "generation (es_fleet db)") (auto simp: advanceEndpointDesiredState_def Let_def)

lemma advance_endpoints: "advanceEndpointDesiredState eid actor kind detail db = Inr db' \<Longrightarrow> es_endpoints db' = es_endpoints db"
  by (erule advance_fields) simp

lemma find_endpoint_Some:
  "find_endpoint db eid = Some e \<Longrightarrow> e \<in> set (es_endpoints db) \<and> et_id e = eid \<and> et_deletedAt e = None"
  unfolding find_endpoint_def using find_Some_mem by fastforce

lemma create_shape:
  assumes "createEndpoint ctx now eid src input db = Inr (r, db')"
  obtains owner detail where "eid \<notin> et_id ` set (es_endpoints db)"
    "advanceEndpointDesiredState eid (ei_actorId input) ''endpoint.created'' detail
       (db\<lparr>es_endpoints := es_endpoints db @ [new_endpoint now eid owner input (snd (issueEndpointCredential src))]\<rparr>) = Inr db'"
  using assms by (auto simp: createEndpoint_def Let_def and_then_eq_Inr list_ex_iff split: if_splits)

lemma update_shape:
  assumes "updateEndpoint ctx now input db = Inr (u, db')"
  obtains (same) "db' = db"
  | (changed) e kind detail where "find_endpoint db (eu_id input) = Some e" "et_id u = et_id e"
      "et_verification u = et_verification e"
      "advanceEndpointDesiredState (eu_id input) (eu_actorId input) kind detail
         (write_endpoint (\<lambda>_. u) (eu_id input) db) = Inr db'"
proof (cases "find_endpoint db (eu_id input)")
  case None
  then show thesis using assms by (simp add: updateEndpoint_def and_then_eq_Inr)
next
  case (Some e)
  show thesis
  proof (cases "db' = db")
    case False
    then show thesis
      using assms Some by (auto simp: updateEndpoint_def and_then_eq_Inr Let_def split: if_splits intro!: changed[of e])
  qed (rule same)
qed

lemma rotate_shape:
  assumes "rotateEndpointCredential ctx now src eid actor db = Inr (v, db')"
  obtains e detail where "find_endpoint db eid = Some e"
    "advanceEndpointDesiredState eid actor ''endpoint.credential_rotated'' detail
       (write_endpoint (\<lambda>q. q\<lparr>et_verification := appendEndpointCredential (et_verification e)
          (snd (issueEndpointCredential src)), et_updatedAt := now\<rparr>) eid db) = Inr db'"
  using assms
  by (cases "find_endpoint db eid") (auto simp: rotateEndpointCredential_def and_then_eq_Inr Let_def)

lemma revoke_shape:
  assumes "revokeEndpointCredential lc isoText ctx now eid cid actor db = Inr db'"
  obtains e v detail where "find_endpoint db eid = Some e"
    "cid \<in> cr_id ` set (activeEndpointCredentials lc (et_verification e))"
    "length (activeEndpointCredentials lc (et_verification e)) \<noteq> 1"
    "revokeCredential (et_verification e) cid (isoText now) = Some v"
    "advanceEndpointDesiredState eid actor ''endpoint.credential_revoked'' detail
       (write_endpoint (\<lambda>q. q\<lparr>et_verification := v, et_updatedAt := now\<rparr>) eid db) = Inr db'"
proof (cases "find_endpoint db eid")
  case None
  then show thesis using assms by (simp add: revokeEndpointCredential_def and_then_eq_Inr)
next
  case (Some e)
  then show thesis
    using assms that[of e]
    by (auto simp: revokeEndpointCredential_def and_then_eq_Inr Let_def list_ex_iff simp del: set_active length_active
        split: if_splits option.splits)
qed

lemma delete_shape:
  assumes "softDeleteEndpoint config ctx clock input db = Inr db'"
  obtains e global visible k where "find_endpoint db (ed_id input) = Some e"
    "endpointDeletionImpacts config ctx clock db (ed_id input) = Inr (global, visible)"
    "assertDeletionAllowed global (ed_confirmRecentTraffic input) (ed_confirmationName input) (et_name e) visible = Inr ()"
    "\<not> foreign_router db (ed_id input) (et_projectId e)" "generation (es_fleet db) = Some k"
    "db' = recordSoftDelete (ed_id input) (ed_actorId input) (ed_reason input) visible (k + 1) (Some (et_projectId e))
       (write_endpoint (deleted_endpoint (clock 4) input) (ed_id input)
         (db\<lparr>es_fleet := (es_fleet db)\<lparr>generation := Some (k + 1)\<rparr>\<rparr>))"
proof (cases "find_endpoint db (ed_id input)")
  case None
  then show thesis using assms by (simp add: softDeleteEndpoint_def and_then_eq_Inr)
next
  case (Some e)
  then show thesis
    using assms that[of e]
    by (auto simp: softDeleteEndpoint_def and_then_eq_Inr split: if_splits option.splits)
qed

lemma write_endpoint_ids:
  "(\<And>q. et_id q = eid \<Longrightarrow> et_id (f q) = eid) \<Longrightarrow>
    map et_id (es_endpoints (write_endpoint f eid db)) = map et_id (es_endpoints db)"
  by (auto simp: write_endpoint_def)

lemma inv_write:
  assumes "endpoint_inv db" "\<And>q. et_id q = eid \<Longrightarrow> et_id (f q) = eid"
    "\<And>q. q \<in> set (es_endpoints db) \<Longrightarrow> et_id q = eid \<Longrightarrow> et_deletedAt q = None \<Longrightarrow> credentials_ok (et_verification (f q))"
    "es_endpoints db' = es_endpoints (write_endpoint f eid db)"
  shows "endpoint_inv db'"
  using assms(1,3) write_endpoint_ids[of eid f db, OF assms(2)]
  by (auto simp: endpoint_inv_def assms(4)) (auto simp: write_endpoint_def)

lemma found_unique:
  "endpoint_inv db \<Longrightarrow> find_endpoint db eid = Some e \<Longrightarrow> q \<in> set (es_endpoints db) \<Longrightarrow> et_id q = eid \<Longrightarrow> q = e"
  using find_endpoint_Some[of db eid e] by (auto simp: endpoint_inv_def distinct_map inj_on_def)

lemma appended_ok:
  assumes "credentials_ok v" "credential_ok c" "cr_id c \<notin> cr_id ` set (structuredCredentials v)"
  shows "credentials_ok (appendEndpointCredential v c)"
  using assms by (auto simp: credentials_ok_def structured_append)

lemma revoked_ok:
  assumes "credentials_ok v" "revokeCredential v i now = Some v'" "now \<noteq> []"
    "length (activeEndpointCredentials lc v) \<noteq> 1" "i \<in> cr_id ` set (activeEndpointCredentials lc v)"
  shows "credentials_ok v'"
proof -
  let ?cs = "structuredCredentials v"
  let ?f = "\<lambda>c. if revokes i c then c\<lparr>cr_revokedAt := Some now\<rparr> else c"
  have cs': "structuredCredentials v' = map ?f ?cs" by (rule structured_revoked[OF assms(2,3)])
  have ids: "map cr_id (map ?f ?cs) = map cr_id ?cs" by auto
  have "\<exists>c \<in> set ?cs. cr_revokedAt c = None \<and> cr_id c \<noteq> i"
  proof (rule ccontr)
    let ?a = "filter (\<lambda>c. cr_revokedAt c = None) ?cs"
    assume "\<not> (\<exists>c \<in> set ?cs. cr_revokedAt c = None \<and> cr_id c \<noteq> i)"
    then have "cr_id ` set ?a \<subseteq> {i}" by auto
    moreover have "distinct (map cr_id ?a)"
      using assms(1) by (simp add: credentials_ok_def distinct_map_filter)
    ultimately have "length ?a \<le> 1"
      using card_mono[of "{i}" "cr_id ` set ?a"] distinct_card[of "map cr_id ?a"] by simp
    moreover have "?a \<noteq> []" using assms(5) by (auto simp: filter_empty_conv)
    ultimately have "length ?a = 1" by (cases ?a) auto
    then show False using assms(4) by simp
  qed
  then obtain c where "c \<in> set ?cs" "cr_revokedAt c = None" "cr_id c \<noteq> i" by blast
  then have "\<exists>c \<in> set (map ?f ?cs). cr_revokedAt c = None"
    by (intro bexI[of _ c]) (auto simp: revokes_def image_iff)
  then show ?thesis
    using assms(1) unfolding credentials_ok_def cs' ids by blast
qed

lemma issued_credential_ok: "fresh_source src db \<Longrightarrow> credential_ok (snd (issueEndpointCredential src))"
  by (auto simp: fresh_source_def intro: issued_ok)

lemma issued_id [simp]: "cr_id (snd (issueEndpointCredential src)) = iss_uuid src"
  "cr_revokedAt (snd (issueEndpointCredential src)) = None"
  by (simp_all add: issueEndpointCredential_def Let_def)

lemma new_endpoint_fields [simp]:
  "et_id (new_endpoint now eid owner input c) = eid"
  "et_verification (new_endpoint now eid owner input c) = verification_json [c]"
  by (simp_all add: new_endpoint_def)

lemma deleted_fields [simp]:
  "et_id (deleted_endpoint now input q) = et_id q"
  "et_verification (deleted_endpoint now input q) = et_verification q"
  by (simp_all add: deleted_endpoint_def)

lemma endpoint_step_inv:
  assumes "endpoint_inv db" "endpoint_step db db'"
  shows "endpoint_inv db'"
  using assms(2,1)
proof (induction rule: endpoint_step.induct)
  case (eps_create src db ctx now eid input r db')
  from eps_create(2) show ?case
  proof (cases rule: create_shape)
    case (1 owner detail)
    then show ?thesis
      using eps_create(1,3) advance_endpoints[OF 1(2)] issued_credential_ok[OF eps_create(1)]
      by (auto simp: endpoint_inv_def credentials_ok_def)
  qed
next
  case (eps_update ctx now change db u db')
  from eps_update(1) show ?case
  proof (cases rule: update_shape)
    case (changed e kind detail)
    note e = find_endpoint_Some[OF changed(1)]
    show ?thesis
      by (rule inv_write[OF eps_update(2), of "eu_id change" "\<lambda>_. u"])
        (use changed e eps_update(2) advance_endpoints[OF changed(4)] in \<open>auto simp: endpoint_inv_def\<close>)
  qed (use eps_update in simp)
next
  case (eps_rotate src db ctx now eid actor v db')
  from eps_rotate(2) show ?case
  proof (cases rule: rotate_shape)
    case (1 e detail)
    note e = find_endpoint_Some[OF 1(1)]
    have "credentials_ok (appendEndpointCredential (et_verification e) (snd (issueEndpointCredential src)))"
      using eps_rotate(1,3) e issued_credential_ok[OF eps_rotate(1)]
      by (intro appended_ok) (auto simp: endpoint_inv_def fresh_source_def stored_ids_def)
    then show ?thesis
      by (intro inv_write[OF eps_rotate(3) _ _ advance_endpoints[OF 1(2)]]) auto
  qed
next
  case (eps_revoke isoText now lc ctx eid cid actor db db')
  from eps_revoke(2) show ?case
  proof (cases rule: revoke_shape)
    case (1 e v detail)
    have "credentials_ok (et_verification e)"
      using eps_revoke(3) find_endpoint_Some[OF 1(1)] by (simp add: endpoint_inv_def)
    then have "credentials_ok v" using revoked_ok 1(2-4) eps_revoke(1) by blast
    then show ?thesis
      by (intro inv_write[OF eps_revoke(3) _ _ advance_endpoints[OF 1(5)]]) auto
  qed
next
  case (eps_delete config ctx clock deletion db db')
  from eps_delete(1) show ?case
  proof (cases rule: delete_shape)
    case (1 e global visible k)
    show ?thesis
      by (rule inv_write[OF eps_delete(2), of "ed_id deletion" "deleted_endpoint (clock 4) deletion"])
        (use eps_delete(2) in \<open>auto simp: endpoint_inv_def 1(6) recordSoftDelete_def write_endpoint_def\<close>)
  qed
next
  case (eps_other db fl ps rs evs ws as os b)
  then show ?case by (simp add: endpoint_inv_def comp_def)
qed

interpretation endpoints: invariant_system endpoint_init endpoint_step endpoint_inv
  by unfold_locales (simp add: endpoint_init_def endpoint_inv_def, rule endpoint_step_inv)

section \<open>Revocation is final\<close>

definition revoked_at :: "string \<Rightarrow> string \<Rightarrow> endpoint_db \<Rightarrow> bool" where
  "revoked_at eid cid db \<longleftrightarrow> (\<exists>e \<in> set (es_endpoints db). et_id e = eid \<and>
     (\<exists>c \<in> set (structuredCredentials (et_verification e)). cr_id c = cid \<and> cr_revokedAt c \<noteq> None))"

text \<open>A write keeps a revocation when every row it touches keeps its revoked credentials.\<close>

lemma revoked_write:
  assumes "revoked_at eid cid db" "es_endpoints db' = es_endpoints (write_endpoint f k db)"
    "\<And>q. q \<in> set (es_endpoints db) \<Longrightarrow> et_id q = k \<Longrightarrow> et_id (f q) = k \<and>
       {c \<in> set (structuredCredentials (et_verification q)). cr_revokedAt c \<noteq> None}
         \<subseteq> set (structuredCredentials (et_verification (f q)))"
  shows "revoked_at eid cid db'"
proof -
  obtain e c where e: "e \<in> set (es_endpoints db)" "et_id e = eid"
    "c \<in> set (structuredCredentials (et_verification e))" "cr_id c = cid" "cr_revokedAt c \<noteq> None"
    using assms(1) by (auto simp: revoked_at_def)
  let ?e = "if et_id e = k \<and> et_deletedAt e = None then f e else e"
  have "?e \<in> set (es_endpoints db')"
    using e(1) by (auto simp: assms(2) write_endpoint_def)
  moreover have "et_id ?e = eid" "c \<in> set (structuredCredentials (et_verification ?e))"
    using assms(3)[OF e(1)] e(2,3,5) by auto
  ultimately show ?thesis using e(4,5) unfolding revoked_at_def by blast
qed

lemma structured_kept_revoked:
  assumes "revokeCredential v i now = Some v'" "now \<noteq> []"
  shows "{c \<in> set (structuredCredentials v). cr_revokedAt c \<noteq> None} \<subseteq> set (structuredCredentials v')"
  unfolding structured_revoked[OF assms] by (force simp: revokes_def)

lemma step_keeps_revoked:
  assumes "endpoint_inv db" "endpoint_step db db'" "revoked_at eid cid db"
  shows "revoked_at eid cid db'"
  using assms(2,1,3)
proof (induction rule: endpoint_step.induct)
  case (eps_create src db ctx now k input r db')
  from eps_create(2) show ?case
  proof (cases rule: create_shape)
    case (1 owner detail)
    then show ?thesis using eps_create(4) advance_endpoints[OF 1(2)] by (auto simp: revoked_at_def)
  qed
next
  case (eps_update ctx now change db u db')
  from eps_update(1) show ?case
  proof (cases rule: update_shape)
    case (changed e kind detail)
    have "q = e" if "q \<in> set (es_endpoints db)" "et_id q = eu_id change" for q
      using found_unique[OF eps_update(2) changed(1) that] .
    then show ?thesis
      using revoked_write[OF eps_update(3) advance_endpoints[OF changed(4)]] changed(2,3)
        find_endpoint_Some[OF changed(1)] by auto
  qed (use eps_update in simp)
next
  case (eps_rotate src db ctx now k actor v db')
  from eps_rotate(2) show ?case
  proof (cases rule: rotate_shape)
    case (1 e detail)
    have "q = e" if "q \<in> set (es_endpoints db)" "et_id q = k" for q
      using found_unique[OF eps_rotate(3) 1(1) that] .
    then show ?thesis
      using revoked_write[OF eps_rotate(4) advance_endpoints[OF 1(2)]] find_endpoint_Some[OF 1(1)]
        structured_append[OF issued_credential_ok[OF eps_rotate(1)]] by auto
  qed
next
  case (eps_revoke isoText now lc ctx k i actor db db')
  from eps_revoke(2) show ?case
  proof (cases rule: revoke_shape)
    case (1 e v detail)
    have "q = e" if "q \<in> set (es_endpoints db)" "et_id q = k" for q
      using found_unique[OF eps_revoke(3) 1(1) that] .
    then show ?thesis
      using revoked_write[OF eps_revoke(4) advance_endpoints[OF 1(5)]] find_endpoint_Some[OF 1(1)]
        structured_kept_revoked[OF 1(4) eps_revoke(1)] by auto
  qed
next
  case (eps_delete config ctx clock deletion db db')
  from eps_delete(1) show ?case
  proof (cases rule: delete_shape)
    case (1 e global visible k)
    show ?thesis
      by (rule revoked_write[OF eps_delete(3), of _ "deleted_endpoint (clock 4) deletion" "ed_id deletion"])
        (auto simp: 1(6) recordSoftDelete_def write_endpoint_def)
  qed
next
  case (eps_other db fl ps rs evs ws as os b)
  then show ?case by (auto simp: revoked_at_def)
qed

lemma revoked_not_active:
  assumes "endpoint_inv db" "revoked_at eid cid db" "e \<in> set (es_endpoints db)" "et_id e = eid"
  shows "cid \<notin> cr_id ` set (activeEndpointCredentials lc (et_verification e))"
proof -
  obtain e' c where c: "e' \<in> set (es_endpoints db)" "et_id e' = eid"
    "c \<in> set (structuredCredentials (et_verification e'))" "cr_id c = cid" "cr_revokedAt c \<noteq> None"
    using assms(2) by (auto simp: revoked_at_def)
  have "e' = e" using assms(1,3,4) c(1,2) by (auto simp: endpoint_inv_def distinct_map inj_on_def)
  moreover have "inj_on cr_id (set (structuredCredentials (et_verification e)))"
    using assms(1,3) by (auto simp: endpoint_inv_def credentials_ok_def distinct_map)
  ultimately have "d = c" if "d \<in> set (structuredCredentials (et_verification e))" "cr_id d = cid" for d
    using c(3,4) that by (auto dest: inj_onD)
  then show ?thesis using c(5) by auto
qed

lemma revoked_now:
  assumes "endpoint_inv db" "revokeEndpointCredential lc isoText ctx now eid cid actor db = Inr db'" "isoText now \<noteq> []"
  shows "revoked_at eid cid db'"
  using assms(2)
proof (cases rule: revoke_shape)
  case (1 e v detail)
  note e = find_endpoint_Some[OF 1(1)]
  obtain c where c: "c \<in> set (structuredCredentials (et_verification e))" "cr_id c = cid" "cr_revokedAt c = None"
    using 1(2) by auto
  have "c\<lparr>cr_revokedAt := Some (isoText now)\<rparr> \<in> set (structuredCredentials v)"
    unfolding structured_revoked[OF 1(4) assms(3)] using c by (force simp: revokes_def)
  moreover have "e\<lparr>et_verification := v, et_updatedAt := now\<rparr> \<in> set (es_endpoints db')"
    unfolding advance_endpoints[OF 1(5)] write_endpoint_def using e
    by (simp add: image_iff) (rule bexI[of _ e], simp_all)
  ultimately show ?thesis
    using e c(2) unfolding revoked_at_def
    by (intro bexI[of _ "e\<lparr>et_verification := v, et_updatedAt := now\<rparr>"]
        conjI bexI[of _ "c\<lparr>cr_revokedAt := Some (isoText now)\<rparr>"]) simp_all
qed

section \<open>What a deletion has checked\<close>

lemma all_results_Inr: "all_results rs = Inr xs \<longleftrightarrow> rs = map Inr xs"
  by (induction rs arbitrary: xs) (auto simp: and_then_eq_Inr Cons_eq_map_conv)

text \<open>The evidence behind a fresh impact: every pool that serves the Project has an online Runner,
  and every online Runner of those pools has delivered telemetry recently.\<close>

definition telemetry_evidence :: "endpoint_config \<Rightarrow> (nat \<Rightarrow> int) \<Rightarrow> endpoint_db \<Rightarrow> string \<Rightarrow> bool" where
  "telemetry_evidence config clock db projectId \<longleftrightarrow>
    (\<exists>ps. poolsForProject db projectId = Inr ps \<and> ps \<noteq> [] \<and>
      (\<forall>p \<in> set ps. \<exists>r \<in> set (runners (es_fleet db)). in_poolId r = pl_id p \<and> in_status r \<noteq> Offline \<and>
         clock 1 - ec_offlineAfterSeconds config * 1000 \<le> in_lastHeartbeatAt r) \<and>
      (\<forall>p \<in> set ps. \<forall>r \<in> set (runners (es_fleet db)). in_poolId r = pl_id p \<longrightarrow> in_status r \<noteq> Offline \<longrightarrow>
         clock 1 - ec_offlineAfterSeconds config * 1000 \<le> in_lastHeartbeatAt r \<longrightarrow>
         (\<exists>t. last_received db r = Some t \<and> clock 2 - ec_telemetryStaleAfterSeconds config * 1000 \<le> t)))"

lemma impact_fresh:
  assumes "deletionImpact config clock db kind key n ids = Inr i" "di_telemetryFresh i" "ids = [p]" "n \<noteq> 0"
  shows "telemetry_evidence config clock db p"
proof -
  obtain ps where ps: "poolsForProject db p = Inr ps"
    using assms(1,3) by (auto simp: deletionImpact_def Let_def and_then_eq_Inr)
  let ?serving = "filter (\<lambda>r. in_poolId r \<in> set (js_unique (map pl_id ps)) \<and> in_status r \<noteq> Offline \<and>
     clock 1 - ec_offlineAfterSeconds config * 1000 \<le> in_lastHeartbeatAt r) (runners (es_fleet db))"
  have "telemetry_fresh config n (ps = []) (js_unique (map pl_id ps)) ?serving (last_received db)
      (clock 2 - ec_telemetryStaleAfterSeconds config * 1000)"
    using assms ps by (auto simp: deletionImpact_def Let_def)
  then have f: "ps \<noteq> []" "list_all (\<lambda>q. list_ex (\<lambda>r. in_poolId r = q) ?serving) (js_unique (map pl_id ps))"
    "list_all (\<lambda>r. case last_received db r of None \<Rightarrow> False
       | Some t \<Rightarrow> clock 2 - ec_telemetryStaleAfterSeconds config * 1000 \<le> t) ?serving"
    using assms(4) by (simp_all add: telemetry_fresh_def)
  have "\<exists>t. last_received db r = Some t \<and> clock 2 - ec_telemetryStaleAfterSeconds config * 1000 \<le> t"
    if "r \<in> set ?serving" for r
    using f(3) that by (auto simp: list_all_iff split: option.splits)
  then show ?thesis
    unfolding telemetry_evidence_def using ps f(1,2)
    by (intro exI[of _ ps]) (auto simp: list_all_iff list_ex_iff)
qed

lemma impact_counts:
  "deletionImpact config clock db kind key n ids = Inr i \<Longrightarrow>
    di_requiresSecondConfirmation i \<longleftrightarrow>
      incoming_traffic kind key (clock 0 - ec_windowMinutes config * 60000) (es_events db) \<noteq> []"
  "deletionImpact config clock db kind key n ids = Inr i \<Longrightarrow> di_telemetryFresh i \<Longrightarrow> \<not> ec_runnerScopedTelemetry config"
  by (auto simp: deletionImpact_def Let_def and_then_eq_Inr telemetry_fresh_def)

definition bound_active :: "endpoint_db \<Rightarrow> endpoint_record \<Rightarrow> bool" where
  "bound_active db e \<longleftrightarrow> \<not> falsy (et_trafficRouterId e) \<and>
    (\<exists>r \<in> set (es_routers db). Some (br_id r) = et_trafficRouterId e \<and> \<not> br_deleted r \<and> br_activeRevision r \<noteq> None)"

lemma impacts_shape:
  assumes "endpointDeletionImpacts config ctx clock db eid = Inr (global, visible)" "find_endpoint db eid = Some e"
  obtains n ids where "deletionImpact config clock db Endpoint eid n ids = Inr global"
    "bound_active db e \<Longrightarrow> n \<noteq> 0 \<and> ids = [et_projectId e]"
proof -
  define bound where "bound = (if falsy (et_trafficRouterId e) then None
    else List.find (\<lambda>r. Some (br_id r) = et_trafficRouterId e \<and> \<not> br_deleted r \<and> br_activeRevision r \<noteq> None) (es_routers db))"
  have "deletionImpact config clock db Endpoint eid (if bound = None then 0 else 1)
      (if bound = None then [] else [et_projectId e]) = Inr global"
    using assms unfolding bound_def
    by (auto simp: endpointDeletionImpacts_def and_then_eq_Inr Let_def simp del: not_None_eq)
  moreover have "bound \<noteq> None" if "bound_active db e"
    using that by (auto simp: bound_active_def bound_def find_None_iff)
  ultimately show thesis using that by (metis one_neq_zero)
qed

section \<open>Properties\<close>

text \<open>Claim C15. No Endpoint is ever locked out: in every run of the service, with fresh credential
  identifiers, each Endpoint has at least one active credential, whatever was rotated and revoked,
  and no two of its credentials share an identifier.\<close>

theorem endpoint_keeps_credential:
  assumes "reach endpoint_init endpoint_step db" "e \<in> set (es_endpoints db)"
  shows "activeEndpointCredentials lc (et_verification e) \<noteq> [] \<and>
    distinct (map cr_id (structuredCredentials (et_verification e)))"
proof -
  have "credentials_ok (et_verification e)"
    using endpoints.reachable_inv[OF assms(1)] assms(2) by (simp add: endpoint_inv_def)
  then have "set (activeEndpointCredentials lc (et_verification e)) \<noteq> {}"
    "distinct (map cr_id (structuredCredentials (et_verification e)))"
    by (auto simp: credentials_ok_def)
  then show ?thesis by (metis empty_set)
qed

text \<open>Claim C14. Revocation is final: after a credential of an Endpoint was revoked in some reachable
  state, it is not among the active credentials of that Endpoint in any later state, so a scan
  credential accepted later matches the digest of another active credential.\<close>

theorem revoked_credential_stays_revoked:
  assumes "reach endpoint_init endpoint_step db0"
    and "revokeEndpointCredential lc isoText ctx now eid cid actor db0 = Inr db1" "isoText now \<noteq> []"
    and "reach (\<lambda>d. d = db1) endpoint_step db"
    and "e \<in> set (es_endpoints db)" "et_id e = eid"
  shows "cid \<notin> cr_id ` set (activeEndpointCredentials lc' (et_verification e)) \<and>
    (verifyScanTestCredential lc' sha db eid credential = Inr () \<longrightarrow>
      (\<exists>c \<in> set (activeEndpointCredentials lc' (et_verification e)). cr_id c \<noteq> cid \<and> cr_sha256 c = sha credential))"
proof -
  have inv0: "endpoint_inv db0" by (rule endpoints.reachable_inv[OF assms(1)])
  have start: "endpoint_inv db1 \<and> revoked_at eid cid db1"
    using endpoint_step_inv[OF inv0 eps_revoke[OF assms(3,2)]] revoked_now[OF inv0 assms(2,3)] by blast
  have later: "endpoint_inv db \<and> revoked_at eid cid db"
    using assms(4) start by (induction rule: reach.induct) (auto intro: endpoint_step_inv step_keeps_revoked)
  then have out: "cid \<notin> cr_id ` set (activeEndpointCredentials lc' (et_verification e))"
    using revoked_not_active assms(5,6) by blast
  have "q = e" if "find_endpoint db eid = Some q" for q
    using found_unique[OF conjunct1[OF later] that assms(5,6)] by simp
  then have "\<exists>c \<in> set (activeEndpointCredentials lc' (et_verification e)). cr_sha256 c = sha credential"
    if "verifyScanTestCredential lc' sha db eid credential = Inr ()"
    using that by (auto simp: verifyScanTestCredential_def Let_def list_ex_iff simp del: set_active
        split: option.splits if_splits)
  then show ?thesis using out by auto
qed

text \<open>One generation, one desired-state event and one audit event more.\<close>

definition announced :: "endpoint_db \<Rightarrow> endpoint_db \<Rightarrow> bool" where
  "announced db db' \<longleftrightarrow> (\<exists>k ev au. generation (es_fleet db) = Some k \<and> generation (es_fleet db') = Some (k + 1) \<and>
    es_outbox db' = es_outbox db @ [ev] \<and> ob_kind ev = ''runner.desired_state_changed'' \<and>
    map_of (ob_payload ev) ''generation'' = Some (JNum (of_int (k + 1))) \<and>
    es_audit db' = es_audit db @ [au] \<and> (''generation'', JNum (of_int (k + 1))) \<in> set (ae_detail au))"

lemma advance_announced:
  assumes "advanceEndpointDesiredState i a kind detail d = Inr db'" "es_fleet d = es_fleet db"
    "es_outbox d = es_outbox db" "es_audit d = es_audit db"
  shows "announced db db'"
  using assms(1) by (rule advance_fields) (simp add: announced_def assms(2-4))

lemma write_endpoint_fields [simp]:
  "es_fleet (write_endpoint f i db) = es_fleet db" "es_outbox (write_endpoint f i db) = es_outbox db"
  "es_audit (write_endpoint f i db) = es_audit db"
  by (simp_all add: write_endpoint_def)

text \<open>Claim C17. Every change of an Endpoint is announced: a successful creation, update, rotation,
  revocation or deletion either changed nothing at all (an update to the current values) or raised
  the desired generation by exactly one, appended exactly one desired-state event that carries that
  generation, and appended exactly one audit event with it.\<close>

theorem endpoint_changes_announced:
  assumes "createEndpoint ctx now eid src input db = Inr (r, db') \<or> updateEndpoint ctx now change db = Inr (u, db') \<or>
    rotateEndpointCredential ctx now src eid actor db = Inr (v, db') \<or>
    revokeEndpointCredential lc isoText ctx now eid cid actor db = Inr db' \<or>
    softDeleteEndpoint config ctx clock deletion db = Inr db'"
  shows "db' = db \<or> announced db db'"
  using assms
proof (elim disjE)
  assume "createEndpoint ctx now eid src input db = Inr (r, db')"
  then show ?thesis by (rule create_shape) (simp add: advance_announced)
next
  assume "updateEndpoint ctx now change db = Inr (u, db')"
  then show ?thesis by (rule update_shape) (simp_all add: advance_announced)
next
  assume "rotateEndpointCredential ctx now src eid actor db = Inr (v, db')"
  then show ?thesis by (rule rotate_shape) (simp add: advance_announced)
next
  assume "revokeEndpointCredential lc isoText ctx now eid cid actor db = Inr db'"
  then show ?thesis by (rule revoke_shape) (simp add: advance_announced)
next
  assume "softDeleteEndpoint config ctx clock deletion db = Inr db'"
  then show ?thesis by (rule delete_shape) (simp add: announced_def recordSoftDelete_def)
qed

text \<open>Claim C16. Deletion is guarded: an Endpoint is only deleted when telemetry is not
  pool-scoped, when recent incoming traffic (of any Project, within the configured window) was
  confirmed together with the exact name of the Endpoint, when an active Router bound to it is backed
  by fresh telemetry (every pool serving the Project has an online Runner and every such Runner
  delivered telemetry recently), and when no Router of another Project still uses it. The live row is
  then disabled and marked deleted; no other Endpoint changes.\<close>

theorem endpoint_deletion_guarded:
  assumes "softDeleteEndpoint config ctx clock input db = Inr db'"
  shows "\<exists>e \<in> set (es_endpoints db). et_id e = ed_id input \<and> et_deletedAt e = None \<and>
    \<not> ec_runnerScopedTelemetry config \<and>
    (incoming_traffic Endpoint (ed_id input) (clock 0 - ec_windowMinutes config * 60000) (es_events db) \<noteq> [] \<longrightarrow>
       ed_confirmRecentTraffic input \<and> ed_confirmationName input = Some (et_name e)) \<and>
    (bound_active db e \<longrightarrow> telemetry_evidence config clock db (et_projectId e)) \<and>
    \<not> foreign_router db (ed_id input) (et_projectId e) \<and>
    es_endpoints db' = map (\<lambda>q. if et_id q = ed_id input \<and> et_deletedAt q = None
      then deleted_endpoint (clock 4) input q else q) (es_endpoints db)"
  using assms
proof (cases rule: delete_shape)
  case (1 e global visible k)
  note e = find_endpoint_Some[OF 1(1)]
  obtain n ids where impact: "deletionImpact config clock db Endpoint (ed_id input) n ids = Inr global"
    and bound: "bound_active db e \<Longrightarrow> n \<noteq> 0 \<and> ids = [et_projectId e]"
    using impacts_shape[OF 1(2,1)] by blast
  have allowed: "di_telemetryFresh global" "di_requiresSecondConfirmation global \<Longrightarrow>
      ed_confirmRecentTraffic input \<and> ed_confirmationName input = Some (et_name e)"
    using 1(3) by (auto simp: assertDeletionAllowed_def split: if_splits)
  have "es_endpoints db' = map (\<lambda>q. if et_id q = ed_id input \<and> et_deletedAt q = None
      then deleted_endpoint (clock 4) input q else q) (es_endpoints db)"
    by (simp add: 1(6) recordSoftDelete_def write_endpoint_def)
  then show ?thesis
    using e 1(4) allowed impact_counts[OF impact] bound impact_fresh[OF impact allowed(1)]
    by (intro bexI[of _ e]) auto
qed

text \<open>What a Project sees of the traffic only depends on its own events.\<close>

lemma visible_impact_own_events:
  assumes "currentProjectId ctx = Inr (Some p)" "p \<noteq> []"
    "filter (\<lambda>ev. ev_projectId ev = Some p) (es_events db) = filter (\<lambda>ev. ev_projectId ev = Some p) (es_events db2)"
  shows "visibleDeletionImpact ctx clock db kind key g n = visibleDeletionImpact ctx clock db2 kind key g n"
proof -
  have "filter (\<lambda>ev. ev_projectId ev = Some p) (incoming_traffic kind key c evs)
      = incoming_traffic kind key c (filter (\<lambda>ev. ev_projectId ev = Some p) evs)" for c evs
    by (auto simp: incoming_traffic_def intro: filter_cong)
  then show ?thesis using assms by (simp add: visibleDeletionImpact_def falsy_def)
qed

section \<open>A run: create, rotate, revoke, delete\<close>

definition sample_endpoint_db :: endpoint_db where
  "sample_endpoint_db = \<lparr>es_fleet = sample_fleet, es_projects = [\<lparr>pr_id = ''p'', pr_name = ''p'', pr_groupId = ''default''\<rparr>],
     es_endpoints = [], es_routers = [], es_events = [], es_watermarks = [], es_audit = [], es_outbox = []\<rparr>"

definition sample_issue_source :: "string \<Rightarrow> issue_source" where
  "sample_issue_source u = \<lparr>iss_random = u, iss_uuid = u, iss_now = ''2026-01-01T00:00:00.000Z'', iss_ellipsis = ''...'',
     iss_sha256 = (\<lambda>v. CHR ''h'' # v)\<rparr>"

definition sample_context :: "AuthorityContext option" where
  "sample_context = Some (ProjectScope ''p'' (Some ''u'') None)"

definition sample_endpoint_input :: endpoint_input where
  "sample_endpoint_input = \<lparr>ei_name = ''scan'', ei_adapter = ''f5-scan'', ei_credentialRequired = None,
     ei_scanFlagOnlyDefault = None, ei_actorId = ''u''\<rparr>"

definition sample_new_endpoint :: endpoint_db where
  "sample_new_endpoint = snd (projr (createEndpoint sample_context 10 ''e1'' (sample_issue_source ''k1'') sample_endpoint_input sample_endpoint_db))"

definition sample_rotated :: endpoint_db where
  "sample_rotated = snd (projr (rotateEndpointCredential sample_context 20 (sample_issue_source ''k2'') ''e1'' ''u'' sample_new_endpoint))"

definition sample_revoked :: endpoint_db where
  "sample_revoked = projr (revokeEndpointCredential (\<lambda>_ _. 0) (\<lambda>_. ''t'') sample_context 30 ''e1'' ''k1'' ''u'' sample_rotated)"

definition sample_deletion_config :: endpoint_config where
  "sample_deletion_config = \<lparr>ec_windowMinutes = 15, ec_offlineAfterSeconds = 30, ec_telemetryStaleAfterSeconds = 60,
     ec_runnerScopedTelemetry = False\<rparr>"

definition sample_deletion :: endpoint_deletion where
  "sample_deletion = \<lparr>ed_id = ''e1'', ed_actorId = ''u'', ed_reason = ''unused'', ed_confirmRecentTraffic = False,
     ed_confirmationName = None\<rparr>"

definition sample_deleted :: endpoint_db where
  "sample_deleted = projr (softDeleteEndpoint sample_deletion_config sample_context (\<lambda>_. 40) sample_deletion sample_revoked)"

lemma sample_revoke_ok:
  "revokeEndpointCredential (\<lambda>_ _. 0) (\<lambda>_. ''t'') sample_context 30 ''e1'' ''k1'' ''u'' sample_rotated = Inr sample_revoked"
proof -
  have "\<not> isl (revokeEndpointCredential (\<lambda>_ _. 0) (\<lambda>_. ''t'') sample_context 30 ''e1'' ''k1'' ''u'' sample_rotated)"
    by code_simp
  then show ?thesis by (simp add: sample_revoked_def)
qed

lemma sample_delete_ok:
  "softDeleteEndpoint sample_deletion_config sample_context (\<lambda>_. 40) sample_deletion sample_revoked = Inr sample_deleted"
proof -
  have "\<not> isl (softDeleteEndpoint sample_deletion_config sample_context (\<lambda>_. 40) sample_deletion sample_revoked)"
    by code_simp
  then show ?thesis by (simp add: sample_deleted_def)
qed

lemma sample_issue_fresh:
  "iss_uuid (sample_issue_source u) = u" "iss_now (sample_issue_source u) \<noteq> []" "iss_sha256 (sample_issue_source u) v \<noteq> []"
  by (simp_all add: sample_issue_source_def)

lemma sample_rotated_reach: "reach endpoint_init endpoint_step sample_rotated"
proof -
  let ?c = "createEndpoint sample_context 10 ''e1'' (sample_issue_source ''k1'') sample_endpoint_input sample_endpoint_db"
  let ?r = "rotateEndpointCredential sample_context 20 (sample_issue_source ''k2'') ''e1'' ''u'' sample_new_endpoint"
  have "\<not> isl ?c" "\<not> isl ?r" by code_simp+
  then have created: "?c = Inr (fst (projr ?c), sample_new_endpoint)" and rotated: "?r = Inr (fst (projr ?r), sample_rotated)"
    unfolding sample_new_endpoint_def sample_rotated_def by (metis prod.collapse sum.collapse(2))+
  have start: "reach endpoint_init endpoint_step sample_endpoint_db"
    by (rule reach_init) (simp add: endpoint_init_def sample_endpoint_db_def)
  have fresh: "fresh_source (sample_issue_source ''k1'') sample_endpoint_db"
    by (simp add: fresh_source_def sample_issue_fresh stored_ids_def sample_endpoint_db_def)
  have first: "reach endpoint_init endpoint_step sample_new_endpoint"
    by (rule reach_step[OF start eps_create[OF fresh created]])
  have "concat (map (\<lambda>e. map cr_id (structuredCredentials (et_verification e))) (es_endpoints sample_new_endpoint)) = [''k1'']"
    by code_simp
  then have "set (concat (map (\<lambda>e. map cr_id (structuredCredentials (et_verification e))) (es_endpoints sample_new_endpoint))) = {''k1''}"
    by simp
  then have "stored_ids sample_new_endpoint = {''k1''}" by (simp add: stored_ids_def)
  then have fresh: "fresh_source (sample_issue_source ''k2'') sample_new_endpoint"
    by (simp add: fresh_source_def sample_issue_fresh)
  show ?thesis
    by (rule reach_step[OF first eps_rotate[OF fresh rotated]])
qed

lemma endpoint_keeps_credential_witness:
  "\<exists>e. es_endpoints sample_revoked = [e] \<and> activeEndpointCredentials (\<lambda>_ _. 0) (et_verification e) \<noteq> []"
proof -
  have one: "es_endpoints sample_revoked = [hd (es_endpoints sample_revoked)]" by code_simp
  have "reach endpoint_init endpoint_step sample_revoked"
    by (rule reach_step[OF sample_rotated_reach]) (rule eps_revoke[OF _ sample_revoke_ok], simp)
  moreover have "hd (es_endpoints sample_revoked) \<in> set (es_endpoints sample_revoked)"
    by (subst (2) one) simp
  ultimately show ?thesis using endpoint_keeps_credential one by blast
qed

lemma revoked_credential_stays_revoked_witness:
  "\<exists>e. es_endpoints sample_deleted = [e] \<and>
    ''k1'' \<notin> cr_id ` set (activeEndpointCredentials (\<lambda>_ _. 0) (et_verification e))"
proof -
  have one: "es_endpoints sample_deleted = [hd (es_endpoints sample_deleted)]"
    "et_id (hd (es_endpoints sample_deleted)) = ''e1''" by code_simp+
  have later: "reach (\<lambda>d. d = sample_revoked) endpoint_step sample_deleted"
    by (rule reach_step[OF reach_init]) (simp, rule eps_delete[OF sample_delete_ok])
  have "hd (es_endpoints sample_deleted) \<in> set (es_endpoints sample_deleted)"
    by (subst (2) one(1)) simp
  then show ?thesis
    using revoked_credential_stays_revoked[OF sample_rotated_reach sample_revoke_ok _ later _ one(2)] one(1) by blast
qed

lemma endpoint_changes_announced_witness:
  "sample_deleted \<noteq> sample_revoked \<and> announced sample_revoked sample_deleted"
proof -
  have "generation (es_fleet sample_deleted) \<noteq> generation (es_fleet sample_revoked)" by code_simp
  then have "sample_deleted \<noteq> sample_revoked" by auto
  moreover have "sample_deleted = sample_revoked \<or> announced sample_revoked sample_deleted"
    by (rule endpoint_changes_announced) (intro disjI2, rule sample_delete_ok)
  ultimately show ?thesis by blast
qed

lemma endpoint_deletion_guarded_witness:
  "\<exists>e \<in> set (es_endpoints sample_revoked). et_id e = ''e1'' \<and>
    es_endpoints sample_deleted = [deleted_endpoint 40 sample_deletion e]"
proof -
  have one: "es_endpoints sample_revoked = [hd (es_endpoints sample_revoked)]" by code_simp
  have ids: "ed_id sample_deletion = ''e1''" by (simp add: sample_deletion_def)
  from endpoint_deletion_guarded[OF sample_delete_ok] obtain e where
    e: "e \<in> set (es_endpoints sample_revoked)" "et_id e = ''e1''" "et_deletedAt e = None"
      "es_endpoints sample_deleted = map (\<lambda>q. if et_id q = ''e1'' \<and> et_deletedAt q = None
        then deleted_endpoint 40 sample_deletion q else q) (es_endpoints sample_revoked)"
    unfolding ids by blast
  have "es_endpoints sample_revoked = [e]" using one e(1) by (metis empty_iff list.set(1) set_ConsD)
  then show ?thesis using e by auto
qed

end
