(* ===== verification/Zip_Archive.thy ===== *)
theory Zip_Archive
  imports Json_Text "HOL-Library.Word"
begin

text \<open>
  Release archives: \<^verbatim>\<open>controller/server/domain/zip.ts\<close>. A buffer is a list of 8-bit words;
  \<open>readUIntLE\<close> and \<open>writeUIntLE\<close> of a width throw outside the buffer or the range of the
  width, as the runtime's do. Compression, decompression, the checksum and the decoding of names are
  the runtime's and are arguments. The main results: an archive written from allowed files reads back
  as exactly those files in name order; and whatever bytes are read, the outcome is either a
  \<open>guardrail_package_invalid\<close> refusal or files with relative paths, distinct names and sizes
  within the limits.
\<close>

unbundle bit_operations_syntax

section \<open>Buffers\<close>

type_synonym bytes = "8 word list"

definition range_error :: thrown where
  "range_error = JsError ''The value is out of range.''"

definition slice :: "bytes \<Rightarrow> nat \<Rightarrow> nat \<Rightarrow> bytes" where
  "slice b i n = take n (drop i b)"

text \<open>The little-endian bytes of a number in a given width, and the number they denote.\<close>

fun le_bytes :: "nat \<Rightarrow> nat \<Rightarrow> bytes" where
  "le_bytes 0 v = []"
| "le_bytes (Suc n) v = word_of_nat v # le_bytes n (v div 256)"

fun le_value :: "bytes \<Rightarrow> nat" where
  "le_value [] = 0"
| "le_value (b # bs) = unat b + 256 * le_value bs"

definition readUIntLE :: "nat \<Rightarrow> bytes \<Rightarrow> nat \<Rightarrow> thrown + nat" where
  "readUIntLE n b i = (if i + n \<le> length b then Inr (le_value (slice b i n)) else Inl range_error)"

definition writeUIntLE :: "nat \<Rightarrow> nat \<Rightarrow> nat \<Rightarrow> bytes \<Rightarrow> thrown + bytes" where
  "writeUIntLE n v i b =
    (if v < 256 ^ n \<and> i + n \<le> length b then Inr (take i b @ le_bytes n v @ drop (i + n) b)
     else Inl range_error)"

text \<open>A sequence of writes, each a width, a value and an offset.\<close>

definition write_fields :: "(nat \<times> nat \<times> nat) list \<Rightarrow> bytes \<Rightarrow> thrown + bytes" where
  "write_fields = fold_result (\<lambda>(n, v, i). writeUIntLE n v i)"

text \<open>\<open>Buffer.from(name, "utf8")\<close> on the code units below 256.\<close>

definition utf8_char :: "char \<Rightarrow> bytes" where
  "utf8_char c = (let n = js_code c in
     if n < 128 then [word_of_nat n]
     else [word_of_nat (192 + n div 64), word_of_nat (128 + n mod 64)])"

definition utf8_bytes :: "string \<Rightarrow> bytes" where
  "utf8_bytes s = concat (map utf8_char s)"

section \<open>Writing\<close>

record ZipLimits =
  maxEntries :: nat
  maxEntryBytes :: nat
  maxTotalBytes :: nat

definition DOS_DATE :: nat where
  "DOS_DATE = unat (push_bit 5 1 OR 1 :: 32 word)"

definition LOCAL_HEADER :: nat where "LOCAL_HEADER = 0x04034b50"

definition CENTRAL_HEADER :: nat where "CENTRAL_HEADER = 0x02014b50"

definition END_OF_CENTRAL_DIRECTORY :: nat where "END_OF_CENTRAL_DIRECTORY = 0x06054b50"

text \<open>The octal mode of a regular file, shifted as a 32-bit value and read back unsigned.\<close>

definition regular_file_attributes :: nat where
  "regular_file_attributes = unat (push_bit 16 33188 :: 32 word)"

definition local_header :: "nat \<Rightarrow> nat \<Rightarrow> nat \<Rightarrow> nat \<Rightarrow> thrown + bytes" where
  "local_header checksum compressedLength dataLength nameLength = write_fields
    [(4, LOCAL_HEADER, 0), (2, 20, 4), (2, 0x0800, 6), (2, 8, 8), (2, 0, 10), (2, DOS_DATE, 12),
     (4, checksum, 14), (4, compressedLength, 18), (4, dataLength, 22), (2, nameLength, 26), (2, 0, 28)]
    (replicate 30 0)"

definition central_header :: "nat \<Rightarrow> nat \<Rightarrow> nat \<Rightarrow> nat \<Rightarrow> nat \<Rightarrow> thrown + bytes" where
  "central_header checksum compressedLength dataLength nameLength offset = write_fields
    [(4, CENTRAL_HEADER, 0), (2, 0x0314, 4), (2, 20, 6), (2, 0x0800, 8), (2, 8, 10), (2, 0, 12),
     (2, DOS_DATE, 14), (4, checksum, 16), (4, compressedLength, 20), (4, dataLength, 24),
     (2, nameLength, 28), (4, regular_file_attributes, 38), (4, offset, 42)]
    (replicate 46 0)"

definition end_record :: "nat \<Rightarrow> nat \<Rightarrow> nat \<Rightarrow> thrown + bytes" where
  "end_record entries directoryLength offset = write_fields
    [(4, END_OF_CENTRAL_DIRECTORY, 0), (2, entries, 8), (2, entries, 10), (4, directoryLength, 12),
     (4, offset, 16)]
    (replicate 22 0)"

text \<open>One pass of the writing loop over its buffers and the running offset.\<close>

definition write_file ::
  "(bytes \<Rightarrow> bytes) \<Rightarrow> (bytes \<Rightarrow> nat) \<Rightarrow> (string \<times> bytes) list \<Rightarrow> string
     \<Rightarrow> bytes \<times> bytes \<times> nat \<Rightarrow> thrown + bytes \<times> bytes \<times> nat" where
  "write_file deflate crc32 files name = (\<lambda>(locals, centrals, offset).
    case map_of files name of None \<Rightarrow> Inl (JsError ''missing file'')
    | Some data \<Rightarrow>
      let nameBytes = utf8_bytes name; compressed = deflate data; checksum = crc32 data in
      and_then (local_header checksum (length compressed) (length data) (length nameBytes)) (\<lambda>local.
      and_then (central_header checksum (length compressed) (length data) (length nameBytes) offset)
        (\<lambda>central.
          Inr (locals @ local @ nameBytes @ compressed, centrals @ central @ nameBytes,
               offset + length local + length nameBytes + length compressed))))"

definition writeZip :: "(bytes \<Rightarrow> bytes) \<Rightarrow> (bytes \<Rightarrow> nat) \<Rightarrow> (string \<times> bytes) list \<Rightarrow> thrown + bytes" where
  "writeZip deflate crc32 files =
    and_then (fold_result (write_file deflate crc32 files) (sort (map fst files)) ([], [], 0))
      (\<lambda>(locals, directory, offset).
        and_then (end_record (length files) (length directory) offset)
          (\<lambda>end. Inr (locals @ directory @ end)))"

section \<open>Reading\<close>

definition zip_invalid :: "string \<Rightarrow> thrown" where
  "zip_invalid detail = ControllerError (''The package is not a valid release archive: '' @ detail) 422
     ''guardrail_package_invalid'' []"

text \<open>The search from the last possible offset downwards; the argument is one above the offset.\<close>

fun find_end_from :: "bytes \<Rightarrow> nat \<Rightarrow> nat \<Rightarrow> thrown + nat option" where
  "find_end_from archive earliest 0 = Inr None"
| "find_end_from archive earliest (Suc offset) =
    (if offset < earliest then Inr None
     else and_then (readUIntLE 4 archive offset) (\<lambda>signature.
       if signature \<noteq> END_OF_CENTRAL_DIRECTORY then find_end_from archive earliest offset
       else and_then (readUIntLE 2 archive (offset + 20)) (\<lambda>commentLength.
         if offset + 22 + commentLength = length archive then Inr (Some offset)
         else find_end_from archive earliest offset)))"

definition findEndOfCentralDirectory :: "bytes \<Rightarrow> thrown + nat option" where
  "findEndOfCentralDirectory archive =
    find_end_from archive (length archive - 22 - 0xffff) (length archive - 21)"

text \<open>The allowed paths, read from left to right: the flag is set where a segment starts.\<close>

definition path_alnum :: "char \<Rightarrow> bool" where
  "path_alnum c = (let n = js_code c in
     (65 \<le> n \<and> n \<le> 90) \<or> (97 \<le> n \<and> n \<le> 122) \<or> (48 \<le> n \<and> n \<le> 57))"

definition path_char :: "char \<Rightarrow> bool" where
  "path_char c = (path_alnum c \<or> c \<in> {CHR ''.'', CHR ''_'', CHR ''-''})"

fun path_matches :: "bool \<Rightarrow> string \<Rightarrow> bool" where
  "path_matches start [] = (\<not> start)"
| "path_matches True (c # cs) = (path_alnum c \<and> path_matches False cs)"
| "path_matches False (c # cs) =
    (if path_char c then path_matches False cs else c = CHR ''/'' \<and> path_matches True cs)"

definition allowed_path :: "string \<Rightarrow> bool" where
  "allowed_path name = (path_matches True name \<and>
     \<not> list_ex (\<lambda>part. part = ''.'' \<or> part = ''..'') (js_split (CHR ''/'') name))"

record zip_entry =
  ze_flags :: nat
  ze_method :: nat
  ze_checksum :: nat
  ze_compressedSize :: nat
  ze_size :: nat
  ze_nameLength :: nat
  ze_extraLength :: nat
  ze_commentLength :: nat
  ze_externalAttributes :: nat
  ze_localOffset :: nat

definition read_central :: "bytes \<Rightarrow> nat \<Rightarrow> thrown + zip_entry" where
  "read_central archive cursor =
    and_then (readUIntLE 2 archive (cursor + 8)) (\<lambda>flags.
    and_then (readUIntLE 2 archive (cursor + 10)) (\<lambda>method.
    and_then (readUIntLE 4 archive (cursor + 16)) (\<lambda>checksum.
    and_then (readUIntLE 4 archive (cursor + 20)) (\<lambda>compressedSize.
    and_then (readUIntLE 4 archive (cursor + 24)) (\<lambda>size.
    and_then (readUIntLE 2 archive (cursor + 28)) (\<lambda>nameLength.
    and_then (readUIntLE 2 archive (cursor + 30)) (\<lambda>extraLength.
    and_then (readUIntLE 2 archive (cursor + 32)) (\<lambda>commentLength.
    and_then (readUIntLE 4 archive (cursor + 38)) (\<lambda>externalAttributes.
    and_then (readUIntLE 4 archive (cursor + 42)) (\<lambda>localOffset.
      Inr \<lparr>ze_flags = flags, ze_method = method, ze_checksum = checksum,
        ze_compressedSize = compressedSize, ze_size = size, ze_nameLength = nameLength,
        ze_extraLength = extraLength, ze_commentLength = commentLength,
        ze_externalAttributes = externalAttributes, ze_localOffset = localOffset\<rparr>))))))))))"

text \<open>The refusals of an entry before its data is located, in the order of the code; \<open>None\<close>
  lets the entry pass.\<close>

definition entry_refusal ::
  "ZipLimits \<Rightarrow> (string \<times> bytes) list \<Rightarrow> nat \<Rightarrow> string \<Rightarrow> zip_entry \<Rightarrow> string option" where
  "entry_refusal limits files seen name e =
    (let mode = drop_bit 16 (ze_externalAttributes e) in
     if ze_flags e AND 1 \<noteq> 0 then Some (name @ '' is encrypted.'')
     else if ze_method e \<noteq> 0 \<and> ze_method e \<noteq> 8 then
       Some (name @ '' uses an unsupported compression method.'')
     else if mode AND 61440 \<noteq> 0 \<and> mode AND 61440 \<noteq> 32768 then
       Some (name @ '' is not a regular file.'')
     else if \<not> allowed_path name then Some (quoted name @ '' is not an allowed path.'')
     else if map_of files name \<noteq> None then Some (name @ '' appears more than once.'')
     else if ze_size e > maxEntryBytes limits \<or> seen + ze_size e > maxTotalBytes limits then
       Some (name @ '' exceeds the size limit.'')
     else None)"

definition locate_data :: "bytes \<Rightarrow> nat \<Rightarrow> string \<Rightarrow> zip_entry \<Rightarrow> thrown + bytes" where
  "locate_data archive directoryOffset name e =
    (if ze_localOffset e + 30 > directoryOffset then Inl (zip_invalid (name @ '' has no local header.''))
     else and_then (readUIntLE 4 archive (ze_localOffset e)) (\<lambda>signature.
       if signature \<noteq> LOCAL_HEADER then Inl (zip_invalid (name @ '' has no local header.''))
       else and_then (readUIntLE 2 archive (ze_localOffset e + 26)) (\<lambda>nameLength.
         and_then (readUIntLE 2 archive (ze_localOffset e + 28)) (\<lambda>extraLength.
           let dataOffset = ze_localOffset e + 30 + nameLength + extraLength in
           if dataOffset + ze_compressedSize e > directoryOffset then
             Inl (zip_invalid (name @ '' extends beyond its data.''))
           else Inr (slice archive dataOffset (ze_compressedSize e))))))"

definition extract_data ::
  "(nat \<Rightarrow> bytes \<Rightarrow> bytes option) \<Rightarrow> (bytes \<Rightarrow> nat) \<Rightarrow> ZipLimits \<Rightarrow> string \<Rightarrow> zip_entry \<Rightarrow> bytes
     \<Rightarrow> thrown + bytes" where
  "extract_data inflate crc32 limits name e stored =
    (case (if ze_method e = 0 then Some stored else inflate (maxEntryBytes limits) stored) of
       None \<Rightarrow> Inl (zip_invalid (name @ '' could not be decompressed within the size limit.''))
     | Some data \<Rightarrow>
       if length data \<noteq> ze_size e \<or> crc32 data \<noteq> ze_checksum e then
         Inl (zip_invalid (name @ '' does not match its recorded size or checksum.''))
       else Inr data)"

text \<open>The runtime functions the reader calls: decompression with a bound on its output (\<open>None\<close>
  when it throws), the checksum and the decoding of UTF-8.\<close>

record zip_runtime =
  rt_inflate :: "nat \<Rightarrow> bytes \<Rightarrow> bytes option"
  rt_crc32 :: "bytes \<Rightarrow> nat"
  rt_utf8 :: "bytes \<Rightarrow> string"

definition read_entry ::
  "zip_runtime \<Rightarrow> ZipLimits \<Rightarrow> bytes \<Rightarrow> nat \<Rightarrow> nat \<Rightarrow> (string \<times> bytes) list \<times> nat \<times> nat
     \<Rightarrow> thrown + (string \<times> bytes) list \<times> nat \<times> nat" where
  "read_entry rt limits archive endOffset directoryOffset = (\<lambda>(files, seen, cursor).
    if cursor + 46 > endOffset then Inl (zip_invalid ''a directory entry is corrupt.'')
    else and_then (readUIntLE 4 archive cursor) (\<lambda>signature.
      if signature \<noteq> CENTRAL_HEADER then Inl (zip_invalid ''a directory entry is corrupt.'')
      else and_then (read_central archive cursor) (\<lambda>e.
        let name = rt_utf8 rt (slice archive (cursor + 46) (ze_nameLength e)) in
        case entry_refusal limits files seen name e of Some detail \<Rightarrow> Inl (zip_invalid detail)
        | None \<Rightarrow>
          and_then (locate_data archive directoryOffset name e) (\<lambda>stored.
          and_then (extract_data (rt_inflate rt) (rt_crc32 rt) limits name e stored) (\<lambda>data.
            Inr (files @ [(name, data)], seen + ze_size e,
              cursor + 46 + ze_nameLength e + ze_extraLength e + ze_commentLength e))))))"

fun read_entries ::
  "zip_runtime \<Rightarrow> ZipLimits \<Rightarrow> bytes \<Rightarrow> nat \<Rightarrow> nat \<Rightarrow> nat \<Rightarrow> (string \<times> bytes) list \<times> nat \<times> nat
     \<Rightarrow> thrown + (string \<times> bytes) list" where
  "read_entries rt limits archive endOffset directoryOffset 0 s = Inr (fst s)"
| "read_entries rt limits archive endOffset directoryOffset (Suc n) s =
    and_then (read_entry rt limits archive endOffset directoryOffset s)
      (read_entries rt limits archive endOffset directoryOffset n)"

definition readZip :: "zip_runtime \<Rightarrow> bytes \<Rightarrow> ZipLimits \<Rightarrow> thrown + (string \<times> bytes) list" where
  "readZip rt archive limits =
    and_then (findEndOfCentralDirectory archive) (\<lambda>found.
    case found of None \<Rightarrow> Inl (zip_invalid ''no ZIP directory was found.'')
    | Some endOffset \<Rightarrow>
      and_then (readUIntLE 2 archive (endOffset + 10)) (\<lambda>entries.
      and_then (readUIntLE 4 archive (endOffset + 12)) (\<lambda>directorySize.
      and_then (readUIntLE 4 archive (endOffset + 16)) (\<lambda>directoryOffset.
      and_then (readUIntLE 2 archive (endOffset + 4)) (\<lambda>disk.
      and_then (readUIntLE 2 archive (endOffset + 8)) (\<lambda>diskEntries.
        if disk \<noteq> 0 \<or> diskEntries \<noteq> entries then
          Inl (zip_invalid ''multi-disk archives are not supported.'')
        else if entries = 0xffff \<or> directorySize = 0xffffffff \<or> directoryOffset = 0xffffffff then
          Inl (zip_invalid ''ZIP64 archives are not supported.'')
        else if entries > maxEntries limits then
          Inl (zip_invalid (''more than '' @ digits (maxEntries limits) @ '' entries.''))
        else if directoryOffset + directorySize > endOffset then
          Inl (zip_invalid ''the directory is outside the archive.'')
        else read_entries rt limits archive endOffset directoryOffset entries
               ([], 0, directoryOffset)))))))"

section \<open>Bytes and fields\<close>

lemma length_le_bytes [simp]: "length (le_bytes n v) = n"
  by (induction n arbitrary: v) simp_all

lemma le_value_le_bytes [simp]: "v < 256 ^ n \<Longrightarrow> le_value (le_bytes n v) = v"
proof (induction n arbitrary: v)
  case (Suc n)
  then have "v div 256 < 256 ^ n"
    by (simp add: less_mult_imp_div_less mult.commute)
  then show ?case
    using Suc.IH by (simp add: unat_of_nat)
qed simp

lemma length_slice [simp]: "i + n \<le> length b \<Longrightarrow> length (slice b i n) = n"
  by (simp add: slice_def)

lemma slice_append_left [simp]: "i + n \<le> length a \<Longrightarrow> slice (a @ b) i n = slice a i n"
  by (simp add: slice_def)

lemma slice_append_right [simp]: "length a \<le> i \<Longrightarrow> slice (a @ b) i n = slice b (i - length a) n"
  by (simp add: slice_def)

lemma slice_all [simp]: "length a = n \<Longrightarrow> slice a 0 n = a"
  by (simp add: slice_def)

lemma slice_written_other:
  assumes "length bs = n" "j + n \<le> length b" "i + m \<le> j \<or> j + n \<le> i"
  shows "slice (take j b @ bs @ drop (j + n) b) i m = slice b i m"
  using assms(3)
proof
  assume "i + m \<le> j"
  then show ?thesis
    using assms(1,2) by (simp add: slice_def drop_take)
next
  assume "j + n \<le> i"
  then have "i = j + n + (i - j - n)" by simp
  then show ?thesis
    using assms(1,2) by (simp add: slice_def min_def)
qed

lemma readUIntLE_written [simp]:
  "writeUIntLE n v i b = Inr b' \<Longrightarrow> readUIntLE n b' i = Inr v"
  by (auto simp: writeUIntLE_def readUIntLE_def slice_def split: if_splits)

lemma readUIntLE_other:
  assumes "writeUIntLE n v j b = Inr b'" "i + m \<le> j \<or> j + n \<le> i"
  shows "readUIntLE m b' i = readUIntLE m b i"
  using assms slice_written_other[of "le_bytes n v" n j b i m]
  by (auto simp: writeUIntLE_def readUIntLE_def split: if_splits)

lemma writeUIntLE_ok:
  "v < 256 ^ n \<Longrightarrow> i + n \<le> length b \<Longrightarrow> \<exists>b'. writeUIntLE n v i b = Inr b' \<and> length b' = length b"
  by (simp add: writeUIntLE_def)

definition apart :: "nat \<times> nat \<times> nat \<Rightarrow> nat \<times> nat \<times> nat \<Rightarrow> bool" where
  "apart f g = (case (f, g) of ((n, v, i), (m, w, j)) \<Rightarrow> i + n \<le> j \<or> j + m \<le> i)"

lemma write_fields_ok:
  assumes "\<And>n v i. (n, v, i) \<in> set fs \<Longrightarrow> v < 256 ^ n \<and> i + n \<le> length b"
  shows "\<exists>b'. write_fields fs b = Inr b' \<and> length b' = length b"
  using assms
proof (induction fs arbitrary: b)
  case (Cons f fs)
  obtain n v i where f: "f = (n, v, i)" by (cases f)
  obtain b1 where b1: "writeUIntLE n v i b = Inr b1" "length b1 = length b"
    using writeUIntLE_ok[of v n i b] Cons.prems[of n v i] f by auto
  have "\<exists>b'. write_fields fs b1 = Inr b' \<and> length b' = length b1"
    by (rule Cons.IH) (use Cons.prems b1(2) in auto)
  then show ?case
    using b1 f by (auto simp: write_fields_def)
qed (simp add: write_fields_def)

lemma write_fields_other:
  assumes "write_fields fs b = Inr b'" "\<forall>f \<in> set fs. apart (m, w, i) f"
  shows "readUIntLE m b' i = readUIntLE m b i"
  using assms
proof (induction fs arbitrary: b)
  case (Cons f fs)
  obtain n v j where f: "f = (n, v, j)" by (cases f)
  obtain b1 where b1: "writeUIntLE n v j b = Inr b1" "write_fields fs b1 = Inr b'"
    using Cons.prems(1) f by (auto simp: write_fields_def and_then_eq_Inr)
  have "readUIntLE m b' i = readUIntLE m b1 i"
    using Cons.IH[OF b1(2)] Cons.prems(2) by simp
  also have "\<dots> = readUIntLE m b i"
    using readUIntLE_other[OF b1(1)] Cons.prems(2) f by (simp add: apart_def)
  finally show ?case .
qed (simp add: write_fields_def)

lemma write_fields_field:
  assumes "write_fields fs b = Inr b'" "f \<in> set fs" "sorted_wrt apart fs"
  shows "readUIntLE (fst f) b' (snd (snd f)) = Inr (fst (snd f))"
  using assms
proof (induction fs arbitrary: b)
  case (Cons g fs)
  obtain n v j where g: "g = (n, v, j)" by (cases g)
  obtain b1 where b1: "writeUIntLE n v j b = Inr b1" "write_fields fs b1 = Inr b'"
    using Cons.prems(1) g by (auto simp: write_fields_def and_then_eq_Inr)
  show ?case
  proof (cases "f \<in> set fs")
    case True
    then show ?thesis using Cons.IH[OF b1(2)] Cons.prems(3) by simp
  next
    case False
    then have "f = g" using Cons.prems(2) by simp
    then show ?thesis
      using write_fields_other[OF b1(2), of n v j] b1(1) Cons.prems(3) g by simp
  qed
qed simp

lemma readUIntLE_at:
  "i + n \<le> length b \<Longrightarrow> readUIntLE n (a @ b @ c) (length a + i) = readUIntLE n b i"
  by (simp add: readUIntLE_def slice_def)

lemma readUIntLE_zeros: "i + n \<le> k \<Longrightarrow> readUIntLE n (replicate k 0) i = Inr 0"
proof -
  have "le_value (replicate m 0) = 0" for m
    by (induction m) simp_all
  then show "i + n \<le> k \<Longrightarrow> readUIntLE n (replicate k 0) i = Inr 0"
    by (simp add: readUIntLE_def slice_def min_def)
qed

section \<open>Headers\<close>

lemmas zip_constants = DOS_DATE_def LOCAL_HEADER_def CENTRAL_HEADER_def END_OF_CENTRAL_DIRECTORY_def
  regular_file_attributes_def

lemma local_header_ok:
  assumes "checksum < 2 ^ 32" "clen < 2 ^ 32" "dlen < 2 ^ 32" "nlen < 2 ^ 16"
  obtains b where "local_header checksum clen dlen nlen = Inr b" "length b = 30"
    "readUIntLE 4 b 0 = Inr LOCAL_HEADER" "readUIntLE 2 b 26 = Inr nlen" "readUIntLE 2 b 28 = Inr 0"
proof -
  obtain b where b: "local_header checksum clen dlen nlen = Inr b" "length b = 30"
    using write_fields_ok[of _ "replicate 30 0"] assms unfolding local_header_def
    by (force simp: zip_constants)
  note field = write_fields_field[OF b(1)[unfolded local_header_def]]
  show thesis
    by (rule that[OF b]) (use field in \<open>force simp: apart_def\<close>)+
qed

definition entry_of :: "nat \<Rightarrow> nat \<Rightarrow> nat \<Rightarrow> nat \<Rightarrow> nat \<Rightarrow> zip_entry" where
  "entry_of checksum clen dlen nlen offset =
    \<lparr>ze_flags = 0x0800, ze_method = 8, ze_checksum = checksum, ze_compressedSize = clen, ze_size = dlen,
     ze_nameLength = nlen, ze_extraLength = 0, ze_commentLength = 0,
     ze_externalAttributes = regular_file_attributes, ze_localOffset = offset\<rparr>"

lemma central_header_ok:
  assumes "checksum < 2 ^ 32" "clen < 2 ^ 32" "dlen < 2 ^ 32" "nlen < 2 ^ 16" "offset < 2 ^ 32"
  obtains b where "central_header checksum clen dlen nlen offset = Inr b" "length b = 46"
    "readUIntLE 4 b 0 = Inr CENTRAL_HEADER" "read_central b 0 = Inr (entry_of checksum clen dlen nlen offset)"
proof -
  obtain b where b: "central_header checksum clen dlen nlen offset = Inr b" "length b = 46"
    using write_fields_ok[of _ "replicate 46 0"] assms unfolding central_header_def
    by (force simp: zip_constants)
  note field = write_fields_field[OF b(1)[unfolded central_header_def]]
  note zero = write_fields_other[OF b(1)[unfolded central_header_def]]
  have sorted: "sorted_wrt apart
    [(4, CENTRAL_HEADER, 0), (2, 0x0314, 4), (2, 20, 6), (2, 0x0800, 8), (2, 8, 10), (2, 0, 12),
     (2, DOS_DATE, 14), (4, checksum, 16), (4, clen, 20), (4, dlen, 24),
     (2, nlen, 28), (4, regular_file_attributes, 38), (4, offset, 42)]"
    by (simp add: apart_def)
  have fields: "readUIntLE 4 b 0 = Inr CENTRAL_HEADER" "readUIntLE 2 b 8 = Inr 0x0800"
    "readUIntLE 2 b 10 = Inr 8" "readUIntLE 4 b 16 = Inr checksum" "readUIntLE 4 b 20 = Inr clen"
    "readUIntLE 4 b 24 = Inr dlen" "readUIntLE 2 b 28 = Inr nlen"
    "readUIntLE 4 b 38 = Inr regular_file_attributes" "readUIntLE 4 b 42 = Inr offset"
    using field[OF _ sorted, of "(4, CENTRAL_HEADER, 0)"] field[OF _ sorted, of "(2, 0x0800, 8)"]
      field[OF _ sorted, of "(2, 8, 10)"] field[OF _ sorted, of "(4, checksum, 16)"]
      field[OF _ sorted, of "(4, clen, 20)"] field[OF _ sorted, of "(4, dlen, 24)"]
      field[OF _ sorted, of "(2, nlen, 28)"] field[OF _ sorted, of "(4, regular_file_attributes, 38)"]
      field[OF _ sorted, of "(4, offset, 42)"] by simp_all
  have zeros: "readUIntLE 2 b 30 = Inr 0" "readUIntLE 2 b 32 = Inr 0"
    using zero[of 2 0 30] zero[of 2 0 32] by (simp_all add: apart_def readUIntLE_zeros)
  show thesis
    by (rule that[OF b fields(1)]) (simp add: read_central_def entry_of_def fields zeros)
qed

lemma read_central_at:
  assumes "length b = 46"
  shows "read_central (a @ b @ c) (length a) = read_central b 0"
  using assms by (simp add: read_central_def readUIntLE_at)

lemma end_record_ok:
  assumes "n < 2 ^ 16" "dlen < 2 ^ 32" "offset < 2 ^ 32"
  obtains b where "end_record n dlen offset = Inr b" "length b = 22"
    "readUIntLE 4 b 0 = Inr END_OF_CENTRAL_DIRECTORY" "readUIntLE 2 b 4 = Inr 0"
    "readUIntLE 2 b 8 = Inr n" "readUIntLE 2 b 10 = Inr n" "readUIntLE 4 b 12 = Inr dlen"
    "readUIntLE 4 b 16 = Inr offset" "readUIntLE 2 b 20 = Inr 0"
proof -
  obtain b where b: "end_record n dlen offset = Inr b" "length b = 22"
    using write_fields_ok[of _ "replicate 22 0"] assms unfolding end_record_def
    by (force simp: zip_constants)
  note field = write_fields_field[OF b(1)[unfolded end_record_def]]
  note zero = write_fields_other[OF b(1)[unfolded end_record_def]]
  have zeros: "readUIntLE 2 b 4 = Inr 0" "readUIntLE 2 b 20 = Inr 0"
    using zero[of 2 0 4] zero[of 2 0 20] by (simp_all add: apart_def readUIntLE_zeros)
  show thesis
    by (rule that[OF b]) (use field zeros in \<open>force simp: apart_def\<close>)+
qed

section \<open>Any bytes at all\<close>

text \<open>Reads inside the buffer never throw; \<open>is_refusal\<close> recognises the reader's own error.\<close>

definition is_refusal :: "thrown \<Rightarrow> bool" where
  "is_refusal e = (\<exists>detail. e = zip_invalid detail)"

lemma is_refusal_invalid [simp]: "is_refusal (zip_invalid d)"
  by (auto simp: is_refusal_def)

lemma readUIntLE_inside: "i + n \<le> length b \<Longrightarrow> readUIntLE n b i = Inr (le_value (slice b i n))"
  by (simp add: readUIntLE_def)

lemma find_end_inside:
  assumes "n + 21 \<le> length archive"
  shows "\<exists>r. find_end_from archive earliest n = Inr r \<and> (\<forall>k. r = Some k \<longrightarrow> k + 22 \<le> length archive)"
  using assms
proof (induction n)
  case (Suc n)
  then show ?case by (auto simp: readUIntLE_inside)
qed simp

lemma find_end_total:
  "\<exists>r. findEndOfCentralDirectory archive = Inr r \<and> (\<forall>k. r = Some k \<longrightarrow> k + 22 \<le> length archive)"
proof (cases "21 \<le> length archive")
  case True
  then show ?thesis
    using find_end_inside[of "length archive - 21" archive] by (simp add: findEndOfCentralDirectory_def)
qed (simp add: findEndOfCentralDirectory_def)

lemma read_central_inside:
  "cursor + 46 \<le> length archive \<Longrightarrow> \<exists>e. read_central archive cursor = Inr e"
  by (simp add: read_central_def readUIntLE_inside)

lemma locate_data_refusal:
  "locate_data archive d name e = Inl x \<Longrightarrow> d \<le> length archive \<Longrightarrow> is_refusal x"
  by (auto simp: locate_data_def readUIntLE_inside Let_def split: if_splits)

lemma extract_data_refusal: "extract_data infl crc limits name e stored = Inl x \<Longrightarrow> is_refusal x"
  by (auto simp: extract_data_def split: if_splits option.splits)

lemma and_then_eq_Inl: "and_then r f = Inl e \<longleftrightarrow> r = Inl e \<or> (\<exists>x. r = Inr x \<and> f x = Inl e)"
  by (cases r) simp_all

lemma read_entry_refusal:
  assumes "read_entry rt limits archive endOffset d s = Inl x" "endOffset \<le> length archive"
    "d \<le> length archive"
  shows "is_refusal x"
proof -
  obtain files seen cursor where s: "s = (files, seen, cursor)" by (cases s)
  show ?thesis
  proof (cases "cursor + 46 \<le> endOffset")
    case True
    then have "cursor + 46 \<le> length archive" using assms(2) by simp
    moreover obtain e where "read_central archive cursor = Inr e"
      using read_central_inside calculation by blast
    ultimately show ?thesis
      using assms(1,3) True s
      by (auto simp: read_entry_def readUIntLE_inside Let_def and_then_eq_Inl
          intro: locate_data_refusal extract_data_refusal split: if_splits option.splits)
  qed (use assms(1) s in \<open>auto simp: read_entry_def\<close>)
qed

lemma read_entries_refusal:
  assumes "read_entries rt limits archive endOffset d n s = Inl x" "endOffset \<le> length archive"
    "d \<le> length archive"
  shows "is_refusal x"
  using assms by (induction n arbitrary: s) (auto simp: and_then_eq_Inl dest: read_entry_refusal)

lemma readZip_refusal:
  assumes "readZip rt archive limits = Inl x"
  shows "is_refusal x"
proof -
  obtain r where r: "findEndOfCentralDirectory archive = Inr r"
    and inside: "\<And>k. r = Some k \<Longrightarrow> k + 22 \<le> length archive"
    using find_end_total by blast
  show ?thesis
  proof (cases r)
    case None
    then show ?thesis using assms r by (auto simp: readZip_def)
  next
    case (Some k)
    then show ?thesis
      using assms r inside[OF Some]
      by (auto simp: readZip_def readUIntLE_inside split: if_splits elim!: read_entries_refusal)
  qed
qed

section \<open>What a reader can obtain\<close>

text \<open>A relative path of non-empty segments, each starting with a letter or a digit and made of
  letters, digits, dots, underscores and dashes: no \<open>..\<close>, no absolute path, no separator of
  another platform.\<close>

definition plain_segment :: "string \<Rightarrow> bool" where
  "plain_segment part = (part \<noteq> [] \<and> path_alnum (hd part) \<and> list_all path_char part)"

definition contained_files :: "ZipLimits \<Rightarrow> (string \<times> bytes) list \<Rightarrow> bool" where
  "contained_files limits files =
    (distinct (map fst files) \<and>
     list_all (\<lambda>(name, data). list_all plain_segment (js_split (CHR ''/'') name) \<and>
       length data \<le> maxEntryBytes limits) files \<and>
     sum_list (map (length \<circ> snd) files) \<le> maxTotalBytes limits)"

lemma path_char_separator [simp]: "\<not> path_char (CHR ''/'')" "\<not> path_alnum (CHR ''/'')"
  by (simp_all add: path_char_def path_alnum_def js_code_def)

lemma path_alnum_char: "path_alnum c \<Longrightarrow> path_char c"
  by (simp add: path_char_def)

lemma path_matches_segments:
  "path_matches start s \<Longrightarrow>
    list_all plain_segment (tl (js_split (CHR ''/'') s)) \<and>
    list_all path_char (hd (js_split (CHR ''/'') s)) \<and>
    (start \<longrightarrow> plain_segment (hd (js_split (CHR ''/'') s)))"
proof (induction start s rule: path_matches.induct)
  case (2 c cs)
  then have "c \<noteq> CHR ''/''" by auto
  then show ?case
    using 2 by (cases "js_split (CHR ''/'') cs") (auto simp: plain_segment_def path_alnum_char)
next
  case (3 c cs)
  show ?case
  proof (cases "path_char c")
    case True
    then have "c \<noteq> CHR ''/''" by auto
    then show ?thesis
      using 3 True by (cases "js_split (CHR ''/'') cs") auto
  next
    case False
    then show ?thesis
      using 3 by (cases "js_split (CHR ''/'') cs") auto
  qed
qed auto

lemma allowed_path_segments:
  "allowed_path name \<Longrightarrow> list_all plain_segment (js_split (CHR ''/'') name)"
  using path_matches_segments[of True name]
  by (cases "js_split (CHR ''/'') name") (auto simp: allowed_path_def)

lemma entry_refusal_None:
  assumes "entry_refusal limits files seen name e = None"
  shows "allowed_path name" "name \<notin> fst ` set files" "ze_size e \<le> maxEntryBytes limits"
    "seen + ze_size e \<le> maxTotalBytes limits"
  using assms by (auto simp: entry_refusal_def Let_def map_of_eq_None_iff split: if_splits)

lemma read_entry_contained:
  assumes "read_entry rt limits archive endOffset d (files, seen, cursor) = Inr (files', seen', cursor')"
    "contained_files limits files" "sum_list (map (length \<circ> snd) files) = seen"
  shows "contained_files limits files' \<and> sum_list (map (length \<circ> snd) files') = seen' \<and>
    length files' = Suc (length files)"
proof -
  obtain e name data where e: "entry_refusal limits files seen name e = None"
    "files' = files @ [(name, data)]" "seen' = seen + ze_size e" "length data = ze_size e"
    using assms(1)
    by (auto simp: read_entry_def and_then_eq_Inr Let_def extract_data_def
        split: if_splits option.splits)
  then show ?thesis
    using assms(2,3) entry_refusal_None[OF e(1)] allowed_path_segments
    by (auto simp: contained_files_def)
qed

lemma read_entries_contained:
  assumes "read_entries rt limits archive endOffset d n (files, seen, cursor) = Inr out"
    "contained_files limits files" "sum_list (map (length \<circ> snd) files) = seen"
  shows "contained_files limits out \<and> length out = length files + n"
  using assms
proof (induction n arbitrary: files seen cursor)
  case (Suc n)
  obtain files' seen' cursor' where
    step: "read_entry rt limits archive endOffset d (files, seen, cursor) = Inr (files', seen', cursor')"
    and rest: "read_entries rt limits archive endOffset d n (files', seen', cursor') = Inr out"
    using Suc.prems(1) by (auto simp: and_then_eq_Inr)
  then show ?case
    using read_entry_contained[OF step Suc.prems(2,3)] Suc.IH[OF rest] by (simp add: comp_def)
qed simp

lemma readZip_contained:
  assumes "readZip rt archive limits = Inr files"
  shows "contained_files limits files \<and> length files \<le> maxEntries limits"
proof -
  obtain n endOffset d where "read_entries rt limits archive endOffset d n ([], 0, d) = Inr files"
    "n \<le> maxEntries limits"
    using assms by (auto simp: readZip_def and_then_eq_Inr split: option.splits if_splits)
  then show ?thesis
    using read_entries_contained[of rt limits archive endOffset d n "[]" 0 d files]
    by (simp add: contained_files_def)
qed

section \<open>Written archives\<close>

text \<open>\<open>directory_of deflate crc L C xs\<close>: the directory bytes \<open>C\<close> describe the files
  \<open>xs\<close>, each stored in the local part \<open>L\<close> at the offset its entry names.\<close>

fun directory_of ::
  "(bytes \<Rightarrow> bytes) \<Rightarrow> (bytes \<Rightarrow> nat) \<Rightarrow> bytes \<Rightarrow> bytes \<Rightarrow> (string \<times> bytes) list \<Rightarrow> bool" where
  "directory_of deflate crc L C [] = (C = [])"
| "directory_of deflate crc L C ((name, data) # xs) =
    (\<exists>pre local post central rest.
      L = pre @ local @ utf8_bytes name @ deflate data @ post \<and> length local = 30 \<and>
      readUIntLE 4 local 0 = Inr LOCAL_HEADER \<and>
      readUIntLE 2 local 26 = Inr (length (utf8_bytes name)) \<and> readUIntLE 2 local 28 = Inr 0 \<and>
      C = central @ utf8_bytes name @ rest \<and> length central = 46 \<and>
      readUIntLE 4 central 0 = Inr CENTRAL_HEADER \<and>
      read_central central 0 = Inr (entry_of (crc data) (length (deflate data)) (length data)
        (length (utf8_bytes name)) (length pre)) \<and>
      directory_of deflate crc L rest xs)"

definition local_size :: "(bytes \<Rightarrow> bytes) \<Rightarrow> string \<times> bytes \<Rightarrow> nat" where
  "local_size deflate f = 30 + length (utf8_bytes (fst f)) + length (deflate (snd f))"

definition central_size :: "string \<times> bytes \<Rightarrow> nat" where
  "central_size f = 46 + length (utf8_bytes (fst f))"

definition archive_size :: "(bytes \<Rightarrow> bytes) \<Rightarrow> (string \<times> bytes) list \<Rightarrow> nat" where
  "archive_size deflate files =
    sum_list (map (local_size deflate) files) + sum_list (map central_size files) + 22"

lemma write_loop:
  assumes "\<And>d. crc d < 2 ^ 32"
    "\<And>name data. (name, data) \<in> set xs \<Longrightarrow> map_of files name = Some data \<and>
       length (utf8_bytes name) < 2 ^ 16 \<and> length data < 2 ^ 32"
    "length Ls + sum_list (map (local_size deflate) xs) < 2 ^ 32"
  shows "\<exists>L C. fold_result (write_file deflate crc files) (map fst xs) (Ls, Cs, length Ls)
      = Inr (Ls @ L, Cs @ C, length (Ls @ L)) \<and>
    length L = sum_list (map (local_size deflate) xs) \<and> length C = sum_list (map central_size xs) \<and>
    directory_of deflate crc (Ls @ L) C xs"
  using assms(2,3)
proof (induction xs arbitrary: Ls Cs)
  case (Cons f xs)
  obtain name data where f: "f = (name, data)" by (cases f)
  define N Z where "N = utf8_bytes name" and "Z = deflate data"
  have fits: "map_of files name = Some data" "length N < 2 ^ 16" "length data < 2 ^ 32"
    using Cons.prems(1)[of name data] f by (simp_all add: N_def)
  have small: "length Z < 2 ^ 32" "length Ls < 2 ^ 32"
    using Cons.prems(2) f by (simp_all add: local_size_def Z_def)
  obtain lo where lo: "local_header (crc data) (length Z) (length data) (length N) = Inr lo"
    "length lo = 30" "readUIntLE 4 lo 0 = Inr LOCAL_HEADER"
    "readUIntLE 2 lo 26 = Inr (length N)" "readUIntLE 2 lo 28 = Inr 0"
    using local_header_ok[OF assms(1) small(1) fits(3,2)] by blast
  obtain ce where ce: "central_header (crc data) (length Z) (length data) (length N) (length Ls) = Inr ce"
    "length ce = 46" "readUIntLE 4 ce 0 = Inr CENTRAL_HEADER"
    "read_central ce 0 = Inr (entry_of (crc data) (length Z) (length data) (length N) (length Ls))"
    using central_header_ok[OF assms(1) small(1) fits(3,2) small(2)] by blast
  define Ls' Cs' where "Ls' = Ls @ lo @ N @ Z" and "Cs' = Cs @ ce @ N"
  have size: "length Ls' = length Ls + local_size deflate f"
    by (simp add: Ls'_def local_size_def lo f N_def Z_def)
  then have "length Ls' + sum_list (map (local_size deflate) xs) < 2 ^ 32"
    using Cons.prems(2) by simp
  from Cons.IH[OF Cons.prems(1) this, of Cs'] obtain L C where
    rest: "fold_result (write_file deflate crc files) (map fst xs) (Ls', Cs', length Ls')
      = Inr (Ls' @ L, Cs' @ C, length (Ls' @ L))" "length L = sum_list (map (local_size deflate) xs)"
      "length C = sum_list (map central_size xs)" "directory_of deflate crc (Ls' @ L) C xs"
    by auto
  have step: "write_file deflate crc files name (Ls, Cs, length Ls) = Inr (Ls', Cs', length Ls')"
    using lo(1,2) ce(1) fits(1)
    by (simp add: write_file_def Let_def Ls'_def Cs'_def N_def[symmetric] Z_def[symmetric])
  have sizes: "local_size deflate (name, data) = 30 + length N + length Z"
    "central_size (name, data) = 46 + length N"
    by (simp_all add: local_size_def central_size_def N_def Z_def)
  have described: "directory_of deflate crc (Ls' @ L) (ce @ N @ C) (f # xs)"
    using lo ce rest(4) unfolding f Ls'_def
    by (simp add: N_def[symmetric] Z_def[symmetric]) metis
  show ?case
    by (rule exI[of _ "lo @ N @ Z @ L"], rule exI[of _ "ce @ N @ C"])
      (use step rest described lo(2) ce(2) f in
        \<open>simp add: Ls'_def Cs'_def sizes N_def[symmetric] Z_def[symmetric]\<close>)
qed simp

lemma path_matches_ascii: "path_matches start s \<Longrightarrow> list_all (\<lambda>c. js_code c < 128) s"
  by (induction start s rule: path_matches.induct)
    (auto simp: path_alnum_def path_char_def Let_def js_code_def split: if_splits)

lemma utf8_bytes_ascii:
  "list_all (\<lambda>c. js_code c < 128) s \<Longrightarrow> utf8_bytes s = map (\<lambda>c. word_of_nat (js_code c)) s"
  by (induction s) (simp_all add: utf8_bytes_def utf8_char_def)

text \<open>The reader's step on an entry the writer produced.\<close>

lemma regular_file_mode: "drop_bit 16 regular_file_attributes AND 61440 = 32768"
  by (simp add: regular_file_attributes_def)

lemma read_written_entry:
  assumes dir: "directory_of deflate (rt_crc32 rt) L C ((name, data) # xs)"
    and decode: "rt_utf8 rt (utf8_bytes name) = name"
    and decompress: "rt_inflate rt (maxEntryBytes limits) (deflate data) = Some data"
    and allowed: "allowed_path name" "name \<notin> fst ` set files"
    and small: "length data \<le> maxEntryBytes limits" "seen + length data \<le> maxTotalBytes limits"
    and archive: "archive = L @ D @ C @ E" "endOffset = length (L @ D @ C)"
  shows "\<exists>entry C'. C = entry @ C' \<and> directory_of deflate (rt_crc32 rt) L C' xs \<and>
    read_entry rt limits archive endOffset (length L) (files, seen, length (L @ D))
      = Inr (files @ [(name, data)], seen + length data, length (L @ D @ entry))"
proof -
  define N where "N = utf8_bytes name"
  obtain pre lo post ce C' where L: "L = pre @ lo @ N @ deflate data @ post" "length lo = 30"
      "readUIntLE 4 lo 0 = Inr LOCAL_HEADER" "readUIntLE 2 lo 26 = Inr (length N)"
      "readUIntLE 2 lo 28 = Inr 0"
    and C: "C = ce @ N @ C'" "length ce = 46" "readUIntLE 4 ce 0 = Inr CENTRAL_HEADER"
      "read_central ce 0 = Inr (entry_of (rt_crc32 rt data) (length (deflate data)) (length data)
        (length N) (length pre))"
    and rest: "directory_of deflate (rt_crc32 rt) L C' xs"
    using dir unfolding N_def directory_of.simps by blast
  let ?e = "entry_of (rt_crc32 rt data) (length (deflate data)) (length data) (length N) (length pre)"
  have at_cursor: "archive = (L @ D) @ ce @ N @ C' @ E"
    using archive C by simp
  have at_local: "archive = pre @ lo @ N @ deflate data @ post @ D @ C @ E"
    using archive L(1) by simp
  have "readUIntLE 4 archive (length (L @ D)) = Inr CENTRAL_HEADER"
    using readUIntLE_at[of 0 4 ce "L @ D" "N @ C' @ E"] C(2,3) at_cursor by simp
  moreover have "read_central archive (length (L @ D)) = Inr ?e"
    using read_central_at[OF C(2), of "L @ D" "N @ C' @ E"] C(4) at_cursor by simp
  moreover have "slice archive (length (L @ D) + 46) (length N) = N"
    using at_cursor C(2) by (simp add: slice_def)
  moreover have "entry_refusal limits files seen name ?e = None"
    using allowed small
    by (simp add: entry_refusal_def entry_of_def regular_file_mode map_of_eq_None_iff)
  moreover have "locate_data archive (length L) name ?e = Inr (deflate data)"
  proof -
    have "readUIntLE 4 archive (length pre) = Inr LOCAL_HEADER"
      "readUIntLE 2 archive (length pre + 26) = Inr (length N)"
      "readUIntLE 2 archive (length pre + 28) = Inr 0"
      using L(2-5) at_local readUIntLE_at[of _ _ lo pre] by (simp_all add: readUIntLE_at[of 0, simplified])
    moreover have "slice archive (length pre + 30 + length N) (length (deflate data)) = deflate data"
      using at_local L(2) by (simp add: slice_def)
    ultimately show ?thesis
      using L(1,2) by (simp add: locate_data_def entry_of_def)
  qed
  moreover have "extract_data (rt_inflate rt) (rt_crc32 rt) limits name ?e (deflate data) = Inr data"
    using decompress by (simp add: extract_data_def entry_of_def)
  ultimately have "read_entry rt limits archive endOffset (length L) (files, seen, length (L @ D))
      = Inr (files @ [(name, data)], seen + length data, length (L @ D @ ce @ N))"
    using archive(2) C(1,2) decode
    by (simp add: read_entry_def entry_of_def N_def[symmetric])
  then show ?thesis
    using C(1) rest by (intro exI[of _ "ce @ N"] exI[of _ C']) simp
qed

lemma read_loop:
  assumes "directory_of deflate (rt_crc32 rt) L C xs"
    "\<And>name data. (name, data) \<in> set xs \<Longrightarrow> rt_utf8 rt (utf8_bytes name) = name \<and> allowed_path name \<and>
       rt_inflate rt (maxEntryBytes limits) (deflate data) = Some data \<and>
       length data \<le> maxEntryBytes limits"
    "distinct (map fst (files @ xs))"
    "seen + sum_list (map (length \<circ> snd) xs) \<le> maxTotalBytes limits"
    "archive = L @ D @ C @ E" "endOffset = length (L @ D @ C)"
  shows "read_entries rt limits archive endOffset (length L) (length xs) (files, seen, length (L @ D))
    = Inr (files @ xs)"
  using assms
proof (induction xs arbitrary: C D files seen)
  case (Cons f xs)
  obtain name data where f: "f = (name, data)" by (cases f)
  have here: "rt_utf8 rt (utf8_bytes name) = name" "allowed_path name"
    "rt_inflate rt (maxEntryBytes limits) (deflate data) = Some data" "length data \<le> maxEntryBytes limits"
    using Cons.prems(2)[of name data] f by simp_all
  have "name \<notin> fst ` set files" "seen + length data \<le> maxTotalBytes limits"
    using Cons.prems(3,4) f by auto
  from read_written_entry[OF Cons.prems(1)[unfolded f] here(1,3,2) this(1) here(4) this(2) Cons.prems(5,6)]
  obtain entry C' where e: "C = entry @ C'" "directory_of deflate (rt_crc32 rt) L C' xs"
    "read_entry rt limits archive endOffset (length L) (files, seen, length (L @ D))
      = Inr (files @ [(name, data)], seen + length data, length (L @ D @ entry))"
    by blast
  have "read_entries rt limits archive endOffset (length L) (length xs)
      (files @ [(name, data)], seen + length data, length (L @ (D @ entry)))
    = Inr ((files @ [(name, data)]) @ xs)"
    by (rule Cons.IH[OF e(2)]) (use Cons.prems e f in auto)
  then show ?case
    using e(3) f by simp
qed simp

lemma find_written_end:
  assumes "length b = 22" "readUIntLE 4 b 0 = Inr END_OF_CENTRAL_DIRECTORY" "readUIntLE 2 b 20 = Inr 0"
  shows "findEndOfCentralDirectory (a @ b) = Inr (Some (length a))"
proof -
  have reads: "readUIntLE 4 (a @ b) (length a) = Inr END_OF_CENTRAL_DIRECTORY"
    "readUIntLE 2 (a @ b) (length a + 20) = Inr 0"
    using readUIntLE_at[of 0 4 b a "[]"] readUIntLE_at[of 20 2 b a "[]"] assms by simp_all
  have "length (a @ b) - 21 = Suc (length a)" using assms(1) by simp
  then show ?thesis
    using reads assms(1) by (simp add: findEndOfCentralDirectory_def)
qed

lemma map_fst_sort_key: "map fst (sort_key fst xs) = sort (map fst xs)"
  by (rule sym, rule properties_for_sort) simp_all

lemma map_of_sorted:
  assumes "distinct (map fst files)" "(name, data) \<in> set (sort_key fst files)"
  shows "map_of files name = Some data"
  using assms by simp

lemma sum_list_sort_key:
  fixes g :: "'a \<Rightarrow> nat"
  shows "sum_list (map g (sort_key f xs)) = sum_list (map g xs)"
  by (metis mset_map mset_sort sum_mset_sum_list)

text \<open>Files an archive can hold: allowed and distinct names, sizes within the reader's limits and
  the widths of the format.\<close>

definition storable :: "(bytes \<Rightarrow> bytes) \<Rightarrow> ZipLimits \<Rightarrow> (string \<times> bytes) list \<Rightarrow> bool" where
  "storable deflate limits files =
    (distinct (map fst files) \<and>
     list_all (\<lambda>(name, data). allowed_path name \<and> length name < 2 ^ 16 \<and> length data < 2 ^ 32 \<and>
       length data \<le> maxEntryBytes limits) files \<and>
     sum_list (map (length \<circ> snd) files) \<le> maxTotalBytes limits \<and>
     length files \<le> maxEntries limits \<and> length files < 0xffff \<and>
     archive_size deflate files < 2 ^ 32)"

lemma storable_member:
  assumes "storable deflate limits files" "(name, data) \<in> set (sort_key fst files)"
  shows "map_of files name = Some data" "allowed_path name" "length (utf8_bytes name) < 2 ^ 16"
    "utf8_bytes name = map (\<lambda>c. word_of_nat (js_code c)) name" "list_all (\<lambda>c. js_code c < 128) name"
    "length data < 2 ^ 32" "length data \<le> maxEntryBytes limits"
proof -
  have m: "allowed_path name" "length name < 2 ^ 16" "length data < 2 ^ 32"
    "length data \<le> maxEntryBytes limits"
    using assms by (auto simp: storable_def list_all_iff)
  moreover have "list_all (\<lambda>c. js_code c < 128) name"
    using m(1) path_matches_ascii unfolding allowed_path_def by blast
  ultimately show "allowed_path name" "length (utf8_bytes name) < 2 ^ 16"
    "utf8_bytes name = map (\<lambda>c. word_of_nat (js_code c)) name" "list_all (\<lambda>c. js_code c < 128) name"
    "length data < 2 ^ 32" "length data \<le> maxEntryBytes limits"
    by (simp_all add: utf8_bytes_ascii)
  show "map_of files name = Some data"
    using assms map_of_sorted by (auto simp: storable_def)
qed

lemma written_archive:
  assumes "storable deflate limits files" "\<And>d. crc d < 2 ^ 32"
  obtains L C E where "writeZip deflate crc files = Inr (L @ C @ E)"
    "end_record (length files) (length C) (length L) = Inr E"
    "directory_of deflate crc L C (sort_key fst files)"
    "length L + length C + 22 = archive_size deflate files"
proof -
  let ?xs = "sort_key fst files"
  have "sum_list (map (local_size deflate) ?xs) < 2 ^ 32"
    using assms(1) by (simp add: storable_def archive_size_def sum_list_sort_key)
  then obtain L C where loop: "fold_result (write_file deflate crc files) (map fst ?xs) ([], [], 0)
      = Inr (L, C, length L)" and dir: "directory_of deflate crc L C ?xs"
    and sizes: "length L = sum_list (map (local_size deflate) ?xs)"
      "length C = sum_list (map central_size ?xs)"
    using write_loop[of crc ?xs files "[]" deflate "[]"] assms(2) storable_member[OF assms(1)] by auto
  have size: "length L + length C + 22 = archive_size deflate files"
    using sizes by (simp add: archive_size_def sum_list_sort_key)
  then have "length files < 2 ^ 16" "length C < 2 ^ 32" "length L < 2 ^ 32"
    using assms(1) by (auto simp: storable_def)
  then obtain E where E: "end_record (length files) (length C) (length L) = Inr E"
    using end_record_ok by metis
  show thesis
    using loop E dir size by (intro that) (simp_all add: writeZip_def map_fst_sort_key)
qed

text \<open>Claim C21. Release archives survive the trip through their bytes: for files with distinct
  allowed paths within the reader's limits and the widths of the format, writing succeeds with an
  archive of exactly the computed size, and reading it with those limits returns exactly the files,
  in the order of their names. Assumed of the runtime: bounded decompression inverts compression,
  checksums fit 32 bits and ASCII names decode to themselves.\<close>

theorem written_archive_reads_back:
  assumes "storable deflate limits files"
    and "\<And>d. length d \<le> maxEntryBytes limits \<Longrightarrow>
      rt_inflate rt (maxEntryBytes limits) (deflate d) = Some d"
    and "\<And>d. rt_crc32 rt d < 2 ^ 32"
    and "\<And>s. list_all (\<lambda>c. js_code c < 128) s \<Longrightarrow> rt_utf8 rt (map (\<lambda>c. word_of_nat (js_code c)) s) = s"
  shows "\<exists>archive. writeZip deflate (rt_crc32 rt) files = Inr archive \<and>
    length archive = archive_size deflate files \<and>
    readZip rt archive limits = Inr (sort_key fst files)"
proof -
  obtain L C E where w: "writeZip deflate (rt_crc32 rt) files = Inr (L @ C @ E)"
    and E: "end_record (length files) (length C) (length L) = Inr E"
    and dir: "directory_of deflate (rt_crc32 rt) L C (sort_key fst files)"
    and size: "length L + length C + 22 = archive_size deflate files"
    by (rule written_archive[OF assms(1,3)])
  have bounds: "length files < 0xffff" "length C + length L < 2 ^ 32 - 22" "length files \<le> maxEntries limits"
    using assms(1) size by (auto simp: storable_def)
  obtain E' where e: "end_record (length files) (length C) (length L) = Inr E'" "length E' = 22"
    "readUIntLE 4 E' 0 = Inr END_OF_CENTRAL_DIRECTORY" "readUIntLE 2 E' 4 = Inr 0"
    "readUIntLE 2 E' 8 = Inr (length files)" "readUIntLE 2 E' 10 = Inr (length files)"
    "readUIntLE 4 E' 12 = Inr (length C)" "readUIntLE 4 E' 16 = Inr (length L)" "readUIntLE 2 E' 20 = Inr 0"
    by (rule end_record_ok[of "length files" "length C" "length L"]) (use bounds in auto)
  have [simp]: "E' = E" using e(1) E by simp
  have at_end: "readUIntLE n (L @ C @ E) (length L + length C + i) = readUIntLE n E i" if "i + n \<le> 22" for i n
    using readUIntLE_at[of i n E "L @ C" "[]"] that e(2) by simp
  have loop: "read_entries rt limits (L @ C @ E) (length L + length C) (length L) (length files)
      ([], 0, length L) = Inr (sort_key fst files)"
    using read_loop[OF dir, of limits "[]" 0 "L @ C @ E" "[]" E "length L + length C"]
      storable_member[OF assms(1)] assms
    by (simp add: storable_def sum_list_sort_key map_fst_sort_key)
  have "findEndOfCentralDirectory (L @ C @ E) = Inr (Some (length L + length C))"
    using find_written_end[of E "L @ C"] e by simp
  then have "readZip rt (L @ C @ E) limits = Inr (sort_key fst files)"
    using e bounds loop by (simp add: readZip_def at_end)
  then show ?thesis
    using w size e(2) by (intro exI[of _ "L @ C @ E"]) simp
qed

text \<open>A concrete runtime: stored bytes as their own compression, a checksum of the length, and
  names read byte by byte.\<close>

definition sample_runtime :: zip_runtime where
  "sample_runtime = \<lparr>rt_inflate = \<lambda>m d. if length d \<le> m then Some d else None,
     rt_crc32 = \<lambda>d. length d mod 2 ^ 32, rt_utf8 = map (\<lambda>b. char_of (unat b))\<rparr>"

definition sample_files :: "(string \<times> bytes) list" where
  "sample_files = [(''rules/main.json'', [1, 2, 3]), (''manifest.json'', [7])]"

definition sample_limits :: ZipLimits where
  "sample_limits = \<lparr>maxEntries = 4, maxEntryBytes = 8, maxTotalBytes = 16\<rparr>"

lemma sample_storable: "storable (\<lambda>d. d) sample_limits sample_files"
  by (simp add: storable_def sample_limits_def sample_files_def archive_size_def local_size_def
      central_size_def utf8_bytes_def utf8_char_def js_code_def allowed_path_def path_alnum_def
      path_char_def)

lemma written_archive_reads_back_witness:
  "\<exists>archive. writeZip (\<lambda>d. d) (rt_crc32 sample_runtime) sample_files = Inr archive \<and>
    length archive = archive_size (\<lambda>d. d) sample_files \<and>
    readZip sample_runtime archive sample_limits
      = Inr [(''manifest.json'', [7]), (''rules/main.json'', [1, 2, 3])]"
proof -
  have "sort_key fst sample_files = [(''manifest.json'', [7]), (''rules/main.json'', [1, 2, 3])]"
    by code_simp
  moreover have decode: "rt_utf8 sample_runtime (map (\<lambda>c. word_of_nat (js_code c)) s) = s"
    if "list_all (\<lambda>c. js_code c < 128) s" for s
    using that by (induction s) (simp_all add: sample_runtime_def js_code_def unat_of_nat)
  ultimately show ?thesis
    using written_archive_reads_back[OF sample_storable _ _ decode]
    by (simp add: sample_runtime_def sample_limits_def)
qed

text \<open>Claim C20. Whatever bytes and limits the archive reader is given, and however the runtime
  decompresses, its outcome is one of two: the refusal with status 422 and code
  \<open>guardrail_package_invalid\<close>, never a range error of a read outside the buffer; or files whose
  names are distinct relative paths of plain segments (none empty, none starting with a dot), at
  most \<open>maxEntries\<close> of them, each of at most \<open>maxEntryBytes\<close> bytes and together of at most
  \<open>maxTotalBytes\<close>.\<close>

theorem archive_reading_contained:
  "case readZip rt archive limits of
     Inl e \<Rightarrow> err_status e = 422 \<and> err_code e = ''guardrail_package_invalid''
   | Inr files \<Rightarrow> contained_files limits files \<and> length files \<le> maxEntries limits"
proof (cases "readZip rt archive limits")
  case (Inl e)
  then show ?thesis
    using readZip_refusal[OF Inl] by (auto simp: is_refusal_def zip_invalid_def)
qed (use readZip_contained in auto)

end
