(* ===== verification/Request_Gate.thy ===== *)
theory Request_Gate
  imports Project_Context
begin

text \<open>
  The authentication middleware of the management API
  (\<^verbatim>\<open>authentication\<close> in \<^verbatim>\<open>controller/server/http/app.ts\<close>): from the headers of a
  request it produces a rejection, a thrown error, or the actor and the authority context the
  handler runs with. Better Auth's session lookup is an argument; the token service, the Project
  service, the route table and the role tables are those of the imported theories.
\<close>

section \<open>Requests, sessions and outcomes\<close>

record request =
  req_method :: string
  req_path :: string
  req_authorization :: "string option"
  req_project :: "string option"
  req_query_projectId :: "string option"

record auth_session =
  as_userId :: string
  as_role :: "string option"
  as_sessionId :: "string option"
  as_activeProjectId :: "string option"

record Actor =
  act_id :: string
  act_role :: string
  act_projectId :: "string option"

text \<open>\<open>RunHandler actor ctx route\<close>: the handler runs as \<open>actor\<close> under \<open>ctx\<close>, and the use of a
  token is recorded afterwards for \<open>route\<close>, if any.\<close>

datatype gate_outcome =
    Reject nat string
  | Throw thrown
  | RunHandler Actor AuthorityContext "string option"

section \<open>Helpers\<close>

text \<open>\<open>/^Bearer ([^\s]+)$/i\<close>\<close>

definition bearer_secret :: "string \<Rightarrow> string option" where
  "bearer_secret h =
     (if js_lower (take 7 h) = ''bearer '' \<and> drop 7 h \<noteq> [] \<and> list_all (\<lambda>c. \<not> js_space c) (drop 7 h)
      then Some (drop 7 h) else None)"

definition validProjectId :: "string option \<Rightarrow> bool" where
  "validProjectId p = (case p of None \<Rightarrow> False | Some s \<Rightarrow> js_trim s \<noteq> [] \<and> s = js_trim s)"

text \<open>\<open>/^[a-zA-Z0-9_-]{1,128}$/\<close>\<close>

definition projectIdSchema :: "string \<Rightarrow> bool" where
  "projectIdSchema s = (1 \<le> length s \<and> length s \<le> 128 \<and> list_all base64url_char s)"

text \<open>\<open>/^\/api\/v1\/account\/access-tokens(?:\/[^/]+)?$/\<close>\<close>

definition access_token_route :: "string \<Rightarrow> bool" where
  "access_token_route path = (path = ''/api/v1/account/access-tokens'' \<or>
     (js_startsWith path ''/api/v1/account/access-tokens/'' \<and>
      drop 30 path \<noteq> [] \<and> CHR ''/'' \<notin> set (drop 30 path)))"

definition accountRecovery :: "string \<Rightarrow> string \<Rightarrow> bool" where
  "accountRecovery verb path = (path \<in> set [''/api/v1/account/identity'', ''/api/v1/account/projects'',
       ''/api/v1/account/project'', ''/api/v1/account/project-access'', ''/api/v1/account/project-access/refresh'']
     \<or> (verb \<noteq> ''POST'' \<and> access_token_route path))"

definition accountRoute :: "string \<Rightarrow> bool" where
  "accountRoute path = (path \<in> set [''/api/v1/account/identity'', ''/api/v1/account/project'',
       ''/api/v1/account/projects'', ''/api/v1/account/project-access'', ''/api/v1/account/project-access/refresh'']
     \<or> access_token_route path)"

section \<open>Running the handler\<close>

definition model_write :: "request \<Rightarrow> bool" where
  "model_write req = (case requiredTokenPermission (req_method req) (req_path req) of
     Some (_, _, resource, action) \<Rightarrow> resource = Models \<and> action = Write | None \<Rightarrow> False)"

definition lift_context :: "Actor \<Rightarrow> string option \<Rightarrow> thrown + AuthorityContext \<Rightarrow> gate_outcome" where
  "lift_context actor route r =
     (case r of Inl e \<Rightarrow> Throw e | Inr ctx \<Rightarrow> RunHandler actor ctx route)"

definition runAsActor :: "project_db option \<Rightarrow> request \<Rightarrow> Actor \<Rightarrow> string option \<Rightarrow> gate_outcome" where
  "runAsActor projects req actor route =
     (let scope = (if act_role actor = ''admin'' then adminProjectScope (req_method req) (req_path req) else None);
          requestedProject = req_project req
      in if scope \<noteq> None \<and> req_query_projectId req \<noteq> None
         then Throw (ControllerError ''Use X-Project-ID to select a project, not the projectId query parameter.'' 400 ''invalid_project_selector'' [])
         else if scope = Some Required \<or> (scope = Some Optional \<and> requestedProject \<noteq> None)
         then (if falsy requestedProject
               then Throw (ControllerError ''X-Project-ID is required to read project resources.'' 400 ''project_required'' [])
               else if \<not> projectIdSchema (the requestedProject)
               then Throw (ControllerError ''X-Project-ID must be a valid Project ID.'' 400 ''invalid_project_id'' [])
               else (case projects of
                   None \<Rightarrow> Throw (ControllerError ''Project management is unavailable.'' 503 ''projects_unavailable'' [])
                 | Some pdb \<Rightarrow>
                     (case requireExists pdb (the requestedProject) of
                        Inl e \<Rightarrow> Throw e
                      | Inr _ \<Rightarrow> RunHandler (actor\<lparr>act_projectId := requestedProject\<rparr>)
                          (runWithProjectReadContext (the requestedProject) (act_id actor)) route)))
         else if act_role actor = ''admin'' \<and> requestedProject \<noteq> None \<and> model_write req
         then Throw (ControllerError ''Administrators can only read project Models.'' 403 ''project_read_only'' [])
         else if \<not> falsy (act_projectId actor) \<or> act_role actor = ''admin''
         then lift_context actor route
           (runWithProjectContext (act_projectId actor) (Some (act_id actor)) (account_role (Some (act_role actor))))
         else RunHandler actor (runWithUserContext (act_id actor) User) route)"

section \<open>The gate\<close>

text \<open>Requests with an \<open>Authorization\<close> header. \<open>tokens\<close> is the token service, if configured.\<close>

definition token_gate ::
  "(string \<Rightarrow> TokenIdentity option) option \<Rightarrow> project_db option \<Rightarrow> request \<Rightarrow> string \<Rightarrow> gate_outcome" where
  "token_gate tokens projects req header =
     (let actor = (case (bearer_secret header, tokens) of
                     (Some secret, Some auth) \<Rightarrow> auth secret | _ \<Rightarrow> None)
      in case actor of
           None \<Rightarrow> Reject 401 ''unauthenticated''
         | Some actor \<Rightarrow>
             if \<not> isAccountRole (Some (ti_role actor)) then Reject 403 ''forbidden''
             else if ti_role actor = ''user'' \<and> \<not> validProjectId (ti_projectId actor)
             then Reject 401 ''unauthenticated''
             else let permission = requiredTokenPermission (req_method req) (req_path req);
                      account = requiredAccountPermission (req_method req) (req_path req);
                      allowed = (case (permission, account) of
                        (Some (_, _, resource, access), Some (res, action)) \<Rightarrow>
                          hasPermission (Some (ti_role actor)) res action
                          \<and> allowsTokenPermission (ti_permissions actor) resource access (ti_role actor)
                      | _ \<Rightarrow> False)
                  in if (req_path req \<noteq> ''/api/v1/account/identity'' \<or> req_method req \<noteq> ''GET'') \<and> \<not> allowed
                     then Reject 403 ''insufficient_token_permission''
                     else runAsActor projects req
                       \<lparr>act_id = ti_id actor, act_role = ti_role actor,
                        act_projectId = (if ti_role actor = ''admin'' then None else ti_projectId actor)\<rparr>
                       (if req_method req \<in> {''GET'', ''HEAD''} then None
                        else map_option (\<lambda>(_, template, _, _). template) permission))"

text \<open>Requests without one, by the session of the browser.\<close>

definition session_gate ::
  "project_db option \<Rightarrow> request \<Rightarrow> auth_session option \<Rightarrow> gate_outcome" where
  "session_gate projects req session =
     (case session of
        None \<Rightarrow> Reject 401 ''unauthenticated''
      | Some s \<Rightarrow>
          (case account_role (as_role s) of
             None \<Rightarrow> Reject 403 ''forbidden''
           | Some role \<Rightarrow>
               let selectedProject = as_activeProjectId s; expectedProject = req_project req
               in if role = User \<and> \<not> falsy expectedProject \<and> expectedProject \<noteq> selectedProject
                  then Reject 409 ''project_changed''
                  else
                  let member = (case projects of
                          Some pdb \<Rightarrow> if role = User \<and> validProjectId selectedProject
                            then membership pdb (as_userId s) (the selectedProject) else None
                        | None \<Rightarrow> None);
                      projectId = (if role = User \<and> validProjectId selectedProject
                            \<and> (projects = None \<or> member \<noteq> None) then selectedProject else None);
                      recovery = accountRecovery (req_method req) (req_path req);
                      permission = requiredAccountPermission (req_method req) (req_path req)
                  in if role = User \<and> falsy projectId \<and> \<not> recovery then Reject 403 ''project_required''
                     else if role = User \<and> \<not> falsy projectId \<and> \<not> recovery
                       \<and> (case projects of Some pdb \<Rightarrow> \<not> runnerInitialized pdb (the projectId) | None \<Rightarrow> False)
                     then Reject 403 ''project_not_initialized''
                     else if (case member of Some m \<Rightarrow> mem_access m = ''read'' | None \<Rightarrow> False)
                       \<and> (case permission of Some (_, action) \<Rightarrow> action = Write | None \<Rightarrow> False)
                     then Reject 403 ''project_read_only''
                     else if (permission = None \<and> \<not> accountRoute (req_path req))
                       \<or> (case permission of Some (res, action) \<Rightarrow> \<not> hasPermission (as_role s) res action | None \<Rightarrow> False)
                     then Reject 403 ''forbidden''
                     else runAsActor projects req
                       \<lparr>act_id = as_userId s, act_role = the (as_role s), act_projectId = projectId\<rparr> None))"

definition authentication ::
  "(string \<Rightarrow> TokenIdentity option) option \<Rightarrow> project_db option \<Rightarrow> request \<Rightarrow> auth_session option \<Rightarrow> gate_outcome" where
  "authentication tokens projects req session =
     (case req_authorization req of
        Some header \<Rightarrow> token_gate tokens projects req header
      | None \<Rightarrow> session_gate projects req session)"

text \<open>The metrics endpoint has a static bearer token of its own.\<close>

definition metricsAuthentication :: "string option \<Rightarrow> string option \<Rightarrow> bool" where
  "metricsAuthentication token header =
     (falsy token \<or> header = Some (''Bearer '' @ the token))"

section \<open>What reaching the handler implies\<close>

text \<open>The authority a handler runs with, by the role of the actor.\<close>

lemma runAsActor_RunHandler:
  assumes "runAsActor projects req actor route = RunHandler a ctx r"
  shows "r = route \<and> act_id a = act_id actor \<and> act_role a = act_role actor \<and>
    (if act_role actor = ''admin''
     then (ctx = PlatformScope (if act_id actor = [] then None else Some (act_id actor)) \<and> a = actor \<and>
             \<not> (req_project req \<noteq> None \<and> model_write req) \<and>
             adminProjectScope (req_method req) (req_path req) \<noteq> Some Required)
       \<or> (\<exists>p pdb. req_project req = Some p \<and> projects = Some pdb \<and> requireExists pdb p = Inr () \<and>
             projectIdSchema p \<and> adminProjectScope (req_method req) (req_path req) \<noteq> None \<and>
             ctx = ProjectScope p (Some (act_id actor)) (Some Admin))
     else a = actor \<and> (if falsy (act_projectId actor) then ctx = UserScope (act_id actor) User
       else ctx = ProjectScope (the (act_projectId actor)) (Some (act_id actor))
             (account_role (Some (act_role actor)))))"
proof (cases "act_role actor = ''admin''")
  case True
  with assms show ?thesis
    unfolding runAsActor_def Let_def
    by (auto simp: runWithProjectReadContext_def lift_context_def runWithProjectContext_def falsy_def
        split: if_splits option.splits sum.splits)
next
  case False
  with assms show ?thesis
    unfolding runAsActor_def Let_def
    by (auto simp: runWithUserContext_def lift_context_def runWithProjectContext_def falsy_def
        account_role_def split: if_splits option.splits sum.splits)
qed

lemma token_gate_RunHandler:
  assumes "token_gate tokens projects req header = RunHandler a ctx r"
  obtains secret auth i where
    "bearer_secret header = Some secret" "tokens = Some auth" "auth secret = Some i"
    "isAccountRole (Some (ti_role i))"
    "ti_role i = ''user'' \<longrightarrow> validProjectId (ti_projectId i)"
    "req_path req = ''/api/v1/account/identity'' \<and> req_method req = ''GET'' \<or>
      (\<exists>m t res acc res' act. requiredTokenPermission (req_method req) (req_path req) = Some (m, t, res, acc) \<and>
        requiredAccountPermission (req_method req) (req_path req) = Some (res', act) \<and>
        hasPermission (Some (ti_role i)) res' act \<and>
        allowsTokenPermission (ti_permissions i) res acc (ti_role i))"
    "runAsActor projects req \<lparr>act_id = ti_id i, act_role = ti_role i,
        act_projectId = (if ti_role i = ''admin'' then None else ti_projectId i)\<rparr>
       (if req_method req \<in> {''GET'', ''HEAD''} then None
        else map_option (\<lambda>(_, template, _, _). template)
          (requiredTokenPermission (req_method req) (req_path req))) = RunHandler a ctx r"
  using assms unfolding token_gate_def Let_def
  by (auto split: option.splits if_splits prod.splits)

lemma session_gate_RunHandler:
  assumes "session_gate projects req session = RunHandler a ctx r"
  obtains s role p where
    "session = Some s" "account_role (as_role s) = Some role"
    "case requiredAccountPermission (req_method req) (req_path req) of
       Some (res, act) \<Rightarrow> hasPermission (as_role s) res act | None \<Rightarrow> accountRoute (req_path req)"
    "role = User \<Longrightarrow> p = None \<Longrightarrow> accountRecovery (req_method req) (req_path req)"
    "role = Admin \<Longrightarrow> p = None"
    "\<And>q. p = Some q \<Longrightarrow> as_activeProjectId s = Some q \<and> validProjectId (Some q) \<and>
      (req_project req = None \<or> req_project req = Some [] \<or> req_project req = Some q) \<and>
      (case projects of None \<Rightarrow> True | Some pdb \<Rightarrow>
        (\<exists>m. membership pdb (as_userId s) q = Some m \<and>
          (mem_access m = ''read'' \<longrightarrow> (\<forall>res act.
             requiredAccountPermission (req_method req) (req_path req) = Some (res, act) \<longrightarrow> act = Read))) \<and>
        (accountRecovery (req_method req) (req_path req) \<or> runnerInitialized pdb q))"
    "runAsActor projects req
       \<lparr>act_id = as_userId s, act_role = the (as_role s), act_projectId = p\<rparr> None = RunHandler a ctx r"
proof -
  from assms obtain s where s: "session = Some s" by (cases session) (auto simp: session_gate_def)
  with assms obtain role where role: "account_role (as_role s) = Some role"
    by (cases "account_role (as_role s)") (auto simp: session_gate_def)
  define member where "member = (case projects of
      Some pdb \<Rightarrow> if role = User \<and> validProjectId (as_activeProjectId s)
        then membership pdb (as_userId s) (the (as_activeProjectId s)) else None
    | None \<Rightarrow> None)"
  define p where "p = (if role = User \<and> validProjectId (as_activeProjectId s)
      \<and> (projects = None \<or> member \<noteq> None) then as_activeProjectId s else None)"
  define perm where "perm = requiredAccountPermission (req_method req) (req_path req)"
  let ?rec = "accountRecovery (req_method req) (req_path req)"
  note g = assms [unfolded session_gate_def s role Let_def option.case, folded member_def, folded p_def perm_def]
  from g have guards:
    "\<not> (role = User \<and> \<not> falsy (req_project req) \<and> req_project req \<noteq> as_activeProjectId s)"
    "\<not> (role = User \<and> falsy p \<and> \<not> ?rec)"
    "\<not> (role = User \<and> \<not> falsy p \<and> \<not> ?rec
        \<and> (case projects of Some pdb \<Rightarrow> \<not> runnerInitialized pdb (the p) | None \<Rightarrow> False))"
    "\<not> ((case member of Some m \<Rightarrow> mem_access m = ''read'' | None \<Rightarrow> False)
        \<and> (case perm of Some (_, action) \<Rightarrow> action = Write | None \<Rightarrow> False))"
    "\<not> ((perm = None \<and> \<not> accountRoute (req_path req))
        \<or> (case perm of Some (res, action) \<Rightarrow> \<not> hasPermission (as_role s) res action | None \<Rightarrow> False))"
    "runAsActor projects req
       \<lparr>act_id = as_userId s, act_role = the (as_role s), act_projectId = p\<rparr> None = RunHandler a ctx r"
    by (simp_all split: if_splits)
  show thesis
  proof (rule that [OF s role _ _ _ _ guards(6)])
    show "case requiredAccountPermission (req_method req) (req_path req) of
       Some (res, act) \<Rightarrow> hasPermission (as_role s) res act | None \<Rightarrow> accountRoute (req_path req)"
      using guards(5) by (auto simp: perm_def [symmetric] split: option.splits prod.splits)
    show "role = User \<Longrightarrow> p = None \<Longrightarrow> ?rec" using guards(2) by (simp add: falsy_def)
    show "role = Admin \<Longrightarrow> p = None" by (simp add: p_def)
  next
    fix q assume q: "p = Some q"
    then have u: "role = User" "validProjectId (as_activeProjectId s)" "as_activeProjectId s = Some q"
      "projects = None \<or> member \<noteq> None" by (auto simp: p_def split: if_splits)
    then have "q \<noteq> []" by (auto simp: validProjectId_def)
    with u q guards(1) have "req_project req = None \<or> req_project req = Some [] \<or> req_project req = Some q"
      by (auto simp: falsy_def)
    moreover have "\<exists>m. membership pdb (as_userId s) q = Some m \<and>
        (mem_access m = ''read'' \<longrightarrow> (\<forall>res act. perm = Some (res, act) \<longrightarrow> act = Read))"
      if "projects = Some pdb" for pdb
    proof -
      from that u have "member = membership pdb (as_userId s) q" by (simp add: member_def)
      with u(4) that obtain m where m: "membership pdb (as_userId s) q = Some m" "member = Some m" by auto
      moreover have "act = Read" if "mem_access m = ''read''" "perm = Some (res, act)" for res act
        using guards(4) m(2) that by (cases act) auto
      ultimately show ?thesis by blast
    qed
    moreover have "?rec \<or> runnerInitialized pdb q" if "projects = Some pdb" for pdb
      using guards(3) u q \<open>q \<noteq> []\<close> that by (auto simp: falsy_def)
    ultimately show "as_activeProjectId s = Some q \<and> validProjectId (Some q) \<and>
      (req_project req = None \<or> req_project req = Some [] \<or> req_project req = Some q) \<and>
      (case projects of None \<Rightarrow> True | Some pdb \<Rightarrow>
        (\<exists>m. membership pdb (as_userId s) q = Some m \<and>
          (mem_access m = ''read'' \<longrightarrow> (\<forall>res act.
             requiredAccountPermission (req_method req) (req_path req) = Some (res, act) \<longrightarrow> act = Read))) \<and>
        (?rec \<or> runnerInitialized pdb q))"
      using u by (auto simp: perm_def [symmetric] split: option.splits)
  qed
qed

section \<open>Properties\<close>

text \<open>Claim C1. A request that carries an Authorization header reaches its handler only as the
  account its token authenticates: either it reads the account's own identity, or the route is in
  the table, the token's grants allow the module and access the table asks for, and so does the
  owner's role. For every method other than GET and HEAD the route to be audited is known.\<close>

theorem token_request_authorised:
  assumes "req_authorization req = Some header"
    and "authentication (Some auth) projects req session = RunHandler a ctx route"
  shows "\<exists>secret i. bearer_secret header = Some secret \<and> auth secret = Some i \<and>
    act_id a = ti_id i \<and> act_role a = ti_role i \<and>
    (req_path req = ''/api/v1/account/identity'' \<and> req_method req = ''GET'' \<or>
     (\<exists>template res action.
        requiredTokenPermission (req_method req) (req_path req) = Some (req_method req, template, res, action) \<and>
        allowsTokenPermission (ti_permissions i) res action (ti_role i) \<and>
        hasPermission (Some (ti_role i)) res action \<and>
        (req_method req \<notin> {''GET'', ''HEAD''} \<longrightarrow> route = Some template)))"
proof -
  from assms have "token_gate (Some auth) projects req header = RunHandler a ctx route"
    by (simp add: authentication_def)
  then show ?thesis
  proof (rule token_gate_RunHandler)
    fix secret auth' i
    assume b: "bearer_secret header = Some secret" "Some auth = Some auth'" "auth' secret = Some i"
      and perm: "req_path req = ''/api/v1/account/identity'' \<and> req_method req = ''GET'' \<or>
      (\<exists>m t res acc res' act. requiredTokenPermission (req_method req) (req_path req) = Some (m, t, res, acc) \<and>
        requiredAccountPermission (req_method req) (req_path req) = Some (res', act) \<and>
        hasPermission (Some (ti_role i)) res' act \<and>
        allowsTokenPermission (ti_permissions i) res acc (ti_role i))"
      and run: "runAsActor projects req \<lparr>act_id = ti_id i, act_role = ti_role i,
        act_projectId = (if ti_role i = ''admin'' then None else ti_projectId i)\<rparr>
       (if req_method req \<in> {''GET'', ''HEAD''} then None
        else map_option (\<lambda>(_, template, _, _). template)
          (requiredTokenPermission (req_method req) (req_path req))) = RunHandler a ctx route"
    note ran = runAsActor_RunHandler [OF run]
    from perm show ?thesis
    proof
      assume "req_path req = ''/api/v1/account/identity'' \<and> req_method req = ''GET''"
      with b ran show ?thesis by auto
    next
      assume "\<exists>m t res acc res' act. requiredTokenPermission (req_method req) (req_path req) = Some (m, t, res, acc) \<and>
        requiredAccountPermission (req_method req) (req_path req) = Some (res', act) \<and>
        hasPermission (Some (ti_role i)) res' act \<and>
        allowsTokenPermission (ti_permissions i) res acc (ti_role i)"
      then obtain t res acc where
        "requiredTokenPermission (req_method req) (req_path req) = Some (req_method req, t, res, acc)"
        "allowsTokenPermission (ti_permissions i) res acc (ti_role i)"
        by (auto dest: requiredTokenPermission_Some)
      with b ran allows_within_role show ?thesis by auto
    qed
  qed
qed

text \<open>A concrete gate: one Project with an initialised Runner pool, a member who may write, and
  a token of that member.\<close>

definition example_projects :: project_db where
  "example_projects = \<lparr>pd_projects = [\<lparr>pr_id = ''p1'', pr_name = ''demo'', pr_groupId = ''default''\<rparr>],
     pd_pools = [\<lparr>pool_id = ''default'', pool_projectId = None, pool_groupId = ''default'', pool_runtimeUrl = None\<rparr>],
     pd_members = [\<lparr>mem_projectId = ''p1'', mem_userId = ''u1'', mem_access = ''write''\<rparr>],
     pd_defaultRuntimeUrl = Some ''http://runner''\<rparr>"

definition example_identity :: TokenIdentity where
  "example_identity = \<lparr>ti_id = ''u1'', ti_role = ''user'', ti_projectId = Some ''p1'', ti_tokenId = ''t1'',
     ti_permissions = [(''guardrails'', ''write'')]\<rparr>"

definition example_write :: "string option \<Rightarrow> request" where
  "example_write header = \<lparr>req_method = ''POST'', req_path = ''/api/v1/guardrails'',
     req_authorization = header, req_project = None, req_query_projectId = None\<rparr>"

theorem token_request_authorised_witness:
  "authentication (Some (\<lambda>s. if s = ''abc'' then Some example_identity else None)) (Some example_projects)
     (example_write (Some ''Bearer abc'')) None =
     RunHandler \<lparr>act_id = ''u1'', act_role = ''user'', act_projectId = Some ''p1''\<rparr>
       (ProjectScope ''p1'' (Some ''u1'') (Some User)) (Some ''/api/v1/guardrails'') \<and>
   allowsTokenPermission (ti_permissions example_identity) Guardrails Write ''user''"
proof -
  let ?auth = "\<lambda>s. if s = ''abc'' then Some example_identity else None"
  have run: "authentication (Some ?auth) (Some example_projects) (example_write (Some ''Bearer abc'')) None =
     RunHandler \<lparr>act_id = ''u1'', act_role = ''user'', act_projectId = Some ''p1''\<rparr>
       (ProjectScope ''p1'' (Some ''u1'') (Some User)) (Some ''/api/v1/guardrails'')"
    by code_simp
  have hdr: "req_authorization (example_write (Some ''Bearer abc'')) = Some ''Bearer abc''"
    by (simp add: example_write_def)
  have row: "requiredTokenPermission ''POST'' ''/api/v1/guardrails'' =
      Some (''POST'', ''/api/v1/guardrails'', Guardrails, Write)" by code_simp
  have "bearer_secret ''Bearer abc'' = Some ''abc''" by code_simp
  with token_request_authorised [OF hdr run] row run show ?thesis
    by (auto simp: example_write_def example_identity_def)
qed

definition project_resources :: "PermissionResource set" where
  "project_resources = {Guardrails, Policies, Playground, Routers, Endpoints}"

definition catalogue_path :: "string \<Rightarrow> bool" where
  "catalogue_path path = (path \<in> set [''/api/v1/guardrail-capabilities'', ''/api/v1/authoring/capabilities'',
     ''/api/v1/policy-catalog/actions'', ''/api/v1/policy-catalog/detectors'', ''/api/v1/routing/selector-fields''])"

lemma account_permission_of_table:
  assumes "requiredAccountPermission verb path = Some (res, act)" "res \<noteq> Users"
  obtains t where "requiredTokenPermission verb path = Some (verb, t, res, act)"
  using assms requiredTokenPermission_Some
  by (auto simp: requiredAccountPermission_def split: if_splits)

lemma admin_scope_required:
  assumes "requiredTokenPermission verb path = Some (m, t, res, Read)" "res \<in> project_resources"
    and "\<not> catalogue_path path" "path \<noteq> ''/api/v1/models''" "path \<noteq> ''/api/v1/model-configuration''"
  shows "adminProjectScope verb path = Some Required"
  using assms by (auto simp: adminProjectScope_def project_resources_def catalogue_path_def)

lemma models_paths_not_project:
  assumes "requiredTokenPermission verb path = Some (m, t, res, act)"
    "path = ''/api/v1/models'' \<or> path = ''/api/v1/model-configuration''"
  shows "res \<notin> project_resources"
proof -
  have "list_all (\<lambda>(m, t, res, act). template_matches t ''/api/v1/models'' \<or> template_matches t ''/api/v1/model-configuration''
      \<longrightarrow> res \<in> {Models, ModelConfiguration}) tokenRoutePermissions" by code_simp
  with assms requiredTokenPermission_Some [OF assms(1)] show ?thesis
    by (fastforce simp: list_all_iff project_resources_def)
qed

lemma admin_run:
  assumes run: "runAsActor projects req actor route = RunHandler a ctx r" "act_role actor = ''admin''"
    and perm: "requiredAccountPermission (req_method req) (req_path req) = Some (res, act)"
    and "hasPermission (Some ''admin'') res act" "res \<in> project_resources"
  shows "act = Read \<and> (catalogue_path (req_path req) \<or>
    (\<exists>p pdb. req_project req = Some p \<and> projects = Some pdb \<and> requireExists pdb p = Inr () \<and>
       ctx = ProjectScope p (Some (act_id a)) (Some Admin)))"
proof -
  have read: "act = Read" using assms(4,5) by (auto simp: hasPermission_admin project_resources_def)
  from perm assms(5) obtain t where
    t: "requiredTokenPermission (req_method req) (req_path req) = Some (req_method req, t, res, act)"
    by (auto simp: project_resources_def elim: account_permission_of_table)
  have "adminProjectScope (req_method req) (req_path req) = Some Required" if "\<not> catalogue_path (req_path req)"
    using admin_scope_required [OF t [unfolded read] assms(5) that] models_paths_not_project [OF t] assms(5) by blast
  with runAsActor_RunHandler [OF run(1)] run(2) read show ?thesis by auto
qed

text \<open>Claim C2. Administrators inspect Project resources but never change them: whenever a request
  of an administrator reaches its handler, by token or by session, and the route is classified as
  Guardrail, Policy, Playground, Router or Endpoint access, the access is a read; and unless the
  path is one of the five ownerless catalogues the handler runs under the authority of the one
  existing Project named by the X-Project-ID header.\<close>

theorem admin_only_reads_projects:
  assumes "authentication tokens projects req session = RunHandler a ctx route"
    and "act_role a = ''admin''"
    and "requiredAccountPermission (req_method req) (req_path req) = Some (res, act)"
    and "res \<in> project_resources"
  shows "act = Read \<and> (catalogue_path (req_path req) \<or>
    (\<exists>p pdb. req_project req = Some p \<and> projects = Some pdb \<and> requireExists pdb p = Inr () \<and>
       ctx = ProjectScope p (Some (act_id a)) (Some Admin)))"
proof (cases "req_authorization req")
  case None
  with assms(1) have "session_gate projects req session = RunHandler a ctx route"
    by (simp add: authentication_def)
  then show ?thesis
  proof (rule session_gate_RunHandler)
    fix s role p
    assume r: "account_role (as_role s) = Some role"
      "case requiredAccountPermission (req_method req) (req_path req) of
         Some (res, act) \<Rightarrow> hasPermission (as_role s) res act | None \<Rightarrow> accountRoute (req_path req)"
      and run: "runAsActor projects req
       \<lparr>act_id = as_userId s, act_role = the (as_role s), act_projectId = p\<rparr> None = RunHandler a ctx route"
    have "as_role s = Some ''admin''"
      using r(1) assms(2) runAsActor_RunHandler [OF run] by (auto simp: account_role_def split: if_splits)
    with admin_run [OF run _ assms(3)] r(2) assms(3,4) show ?thesis by simp
  qed
next
  case (Some header)
  with assms(1) have "token_gate tokens projects req header = RunHandler a ctx route"
    by (simp add: authentication_def)
  then show ?thesis
  proof (rule token_gate_RunHandler)
    fix secret auth i
    let ?route = "if req_method req \<in> {''GET'', ''HEAD''} then None
      else map_option (\<lambda>(_, template, _, _). template) (requiredTokenPermission (req_method req) (req_path req))"
    assume perm: "req_path req = ''/api/v1/account/identity'' \<and> req_method req = ''GET'' \<or>
      (\<exists>m t res acc res' act. requiredTokenPermission (req_method req) (req_path req) = Some (m, t, res, acc) \<and>
        requiredAccountPermission (req_method req) (req_path req) = Some (res', act) \<and>
        hasPermission (Some (ti_role i)) res' act \<and>
        allowsTokenPermission (ti_permissions i) res acc (ti_role i))"
      and run: "runAsActor projects req \<lparr>act_id = ti_id i, act_role = ti_role i,
        act_projectId = (if ti_role i = ''admin'' then None else ti_projectId i)\<rparr> ?route = RunHandler a ctx route"
    have role: "ti_role i = ''admin''" using assms(2) runAsActor_RunHandler [OF run] by auto
    have "requiredAccountPermission ''GET'' ''/api/v1/account/identity'' = None" by code_simp
    with perm assms(3) role have "hasPermission (Some ''admin'') res act" by auto
    with admin_run [OF run _ assms(3) _ assms(4)] role show ?thesis by simp
  qed
qed

theorem admin_only_reads_projects_witness:
  "\<exists>a. authentication None (Some example_projects)
      \<lparr>req_method = ''GET'', req_path = ''/api/v1/guardrails'', req_authorization = None,
       req_project = Some ''p1'', req_query_projectId = None\<rparr>
      (Some \<lparr>as_userId = ''root'', as_role = Some ''admin'', as_sessionId = None, as_activeProjectId = None\<rparr>) =
    RunHandler a (ProjectScope ''p1'' (Some ''root'') (Some Admin)) None"
proof -
  let ?req = "\<lparr>req_method = ''GET'', req_path = ''/api/v1/guardrails'', req_authorization = None,
       req_project = Some ''p1'', req_query_projectId = None\<rparr> :: request"
  let ?s = "Some \<lparr>as_userId = ''root'', as_role = Some ''admin'', as_sessionId = None, as_activeProjectId = None\<rparr>"
  let ?a = "\<lparr>act_id = ''root'', act_role = ''admin'', act_projectId = Some ''p1''\<rparr>"
  have run: "authentication None (Some example_projects) ?req ?s =
      RunHandler ?a (ProjectScope ''p1'' (Some ''root'') (Some Admin)) None" by code_simp
  have perm: "requiredAccountPermission (req_method ?req) (req_path ?req) = Some (Guardrails, Read)" by code_simp
  have "\<not> catalogue_path (req_path ?req)" by code_simp
  with admin_only_reads_projects [OF run _ perm] run show ?thesis
    by (auto simp: project_resources_def)
qed

end
