(* ===== verification/Traffic_Selector.thy ===== *)
theory Traffic_Selector
  imports Js_Prelude
begin

text \<open>
  Traffic Selectors (\<^verbatim>\<open>controller/shared/traffic-routing.ts\<close>, first half and the evaluation
  functions): the fields a selector may name, the schemas of conditions, expressions and routing
  input, the glob matcher and the evaluation of conditions and expressions.

  Values have the shapes of the TypeScript types, so the schemas are the bounds and
  normalisations they add to those. JSON objects are association lists with distinct keys.
  Strings are lists of Latin-1 code units, so a code point is one unit.
\<close>

section \<open>Data\<close>

datatype SelectorOperator =
    Equals | NotEquals | In | NotIn | Contains | StartsWith | Glob | Exists | NotExists

datatype RequestSource = EndpointRequest | BusinessRequest

datatype Combinator = And | Or

datatype SelectorValue = Single string | Several "string list"

record SelectorCondition =
  sc_field :: string
  sc_key :: "string option"
  sc_requestSource :: "RequestSource option"
  sc_operator :: SelectorOperator
  sc_value :: SelectorValue
  sc_caseSensitive :: "bool option"

datatype SelectorNode =
    Leaf SelectorCondition
  | Group Combinator "SelectorNode list"

type_synonym SelectorExpression = "Combinator \<times> SelectorNode list"

record RoutingInput =
  ri_endpointId :: string
  ri_fields :: "(string \<times> SelectorValue) list"
  ri_endpoint_request :: "(string \<times> string list) list option"
  ri_business_request :: "(string \<times> string list) list option"
  ri_extractionErrors :: "string list option"

datatype Cardinality = One | Many

record SelectorField =
  sf_id :: string
  sf_label :: string
  sf_group :: string
  sf_customKey :: bool
  sf_http :: bool
  sf_cardinality :: Cardinality

text \<open>\<open>RoutingEvaluationError\<close>, by its code.\<close>

datatype RoutingEvaluationError = RoutingInputError | SelectorExpressionError string

section \<open>Limits, header names and fields\<close>

definition maxDepth :: nat where "maxDepth = 3"
definition maxConditions :: nat where "maxConditions = 16"
definition maxFields :: nat where "maxFields = 128"
definition maxValues :: nat where "maxValues = 64"
definition maxValueLength :: nat where "maxValueLength = 2048"
definition maxInputCharacters :: nat where "maxInputCharacters = 65536"

lemmas routingLimits = maxDepth_def maxConditions_def maxFields_def maxValues_def maxValueLength_def
  maxInputCharacters_def

definition sensitiveHeaders :: "string list" where
  "sensitiveHeaders = [''authorization'', ''cookie'', ''proxy-authorization'', ''x-api-key'']"

text \<open>\<open>/^[!#$%&'*+.^_`|~0-9a-z-]+$/i\<close>\<close>

definition header_char :: "char \<Rightarrow> bool" where
  "header_char c = (let n = js_code c in
     (48 \<le> n \<and> n \<le> 57) \<or> (65 \<le> n \<and> n \<le> 90) \<or> (97 \<le> n \<and> n \<le> 122) \<or>
     n \<in> set [33, 35, 36, 37, 38, 39, 42, 43, 45, 46, 94, 95, 96, 124, 126])"

definition headerName :: "string \<Rightarrow> bool" where
  "headerName s = (s \<noteq> [] \<and> list_all header_char s)"

definition safeKey :: "string \<Rightarrow> bool" where
  "safeKey k = (1 \<le> length k \<and> length k \<le> 160 \<and>
     k \<notin> set [''__proto__'', ''prototype'', ''constructor''])"

definition selectorFields :: "SelectorField list" where
  "selectorFields =
     map (\<lambda>i. \<lparr>sf_id = i, sf_label = i, sf_group = hd (js_split CHR ''.'' i), sf_customKey = False,
        sf_http = False, sf_cardinality = One\<rparr>)
       [''protocol'', ''endpoint.id'', ''auth.principal'', ''model'', ''output.sink'',
        ''output.content_type'', ''output.schema_id'', ''tool.name'', ''target.environment'',
        ''litellm.api_key_alias'', ''litellm.team_id'', ''litellm.user_id''] @
     map (\<lambda>i. \<lparr>sf_id = i, sf_label = i, sf_group = ''http'', sf_customKey = False, sf_http = True,
        sf_cardinality = One\<rparr>) [''http.method'', ''http.host'', ''http.path''] @
     [\<lparr>sf_id = ''http.header'', sf_label = ''HTTP Header'', sf_group = ''http'', sf_customKey = True,
        sf_http = True, sf_cardinality = Many\<rparr>,
      \<lparr>sf_id = ''auth.jwt_claim'', sf_label = ''JWT Claim'', sf_group = ''auth'', sf_customKey = True,
        sf_http = False, sf_cardinality = One\<rparr>,
      \<lparr>sf_id = ''adapter.field'', sf_label = ''Request attribute'', sf_group = ''request'',
        sf_customKey = True, sf_http = False, sf_cardinality = One\<rparr>]"

section \<open>Schemas\<close>

fun inputValue :: "SelectorValue \<Rightarrow> bool" where
  "inputValue (Single s) = (length s \<le> maxValueLength)"
| "inputValue (Several ss) = (length ss \<le> maxValues \<and> list_all (\<lambda>s. length s \<le> maxValueLength) ss)"

definition boundedRecord :: "('v \<Rightarrow> bool) \<Rightarrow> (string \<times> 'v) list \<Rightarrow> bool" where
  "boundedRecord ok r = (length r \<le> maxFields \<and> list_all (\<lambda>(k, v). safeKey k \<and> ok v) r)"

text \<open>The transform of \<open>requestInputSchema\<close>: headers that differ in case only are merged and
  credentials are dropped. The result is \<open>None\<close> when a name collects too many values.\<close>

fun normalize_headers ::
  "(string \<times> string list) list \<Rightarrow> (string \<times> string list) list \<Rightarrow> (string \<times> string list) list option" where
  "normalize_headers normalized [] = Some normalized"
| "normalize_headers normalized ((key, vals) # rest) =
     (let name = js_lower key in
      if name \<in> set sensitiveHeaders then normalize_headers normalized rest
      else let merged = (case map_of normalized name of None \<Rightarrow> [] | Some old \<Rightarrow> old) @ vals in
           if length merged > maxValues then None
           else normalize_headers (AList.update name merged normalized) rest)"

definition requestInputSchema :: "(string \<times> string list) list \<Rightarrow> (string \<times> string list) list option" where
  "requestInputSchema request =
     (if boundedRecord (\<lambda>vs. inputValue (Several vs)) request
         \<and> list_all (\<lambda>(k, _). k \<in> set ['':method'', '':host'', '':path''] \<or> headerName k) request
      then normalize_headers [] request else None)"

definition optional_schema :: "('a \<Rightarrow> 'b option) \<Rightarrow> 'a option \<Rightarrow> 'b option option" where
  "optional_schema schema v = (case v of None \<Rightarrow> Some None | Some x \<Rightarrow> map_option Some (schema x))"

fun value_size :: "SelectorValue \<Rightarrow> nat" where
  "value_size (Single s) = length s"
| "value_size (Several ss) = sum_list (map length ss)"

definition record_size :: "(string \<times> SelectorValue) list \<Rightarrow> nat" where
  "record_size r = sum_list (map (\<lambda>(k, v). length k + value_size v) r)"

definition headers_size :: "(string \<times> string list) list option \<Rightarrow> nat" where
  "headers_size r = (case r of None \<Rightarrow> 0 | Some h \<Rightarrow> record_size (map (\<lambda>(k, vs). (k, Several vs)) h))"

definition routingInputSchema :: "RoutingInput \<Rightarrow> RoutingInput option" where
  "routingInputSchema input =
     (if 1 \<le> length (ri_endpointId input) \<and> length (ri_endpointId input) \<le> 128
         \<and> boundedRecord inputValue (ri_fields input)
         \<and> (case ri_extractionErrors input of None \<Rightarrow> True
            | Some es \<Rightarrow> length es \<le> 16 \<and> list_all (\<lambda>e. 1 \<le> length e \<and> length e \<le> 256) es)
      then (case (optional_schema requestInputSchema (ri_endpoint_request input),
                  optional_schema requestInputSchema (ri_business_request input)) of
              (Some er, Some br) \<Rightarrow>
                (if length (ri_endpointId input) + record_size (ri_fields input) + headers_size er
                     + headers_size br > maxInputCharacters
                 then None
                 else Some (input\<lparr>ri_endpoint_request := er, ri_business_request := br\<rparr>))
            | _ \<Rightarrow> None)
      else None)"

definition selectorConditionSchema :: "SelectorCondition \<Rightarrow> SelectorCondition option" where
  "selectorConditionSchema c =
     (if 1 \<le> length (sc_field c) \<and> length (sc_field c) \<le> 160
         \<and> (case sc_key c of None \<Rightarrow> True | Some k \<Rightarrow> safeKey k) \<and> inputValue (sc_value c)
      then Some (c\<lparr>sc_key := (if sc_field c = ''http.header'' then map_option js_lower (sc_key c) else sc_key c),
                   sc_caseSensitive := Some (case sc_caseSensitive c of None \<Rightarrow> True | Some b \<Rightarrow> b)\<rparr>)
      else None)"

text \<open>\<open>expressionSchema depth\<close> for the groups at \<open>depth\<close>, the root being at depth 1: a group below
  \<open>maxDepth\<close> is rejected because the schema there admits conditions only.\<close>

fun expressionSchema :: "nat \<Rightarrow> SelectorNode \<Rightarrow> SelectorNode option" where
  "expressionSchema depth (Leaf c) = map_option Leaf (selectorConditionSchema c)"
| "expressionSchema depth (Group comb cs) =
     (if depth > maxDepth \<or> length cs > maxConditions then None
      else map_option (Group comb) (those (map (expressionSchema (depth + 1)) cs)))"

fun count_leaves :: "SelectorNode \<Rightarrow> nat" where
  "count_leaves (Leaf c) = 1"
| "count_leaves (Group comb cs) = sum_list (map count_leaves cs)"

definition selectorExpressionSchema :: "SelectorExpression \<Rightarrow> SelectorExpression option" where
  "selectorExpressionSchema e =
     (case expressionSchema 1 (Group (fst e) (snd e)) of
        Some (Group comb cs) \<Rightarrow>
          if count_leaves (Group comb cs) > maxConditions then None else Some (comb, cs)
      | _ \<Rightarrow> None)"

definition checkedInput :: "RoutingInput \<Rightarrow> RoutingEvaluationError + RoutingInput" where
  "checkedInput input = (case routingInputSchema input of
     None \<Rightarrow> Inl RoutingInputError
   | Some parsed \<Rightarrow> (case ri_extractionErrors parsed of
        Some (_ # _) \<Rightarrow> Inl RoutingInputError | _ \<Rightarrow> Inr parsed))"

text \<open>\<open>!c.key?.trim()\<close>\<close>

definition blank_key :: "string option \<Rightarrow> bool" where
  "blank_key k = (case k of None \<Rightarrow> True | Some s \<Rightarrow> js_trim s = [])"

definition key_text :: "string option \<Rightarrow> string" where
  "key_text k = (case k of None \<Rightarrow> [] | Some s \<Rightarrow> s)"

fun is_list_value :: "SelectorValue \<Rightarrow> bool" where
  "is_list_value (Single s) = False"
| "is_list_value (Several ss) = True"

fun empty_or_single :: "SelectorValue \<Rightarrow> bool" where
  "empty_or_single (Single s) = True"
| "empty_or_single (Several ss) = (ss = [])"

definition invalid_condition :: "SelectorCondition \<Rightarrow> bool" where
  "invalid_condition c = (case List.find (\<lambda>f. sf_id f = sc_field c) selectorFields of
     None \<Rightarrow> True
   | Some field \<Rightarrow>
       (sf_customKey field \<and> blank_key (sc_key c)) \<or> (\<not> sf_customKey field \<and> sc_key c \<noteq> None)
       \<or> (if sf_http field then sc_requestSource c = None else sc_requestSource c \<noteq> None)
       \<or> (sc_field c = ''http.header''
           \<and> (\<not> headerName (key_text (sc_key c)) \<or> the (sc_key c) \<in> set sensitiveHeaders))
       \<or> (if sc_operator c = In \<or> sc_operator c = NotIn then empty_or_single (sc_value c)
          else is_list_value (sc_value c)))"

text \<open>\<open>visit\<close> of \<open>checkedExpression\<close>: the first failing node in document order.\<close>

fun first_error :: "('a \<Rightarrow> 'e option) \<Rightarrow> 'a list \<Rightarrow> 'e option" where
  "first_error f [] = None"
| "first_error f (x # xs) = (case f x of Some e \<Rightarrow> Some e | None \<Rightarrow> first_error f xs)"

lemma first_error_cong [fundef_cong]:
  "xs = ys \<Longrightarrow> (\<And>x. x \<in> set ys \<Longrightarrow> f x = g x) \<Longrightarrow> first_error f xs = first_error g ys"
  by (induction ys arbitrary: xs) (auto split: option.splits)

lemma first_error_None: "first_error f xs = None \<longleftrightarrow> (\<forall>x\<in>set xs. f x = None)"
  by (induction xs) (auto split: option.splits)

fun visit_node :: "SelectorNode \<Rightarrow> RoutingEvaluationError option" where
  "visit_node (Leaf c) =
     (if invalid_condition c then Some (SelectorExpressionError (''Invalid condition for '' @ sc_field c)) else None)"
| "visit_node (Group comb cs) =
     (if cs = [] then Some (SelectorExpressionError ''Empty Selector group'') else first_error visit_node cs)"

definition checkedExpression ::
  "SelectorExpression \<Rightarrow> bool \<Rightarrow> RoutingEvaluationError + SelectorExpression" where
  "checkedExpression e allowEmpty = (case selectorExpressionSchema e of
     None \<Rightarrow> Inl (SelectorExpressionError ''Invalid Selector structure or limits'')
   | Some parsed \<Rightarrow>
       (if snd parsed = [] \<and> \<not> (allowEmpty \<and> fst parsed = And)
        then Inl (SelectorExpressionError ''Empty Selector group'')
        else (case first_error visit_node (snd parsed) of Some err \<Rightarrow> Inl err | None \<Rightarrow> Inr parsed)))"

section \<open>Glob patterns\<close>

text \<open>\<open>fold\<close>: ASCII letters only.\<close>

definition fold_case :: "string \<Rightarrow> string" where
  "fold_case = map (\<lambda>c. if 65 \<le> js_code c \<and> js_code c \<le> 90 then js_lower_char c else c)"

datatype glob_token = Star | AnyChar | Literal char

definition backslash :: char where "backslash = CHR 0x5C"

fun glob_tokens :: "glob_token list \<Rightarrow> string \<Rightarrow> glob_token list" where
  "glob_tokens tokens [] = tokens"
| "glob_tokens tokens (c # chars) =
     (if c = backslash
      then (case chars of [] \<Rightarrow> tokens @ [Literal backslash]
            | d # rest \<Rightarrow> glob_tokens (tokens @ [Literal d]) rest)
      else if c \<noteq> CHR ''*'' \<or> tokens = [] \<or> last tokens \<noteq> Star
      then glob_tokens (tokens @ [if c = CHR ''*'' then Star else if c = CHR ''?'' then AnyChar else Literal c]) chars
      else glob_tokens tokens chars)"

text \<open>The rows of the dynamic program: the entry \<open>j\<close> says that the first \<open>j\<close> tokens match the
  characters consumed so far.\<close>

definition glob_first_row :: "glob_token list \<Rightarrow> bool list" where
  "glob_first_row tokens =
     foldl (\<lambda>row j. row[j := (if tokens ! (j - 1) = Star then row ! (j - 1) else False)])
       ((replicate (length tokens + 1) False)[0 := True]) [1..<length tokens + 1]"

definition glob_next_row :: "glob_token list \<Rightarrow> bool list \<Rightarrow> char \<Rightarrow> bool list" where
  "glob_next_row tokens previous c =
     foldl (\<lambda>row j. row[j := (let token = tokens ! (j - 1) in
          if token = Star then row ! (j - 1) \<or> previous ! j
          else if token = AnyChar \<or> token = Literal c then previous ! (j - 1) else False)])
       (replicate (length tokens + 1) False) [1..<length tokens + 1]"

definition glob :: "string \<Rightarrow> string \<Rightarrow> bool" where
  "glob pattern actual =
     (let tokens = glob_tokens [] pattern
      in foldl (glob_next_row tokens) (glob_first_row tokens) actual ! length tokens)"

section \<open>Evaluation\<close>

datatype Reason = SourceUnavailable | Missing | Present | Matched | ValueMismatch

record ConditionEvaluation =
  ce_matched :: bool
  ce_reason :: Reason

definition request_headers :: "RoutingInput \<Rightarrow> RequestSource option \<Rightarrow> (string \<times> string list) list option" where
  "request_headers input src = (case src of
     Some EndpointRequest \<Rightarrow> ri_endpoint_request input
   | Some BusinessRequest \<Rightarrow> ri_business_request input
   | None \<Rightarrow> None)"

text \<open>The value a condition looks at: \<open>None\<close> when its HTTP source is unavailable, \<open>Some None\<close> when
  the value is absent or an empty list.\<close>

definition raw_value :: "SelectorCondition \<Rightarrow> RoutingInput \<Rightarrow> SelectorValue option option" where
  "raw_value c input =
     (let found =
        (if js_startsWith (sc_field c) ''http.''
         then map_option (\<lambda>source. map_option Several (map_of source
                (if sc_field c = ''http.header'' then js_lower (key_text (sc_key c)) else CHR '':'' # drop 5 (sc_field c))))
              (request_headers input (sc_requestSource c))
         else Some (if sc_field c = ''endpoint.id'' then Some (Single (ri_endpointId input))
           else map_of (ri_fields input)
             (if sc_field c = ''adapter.field'' then key_text (sc_key c)
              else if sc_field c = ''auth.jwt_claim'' then ''auth.jwt_claim.'' @ key_text (sc_key c)
              else sc_field c)))
      in map_option (\<lambda>raw. if raw = Some (Several []) then None else raw) found)"

fun value_list :: "SelectorValue \<Rightarrow> string list" where
  "value_list (Single s) = [s]"
| "value_list (Several ss) = ss"

definition positive :: "SelectorOperator \<Rightarrow> string list \<Rightarrow> string \<Rightarrow> bool" where
  "positive op expected v = (case op of
     Contains \<Rightarrow> js_includes v (hd expected)
   | StartsWith \<Rightarrow> js_startsWith v (hd expected)
   | Glob \<Rightarrow> glob (hd expected) v
   | _ \<Rightarrow> v \<in> set expected)"

definition conditionResult :: "SelectorCondition \<Rightarrow> RoutingInput \<Rightarrow> ConditionEvaluation" where
  "conditionResult c input = (case raw_value c input of
     None \<Rightarrow> \<lparr>ce_matched = False, ce_reason = SourceUnavailable\<rparr>
   | Some raw \<Rightarrow>
      (let presence = (if raw = None then Missing else Present) in
       if sc_operator c = Exists then \<lparr>ce_matched = (raw \<noteq> None), ce_reason = presence\<rparr>
       else if sc_operator c = NotExists then \<lparr>ce_matched = (raw = None), ce_reason = presence\<rparr>
       else (case raw of
          None \<Rightarrow> \<lparr>ce_matched = False, ce_reason = Missing\<rparr>
        | Some v \<Rightarrow>
           (let norm = (if sc_caseSensitive c = Some False then fold_case else (\<lambda>s. s));
                vals = map norm (value_list v);
                expected = map norm (value_list (sc_value c));
                m = (if sc_operator c = NotEquals \<or> sc_operator c = NotIn
                     then list_all (\<lambda>x. \<not> positive (sc_operator c) expected x) vals
                     else list_ex (positive (sc_operator c) expected) vals)
            in \<lparr>ce_matched = m, ce_reason = (if m then Matched else ValueMismatch)\<rparr>))))"

definition evaluateCondition ::
  "SelectorCondition \<Rightarrow> RoutingInput \<Rightarrow> RoutingEvaluationError + ConditionEvaluation" where
  "evaluateCondition c input = (case checkedExpression (And, [Leaf c]) False of
     Inl e \<Rightarrow> Inl e
   | Inr (_, Leaf c' # _) \<Rightarrow> (case checkedInput input of Inl e \<Rightarrow> Inl e | Inr i \<Rightarrow> Inr (conditionResult c' i))
   | Inr _ \<Rightarrow> Inl (SelectorExpressionError []))"

datatype EvaluationNode =
    LeafResult string "string option" "RequestSource option" ConditionEvaluation
  | GroupResult bool "EvaluationNode list"

fun node_matched :: "EvaluationNode \<Rightarrow> bool" where
  "node_matched (LeafResult f k s r) = ce_matched r"
| "node_matched (GroupResult m cs) = m"

definition combine :: "Combinator \<Rightarrow> EvaluationNode list \<Rightarrow> bool" where
  "combine comb children = (if comb = And then list_all node_matched children else list_ex node_matched children)"

fun selector_node :: "RoutingInput \<Rightarrow> SelectorNode \<Rightarrow> EvaluationNode" where
  "selector_node input (Leaf c) =
     LeafResult (sc_field c) (sc_key c) (sc_requestSource c) (conditionResult c input)"
| "selector_node input (Group comb cs) =
     (let children = map (selector_node input) cs in GroupResult (combine comb children) children)"

text \<open>The result of a selector: whether it matched, and its children.\<close>

definition selectorResult :: "SelectorExpression \<Rightarrow> RoutingInput \<Rightarrow> bool \<times> EvaluationNode list" where
  "selectorResult e input =
     (let children = map (selector_node input) (snd e) in (combine (fst e) children, children))"

definition evaluateSelector ::
  "SelectorExpression \<Rightarrow> RoutingInput \<Rightarrow> RoutingEvaluationError + bool \<times> EvaluationNode list" where
  "evaluateSelector e input = (case checkedExpression e False of
     Inl err \<Rightarrow> Inl err
   | Inr parsed \<Rightarrow> (case checkedInput input of Inl err \<Rightarrow> Inl err | Inr i \<Rightarrow> Inr (selectorResult parsed i)))"

section \<open>The glob language\<close>

text \<open>The reference reading of a pattern: every token stands for a piece of the text, and the
  pieces concatenate to it. \<open>plain_tokens\<close> reads a pattern without merging runs of stars.\<close>

fun plain_tokens :: "string \<Rightarrow> glob_token list" where
  "plain_tokens [] = []"
| "plain_tokens (c # chars) =
     (if c = backslash
      then (case chars of [] \<Rightarrow> [Literal backslash] | d # rest \<Rightarrow> Literal d # plain_tokens rest)
      else (if c = CHR ''*'' then Star else if c = CHR ''?'' then AnyChar else Literal c) # plain_tokens chars)"

fun piece :: "glob_token \<Rightarrow> string \<Rightarrow> bool" where
  "piece Star w = True"
| "piece AnyChar w = (length w = 1)"
| "piece (Literal c) w = (w = [c])"

definition glob_language :: "glob_token list \<Rightarrow> string \<Rightarrow> bool" where
  "glob_language ts s = (\<exists>ws. list_all2 piece ts ws \<and> concat ws = s)"

lemma glob_language_Nil [simp]: "glob_language [] s \<longleftrightarrow> s = []"
  by (auto simp: glob_language_def)

lemma glob_language_append:
  "glob_language (ts @ us) s \<longleftrightarrow> (\<exists>a b. s = a @ b \<and> glob_language ts a \<and> glob_language us b)"
  unfolding glob_language_def
  by (auto simp: list_all2_append1) (metis concat_append list_all2_appendI list_all2_lengthD)+

lemma glob_language_single [simp]: "glob_language [t] s \<longleftrightarrow> piece t s"
  by (auto simp: glob_language_def list_all2_Cons1 intro: exI [of _ "[s]"])

lemma glob_language_snoc:
  "glob_language (ts @ [t]) s \<longleftrightarrow> (\<exists>a b. s = a @ b \<and> glob_language ts a \<and> piece t b)"
  by (simp add: glob_language_append)

lemma glob_language_snoc_Nil: "glob_language (ts @ [t]) [] \<longleftrightarrow> t = Star \<and> glob_language ts []"
  by (cases t) (auto simp: glob_language_snoc)

lemma glob_language_snoc_Star:
  "glob_language (ts @ [Star]) (s @ [c]) \<longleftrightarrow>
     glob_language ts (s @ [c]) \<or> glob_language (ts @ [Star]) s"
proof -
  have "(\<exists>a b. s @ [c] = a @ b \<and> glob_language ts a) \<longleftrightarrow>
      glob_language ts (s @ [c]) \<or> (\<exists>a b. s = a @ b \<and> glob_language ts a)" (is "?l \<longleftrightarrow> ?r")
  proof
    assume ?l
    then obtain a b where ab: "s @ [c] = a @ b" "glob_language ts a" by blast
    then show ?r by (cases b rule: rev_cases) auto
  next
    assume ?r
    then show ?l
    proof (elim disjE exE conjE)
      assume "glob_language ts (s @ [c])"
      then show ?l by (intro exI [of _ "s @ [c]"] exI [of _ "[]"]) simp
    next
      fix a b assume "s = a @ b" "glob_language ts a"
      then show ?l by (intro exI [of _ a] exI [of _ "b @ [c]"]) simp
    qed
  qed
  then show ?thesis by (simp add: glob_language_snoc)
qed

lemma glob_language_snoc_char:
  "t \<noteq> Star \<Longrightarrow> glob_language (ts @ [t]) (s @ [c]) \<longleftrightarrow> (t = AnyChar \<or> t = Literal c) \<and> glob_language ts s"
  by (cases t) (auto simp: glob_language_snoc length_Suc_conv)

text \<open>A row filled from left to right, each entry from its predecessor.\<close>

lemma fill_row:
  assumes "length init = n + 1" "init ! 0 = Q 0"
    and step: "\<And>row j. 1 \<le> j \<Longrightarrow> j \<le> n \<Longrightarrow> row ! (j - 1) = Q (j - 1) \<Longrightarrow> g row j = Q j"
  shows "\<forall>j\<le>n. foldl (\<lambda>row j. row[j := g row j]) init [1..<n + 1] ! j = Q j"
proof -
  have "length (foldl (\<lambda>row j. row[j := g row j]) init [1..<m + 1]) = n + 1 \<and>
     (\<forall>j\<le>m. foldl (\<lambda>row j. row[j := g row j]) init [1..<m + 1] ! j = Q j)" if "m \<le> n" for m
    using that
  proof (induction m)
    case 0
    then show ?case using assms by simp
  next
    case (Suc m)
    let ?r = "foldl (\<lambda>row j. row[j := g row j]) init [1..<m + 1]"
    have IH: "length ?r = n + 1" "\<forall>j\<le>m. ?r ! j = Q j" using Suc by simp_all
    then have "g ?r (Suc m) = Q (Suc m)" using step [of "Suc m" ?r] Suc.prems by simp
    with IH Suc.prems show ?case by (auto simp: nth_list_update le_Suc_eq)
  qed
  then show ?thesis by blast
qed

lemma take_last_token: "1 \<le> j \<Longrightarrow> j \<le> length ts \<Longrightarrow> take j ts = take (j - 1) ts @ [ts ! (j - 1)]"
  using take_Suc_conv_app_nth [of "j - 1" ts] by simp

lemma glob_first_row_correct:
  "\<forall>j\<le>length ts. glob_first_row ts ! j = glob_language (take j ts) []"
  unfolding glob_first_row_def
  by (rule fill_row) (simp_all add: take_last_token glob_language_snoc_Nil)

lemma glob_next_row_correct:
  assumes "\<forall>j\<le>length ts. row ! j = glob_language (take j ts) s"
  shows "\<forall>j\<le>length ts. glob_next_row ts row c ! j = glob_language (take j ts) (s @ [c])"
  unfolding glob_next_row_def
proof (rule fill_row)
  fix r j
  assume j: "1 \<le> j" "j \<le> length ts" and r: "r ! (j - 1) = glob_language (take (j - 1) ts) (s @ [c])"
  have "row ! j = glob_language (take (j - 1) ts @ [ts ! (j - 1)]) s"
    "row ! (j - 1) = glob_language (take (j - 1) ts) s"
    using assms j take_last_token [OF j] by simp_all
  with r j show "(let token = ts ! (j - 1) in if token = Star then r ! (j - 1) \<or> row ! j
       else if token = AnyChar \<or> token = Literal c then row ! (j - 1) else False) =
     glob_language (take j ts) (s @ [c])"
    by (cases "ts ! (j - 1) = Star")
      (simp_all add: Let_def take_last_token glob_language_snoc_Star glob_language_snoc_char)
qed simp_all

lemma glob_rows_correct:
  "\<forall>j\<le>length ts. foldl (glob_next_row ts) (glob_first_row ts) s ! j = glob_language (take j ts) s"
  by (induction s rule: rev_induct) (simp_all add: glob_first_row_correct glob_next_row_correct)

text \<open>Merging runs of stars does not change the language.\<close>

lemma glob_language_stars: "glob_language [Star, Star] s"
  using glob_language_append [of "[Star]" "[Star]" s] by auto

lemma glob_language_merge_stars:
  "glob_language (ts @ Star # us) s \<longleftrightarrow> glob_language (ts @ Star # Star # us) s"
  by (simp add: glob_language_append [of ts] glob_language_append [of "[Star]" us, simplified]
      glob_language_append [of "[Star, Star]" us, simplified] glob_language_stars)

lemma glob_tokens_language:
  "glob_language (glob_tokens acc pattern) s \<longleftrightarrow> glob_language (acc @ plain_tokens pattern) s"
proof (induction acc pattern arbitrary: s rule: glob_tokens.induct)
  case (2 acc c chars)
  consider (escape) "c = backslash" | (push) "c \<noteq> backslash" "c \<noteq> CHR ''*'' \<or> acc = [] \<or> last acc \<noteq> Star"
    | (merge) acc' where "c = CHR ''*''" "c \<noteq> backslash" "acc = acc' @ [Star]"
    by (cases acc rule: rev_cases) auto
  then show ?case
  proof cases
    case escape
    with 2(1) show ?thesis by (cases chars) simp_all
  next
    case push
    with 2(2) show ?thesis by simp
  next
    case merge
    with 2(3) have "glob_language (glob_tokens acc (c # chars)) s \<longleftrightarrow> glob_language (acc @ plain_tokens chars) s"
      by simp
    with merge show ?thesis using glob_language_merge_stars [of acc' "plain_tokens chars" s] by simp
  qed
qed simp

text \<open>Claim C28. The dynamic program of the glob matcher decides the language of its pattern: it
  accepts a text exactly when the text can be cut into one piece per token of the pattern, any
  piece for a star, one character for a question mark and the character itself for a literal or
  an escaped character.\<close>

theorem glob_decides_language: "glob pattern actual \<longleftrightarrow> glob_language (plain_tokens pattern) actual"
  using glob_rows_correct [of "glob_tokens [] pattern" actual] glob_tokens_language [of "[]" pattern actual]
  by (simp add: glob_def Let_def)

section \<open>Normalised requests\<close>

definition header_entries :: "string \<Rightarrow> (string \<times> string list) list \<Rightarrow> (string \<times> string list) list" where
  "header_entries name request = filter (\<lambda>(k, _). js_lower k = name) request"

text \<open>The values of a header over all its spellings, in order, if it occurs at all.\<close>

definition header_values :: "(string \<times> string list) list \<Rightarrow> string \<Rightarrow> string list option" where
  "header_values request name =
     (if header_entries name request = [] then None else Some (concat (map snd (header_entries name request))))"

lemma normalize_headers_lookup:
  assumes "normalize_headers acc request = Some r"
  shows "map_of r name =
    (if name \<in> set sensitiveHeaders \<or> header_entries name request = [] then map_of acc name
     else Some ((case map_of acc name of None \<Rightarrow> [] | Some old \<Rightarrow> old) @ concat (map snd (header_entries name request))))"
  using assms
proof (induction acc request rule: normalize_headers.induct)
  case (2 acc key vals rest)
  then show ?case
    by (cases "js_lower key = name")
      (auto simp: Let_def header_entries_def update_conv' split: if_splits option.splits)
qed (simp add: header_entries_def)

lemma set_update_subset: "set (AList.update k v al) \<subseteq> insert (k, v) (set al)"
  by (induction al) auto

lemma normalize_headers_invariant:
  assumes "normalize_headers acc request = Some r" "distinct (map fst acc)"
    and "\<forall>(k, vs)\<in>set acc. length vs \<le> maxValues"
  shows "distinct (map fst r) \<and> (\<forall>(k, vs)\<in>set r. length vs \<le> maxValues)"
  using assms
proof (induction acc request rule: normalize_headers.induct)
  case (2 acc key vals rest)
  define merged where "merged = (case map_of acc (js_lower key) of None \<Rightarrow> [] | Some old \<Rightarrow> old) @ vals"
  have upd: "\<forall>(k, vs)\<in>set (AList.update (js_lower key) merged acc). length vs \<le> maxValues"
    if "length merged \<le> maxValues"
    using 2(5) that set_update_subset [of "js_lower key" merged acc] by fast
  show ?case
  proof (cases "js_lower key \<in> set sensitiveHeaders")
    case True
    then show ?thesis using 2(1) 2(3-5) by simp
  next
    case False
    with 2(3) have "length merged \<le> maxValues"
      "normalize_headers (AList.update (js_lower key) merged acc) rest = Some r"
      by (simp_all add: Let_def merged_def not_less split: if_splits)
    then show ?thesis
      using 2(2) [OF refl False refl] 2(4) upd False by (simp add: merged_def distinct_update)
  qed
qed simp

lemma requestInputSchema_lookup:
  assumes "requestInputSchema request = Some r"
  shows "map_of r name = (if name \<in> set sensitiveHeaders then None else header_values request name)"
  using assms normalize_headers_lookup [of "[]" request r name]
  by (auto simp: requestInputSchema_def header_values_def split: if_splits)

lemma requestInputSchema_bounds:
  assumes "requestInputSchema request = Some r"
  shows "distinct (map fst r)" "list_all (\<lambda>(k, vs). length vs \<le> 64) r"
  using assms normalize_headers_invariant [of "[]" request r]
  by (auto simp: requestInputSchema_def list_all_iff routingLimits split: if_splits)

lemma checkedInput_Inr:
  assumes "checkedInput input = Inr i"
  shows "optional_schema requestInputSchema (ri_endpoint_request input) = Some (ri_endpoint_request i)"
    and "optional_schema requestInputSchema (ri_business_request input) = Some (ri_business_request i)"
    and "ri_endpointId i = ri_endpointId input" "ri_fields i = ri_fields input"
    and "ri_extractionErrors input = None \<or> ri_extractionErrors input = Some []"
  using assms
  by (auto simp: checkedInput_def routingInputSchema_def split: option.splits list.splits if_splits)

text \<open>The routing input a selector is evaluated on never carries credentials: when an
  input is accepted, each of its request sources holds, under every lower-case name that is not a
  credential header, exactly the values of all spellings of that header in order, and nothing
  under a credential name; names are unique and carry at most 64 values.\<close>

theorem accepted_input_headers:
  assumes "checkedInput input = Inr i"
    and "src = EndpointRequest \<and> request = ri_endpoint_request input \<or>
         src = BusinessRequest \<and> request = ri_business_request input"
  shows "(request_headers i (Some src) = None \<longleftrightarrow> request = None) \<and>
    (\<forall>hs rs name. request = Some hs \<longrightarrow> request_headers i (Some src) = Some rs \<longrightarrow>
      map_of rs name = (if name \<in> set sensitiveHeaders then None else header_values hs name) \<and>
      distinct (map fst rs) \<and> list_all (\<lambda>(k, vs). length vs \<le> 64) rs)"
proof -
  have "optional_schema requestInputSchema request = Some (request_headers i (Some src))"
    using assms checkedInput_Inr by (auto simp: request_headers_def)
  then show ?thesis
    by (cases "request_headers i (Some src)"; cases request)
      (auto simp: optional_schema_def requestInputSchema_lookup requestInputSchema_bounds)
qed

definition example_input :: RoutingInput where
  "example_input = \<lparr>ri_endpointId = ''ep-1'', ri_fields = [(''model'', Single ''gpt-5'')],
     ri_endpoint_request = Some [(''X-Team'', [''red'']), (''Authorization'', [''secret'']), (''x-team'', [''blue''])],
     ri_business_request = None, ri_extractionErrors = None\<rparr>"

definition example_checked :: RoutingInput where
  "example_checked = example_input\<lparr>ri_endpoint_request := Some [(''x-team'', [''red'', ''blue''])]\<rparr>"

lemma example_checkedInput: "checkedInput example_input = Inr example_checked"
  by code_simp

theorem accepted_input_headers_witness:
  "checkedInput example_input = Inr example_checked \<and>
   map_of [(''x-team'', [''red'', ''blue''])] ''x-team'' =
     header_values [(''X-Team'', [''red'']), (''Authorization'', [''secret'']), (''x-team'', [''blue''])] ''x-team''"
proof -
  have "map_of [(''x-team'', [''red'', ''blue''])] ''x-team'' =
     (if ''x-team'' \<in> set sensitiveHeaders then None else
      header_values [(''X-Team'', [''red'']), (''Authorization'', [''secret'']), (''x-team'', [''blue''])] ''x-team'')"
    using accepted_input_headers [OF example_checkedInput, of EndpointRequest "ri_endpoint_request example_input"]
    by (simp add: example_checked_def example_input_def request_headers_def del: map_of.simps)
  then show ?thesis by (simp add: example_checkedInput sensitiveHeaders_def)
qed

section \<open>What a condition means\<close>

definition negated :: "SelectorOperator \<Rightarrow> SelectorOperator" where
  "negated op = (case op of Equals \<Rightarrow> NotEquals | In \<Rightarrow> NotIn | Exists \<Rightarrow> NotExists | _ \<Rightarrow> op)"

lemma positive_negated: "positive (negated op) = positive op"
  by (auto simp: negated_def positive_def fun_eq_iff split: SelectorOperator.splits)

text \<open>A negated operator is the complement of its positive counterpart whenever the
  field's value is there; on a missing value only the two presence tests are complementary and the
  value tests both fail, and on an unavailable HTTP source nothing matches.\<close>

theorem negated_operator_complements:
  assumes "op \<in> {Equals, In, Exists}"
  shows "ce_matched (conditionResult (c\<lparr>sc_operator := negated op\<rparr>) i) =
    (case raw_value c i of
       None \<Rightarrow> False
     | Some None \<Rightarrow> op = Exists
     | Some (Some v) \<Rightarrow> \<not> ce_matched (conditionResult (c\<lparr>sc_operator := op\<rparr>) i)) \<and>
    (raw_value c i = None \<or> raw_value c i = Some None \<longrightarrow>
       \<not> ce_matched (conditionResult (c\<lparr>sc_operator := op\<rparr>) i))"
proof -
  have raw: "raw_value (c\<lparr>sc_operator := x\<rparr>) i = raw_value c i" for x
    by (simp add: raw_value_def)
  have neg: "negated op \<in> {NotEquals, NotIn, NotExists}" using assms by (auto simp: negated_def)
  show ?thesis
    using assms neg positive_negated [of op]
    by (auto simp: conditionResult_def raw Let_def list_all_iff list_ex_iff negated_def positive_def
        split: option.splits)
qed

definition example_condition :: SelectorCondition where
  "example_condition = \<lparr>sc_field = ''http.header'', sc_key = Some ''x-team'',
     sc_requestSource = Some EndpointRequest, sc_operator = In, sc_value = Several [''BLUE''],
     sc_caseSensitive = Some False\<rparr>"

theorem negated_operator_complements_witness:
  "ce_matched (conditionResult (example_condition\<lparr>sc_operator := In\<rparr>) example_checked) \<and>
   \<not> ce_matched (conditionResult (example_condition\<lparr>sc_operator := NotIn\<rparr>) example_checked)"
proof -
  have "raw_value example_condition example_checked = Some (Some (Several [''red'', ''blue'']))"
    "ce_matched (conditionResult (example_condition\<lparr>sc_operator := In\<rparr>) example_checked)"
    by code_simp+
  then show ?thesis
    using negated_operator_complements [of In example_condition example_checked] by (simp add: negated_def)
qed

end
