(* ===== verification/Traffic_Routing.thy ===== *)
theory Traffic_Routing
  imports Traffic_Selector
begin

text \<open>
  Traffic Routers (\<^verbatim>\<open>controller/shared/traffic-routing.ts\<close>, second half): the schema of a Router
  draft, the issues that keep a draft from being saved or published, the capabilities that the
  bound Endpoints supply, and the preview that shows which Route receives a request.

  The text of the messages that the schema library produces is not modelled: a draft the schema
  rejects has the one issue \<open>SchemaIssue\<close>. All other issues carry the source's message.
\<close>

section \<open>Drafts\<close>

record RouteTarget =
  tg_id :: string
  tg_guardrailId :: string
  tg_guardrailVersion :: string
  tg_weightBps :: int

datatype RouteKind = Normal | Fallback

record TrafficRoute =
  tr_id :: string
  tr_name :: string
  tr_kind :: RouteKind
  tr_enabled :: bool
  tr_expression :: SelectorExpression
  tr_targets :: "RouteTarget list"

type_synonym RouterDraft = "TrafficRoute list"

definition bounded_text :: "nat \<Rightarrow> string \<Rightarrow> bool" where
  "bounded_text n s = (1 \<le> length s \<and> length s \<le> n)"

definition targetSchema :: "RouteTarget \<Rightarrow> bool" where
  "targetSchema t = (bounded_text 128 (tg_id t) \<and> bounded_text 128 (tg_guardrailId t) \<and>
     length (tg_guardrailVersion t) \<le> 128 \<and> 0 \<le> tg_weightBps t \<and> tg_weightBps t \<le> 10000)"

definition routeSchema :: "TrafficRoute \<Rightarrow> TrafficRoute option" where
  "routeSchema r =
     (if bounded_text 128 (tr_id r) \<and> bounded_text 160 (js_trim (tr_name r))
         \<and> length (tr_targets r) \<le> 32 \<and> list_all targetSchema (tr_targets r)
      then map_option (\<lambda>e. r\<lparr>tr_name := js_trim (tr_name r), tr_expression := e\<rparr>)
             (selectorExpressionSchema (tr_expression r))
      else None)"

definition routerDraftSchema :: "RouterDraft \<Rightarrow> RouterDraft option" where
  "routerDraftSchema d = (if 1 \<le> length d \<and> length d \<le> 128 then those (map routeSchema d) else None)"

section \<open>Issues of a draft\<close>

datatype RoutingIssue = SchemaIssue | RouteIssue string

definition issue :: "bool \<Rightarrow> string \<Rightarrow> string \<Rightarrow> string list" where
  "issue b label message = (if b then [label @ '': '' @ message] else [])"

definition condition_issues :: "string \<Rightarrow> SelectorCondition \<Rightarrow> string list" where
  "condition_issues label c = (case List.find (\<lambda>f. sf_id f = sc_field c) selectorFields of
     None \<Rightarrow> [label @ '': unknown field '' @ sc_field c]
   | Some field \<Rightarrow>
       issue (sf_customKey field \<and> blank_key (sc_key c)) label ''field key is required'' @
       issue (\<not> sf_customKey field \<and> sc_key c \<noteq> None) label ''field does not accept a key'' @
       issue (\<not> sf_http field \<and> sc_requestSource c \<noteq> None) label
         ''field does not accept an HTTP request source'' @
       issue (sf_http field \<and> sc_requestSource c = None) label ''choose the HTTP request source'' @
       issue (sc_field c = ''http.header'' \<and> (\<not> headerName (key_text (sc_key c)) \<or>
           js_lower (key_text (sc_key c)) \<in> set sensitiveHeaders)) label ''invalid or credential Header'' @
       issue ((sc_operator c = In \<or> sc_operator c = NotIn) \<and> empty_or_single (sc_value c)) label
         ''enter a nonempty value list'' @
       issue (\<not> (sc_operator c = In \<or> sc_operator c = NotIn) \<and> is_list_value (sc_value c)) label
         ''this operator needs a single value'')"

text \<open>\<open>visit\<close> of \<open>routingIssues\<close>, for a group at the given depth.\<close>

fun visit_issues :: "bool \<Rightarrow> RouteKind \<Rightarrow> string \<Rightarrow> nat \<Rightarrow> SelectorNode \<Rightarrow> string list" where
  "visit_issues publish kind label depth (Leaf c) = condition_issues label c"
| "visit_issues publish kind label depth (Group comb cs) =
     issue (depth > 3) label ''maximum Selector depth is 3'' @
     issue (publish \<and> cs = [] \<and> kind \<noteq> Fallback) label ''empty condition group'' @
     concat (map (visit_issues publish kind label (depth + 1)) cs)"

fun target_issues ::
  "bool \<Rightarrow> string \<Rightarrow> string set \<Rightarrow> (string \<times> string) set \<Rightarrow> RouteTarget list \<Rightarrow> string list" where
  "target_issues publish label targetIds refs [] = []"
| "target_issues publish label targetIds refs (t # ts) =
     (let ref = (tg_guardrailId t, tg_guardrailVersion t) in
      issue (tg_id t \<in> targetIds) label ''duplicate Target ID'' @
      issue (ref \<in> refs) label ''duplicate Guardrail Version'' @
      issue (publish \<and> js_trim (tg_guardrailVersion t) = []) label ''pin a Guardrail Version'' @
      target_issues publish label (insert (tg_id t) targetIds) (insert ref refs) ts)"

definition total_weight :: "RouteTarget list \<Rightarrow> int" where
  "total_weight ts = sum_list (map tg_weightBps ts)"

text \<open>The issues of one Route. \<open>final\<close> says that it is the last one.\<close>

definition route_issues :: "bool \<Rightarrow> string set \<Rightarrow> bool \<Rightarrow> TrafficRoute \<Rightarrow> string list" where
  "route_issues publish ids final r =
     (let label = tr_name r; conditions = snd (tr_expression r); root = Group (fst (tr_expression r)) conditions in
      issue (tr_id r \<in> ids) label ''duplicate Route ID'' @
      (if tr_kind r = Fallback
       then issue (publish \<and> (length (tr_targets r) \<noteq> 1 \<or> tg_weightBps (hd (tr_targets r)) \<noteq> 10000)) label
              ''Fallback requires exactly one Target at 100%'' @
            issue (\<not> final \<or> \<not> tr_enabled r \<or> conditions \<noteq> [] \<or> fst (tr_expression r) \<noteq> And) label
              ''Fallback must be enabled, unconditional and last''
       else issue (publish \<and> conditions = []) label ''add a Traffic Selector'') @
      visit_issues publish (tr_kind r) label 1 root @
      issue (count_leaves root > 16) label ''maximum 16 conditions'' @
      target_issues publish label {} {} (tr_targets r) @
      issue (publish \<and> (tr_targets r = [] \<or> total_weight (tr_targets r) \<noteq> 10000)) label
        ''target percentages must total 100%'')"

fun routes_issues :: "bool \<Rightarrow> string set \<Rightarrow> TrafficRoute list \<Rightarrow> string list" where
  "routes_issues publish ids [] = []"
| "routes_issues publish ids (r # rs) =
     route_issues publish ids (rs = []) r @ routes_issues publish (insert (tr_id r) ids) rs"

definition routingIssues :: "RouterDraft \<Rightarrow> bool \<Rightarrow> RoutingIssue list" where
  "routingIssues draft publish = (case routerDraftSchema draft of
     None \<Rightarrow> [SchemaIssue]
   | Some routes \<Rightarrow> map RouteIssue (routes_issues publish {} routes @
       (if length (filter (\<lambda>r. tr_kind r = Fallback) routes) \<noteq> 1
        then [''Router requires exactly one Fallback Route''] else [])))"

section \<open>Capabilities of Endpoints\<close>

datatype Availability = FirstAssignment | OutputStage

record SelectorCapability =
  cap_field :: string
  cap_key :: "string option"
  cap_requestSource :: "RequestSource option"
  cap_availableAt :: Availability
  cap_cardinality :: Cardinality

record SelectorEndpoint =
  se_id :: string
  se_adapter :: string
  se_selectorCapabilities :: "SelectorCapability list option"

text \<open>\<open>toUpperCase\<close>: \<open>a\<close> to \<open>z\<close> and the lower-case letters 224 to 254, except the division
  sign 247. (The sharp s, the micro sign and y with diaeresis have no Latin-1 capital of one
  unit; they stay as they are, which no adapter name compared here can tell apart.)\<close>

definition js_upper :: "string \<Rightarrow> string" where
  "js_upper = map (\<lambda>c. let n = js_code c in
     if (97 \<le> n \<and> n \<le> 122) \<or> (224 \<le> n \<and> n \<le> 254 \<and> n \<noteq> 247) then char_of (n - 32) else c)"

definition first_assignment ::
  "string \<Rightarrow> string option \<Rightarrow> RequestSource option \<Rightarrow> Cardinality \<Rightarrow> SelectorCapability" where
  "first_assignment f k src cardinality = \<lparr>cap_field = f, cap_key = k, cap_requestSource = src,
     cap_availableAt = FirstAssignment, cap_cardinality = cardinality\<rparr>"

definition endpointSelectorCapabilities :: "SelectorEndpoint \<Rightarrow> SelectorCapability list" where
  "endpointSelectorCapabilities e = (case se_selectorCapabilities e of
     Some caps \<Rightarrow> caps
   | None \<Rightarrow>
      (let adapter = js_upper (se_adapter e) in
       if adapter = ''F5-SCAN'' \<or> adapter = ''SCAN''
       then map (\<lambda>f. first_assignment f None None One) [''protocol'', ''endpoint.id'', ''auth.principal''] @
            map (\<lambda>f. first_assignment (sf_id f) None (Some EndpointRequest) (sf_cardinality f))
              (filter sf_http selectorFields) @
            [first_assignment ''adapter.field'' (Some ''scan.direction'') None One]
       else if \<not> (adapter = ''LITELLM'' \<or> adapter = ''LITELLM-GENERIC-GUARDRAIL'') then []
       else concat (map (\<lambda>f.
              if sf_id f = ''adapter.field'' \<or> sf_id f = ''auth.jwt_claim'' \<or> js_startsWith (sf_id f) ''output.'' then []
              else if sf_http f
              then [first_assignment (sf_id f) None (Some EndpointRequest) (sf_cardinality f),
                    first_assignment (sf_id f) None (Some BusinessRequest) (sf_cardinality f)]
              else [first_assignment (sf_id f) None None (sf_cardinality f)]) selectorFields)))"

text \<open>The catalogue entry of a field: who supplies it, and which Endpoints do at first assignment.\<close>

record CatalogField =
  cf_field :: SelectorField
  cf_availability :: "(string \<times> SelectorCapability) list"
  cf_availableEndpoints :: "string list"

definition selectorFieldCatalog :: "SelectorEndpoint list \<Rightarrow> CatalogField list" where
  "selectorFieldCatalog es = map (\<lambda>f.
     \<lparr>cf_field = f,
      cf_availability = concat (map (\<lambda>e. map (Pair (se_id e))
         (filter (\<lambda>cap. cap_field cap = sf_id f) (endpointSelectorCapabilities e))) es),
      cf_availableEndpoints = map se_id (filter (\<lambda>e. list_ex (\<lambda>cap. cap_field cap = sf_id f
         \<and> cap_availableAt cap = FirstAssignment) (endpointSelectorCapabilities e)) es)\<rparr>) selectorFields"

definition selectableSelectorFields :: "SelectorEndpoint list \<Rightarrow> CatalogField list" where
  "selectableSelectorFields es =
     (let scope = (if es \<noteq> [] then es else
        map (\<lambda>a. \<lparr>se_id = a, se_adapter = a, se_selectorCapabilities = None\<rparr>)
          [''litellm-generic-guardrail'', ''f5-scan''])
      in filter (\<lambda>f. list_all (\<lambda>e. se_id e \<in> set (cf_availableEndpoints f)) scope) (selectorFieldCatalog scope))"

definition supports :: "SelectorCondition \<Rightarrow> SelectorCapability \<Rightarrow> bool" where
  "supports c cap = (cap_field cap = sc_field c \<and> cap_requestSource cap = sc_requestSource c \<and>
     cap_availableAt cap = FirstAssignment \<and>
     (if sc_field c = ''http.header''
      then cap_key cap = None \<or> map_option js_lower (cap_key cap) = sc_key c
      else cap_key cap = sc_key c))"

fun source_name :: "RequestSource \<Rightarrow> string" where
  "source_name EndpointRequest = ''endpoint_request''"
| "source_name BusinessRequest = ''business_request''"

definition unsupported_message :: "string \<Rightarrow> string \<Rightarrow> SelectorEndpoint \<Rightarrow> SelectorCondition \<Rightarrow> string" where
  "unsupported_message label location e c = label @ '': '' @ se_id e @ '' does not supply '' @ sc_field c @
     (case sc_key c of Some (k # ks) \<Rightarrow> '' ['' @ (k # ks) @ '']'' | _ \<Rightarrow> '''') @
     (case sc_requestSource c of Some src \<Rightarrow> '' from '' @ source_name src | None \<Rightarrow> '''') @
     '' at first_assignment ('' @ location @ '')''"

text \<open>\<open>visit\<close> of \<open>capabilityIssues\<close>, at a node with the given location.\<close>

function capability_visit :: "SelectorEndpoint list \<Rightarrow> string \<Rightarrow> string \<Rightarrow> SelectorNode \<Rightarrow> string list" where
  "capability_visit es label location (Leaf c) =
     concat (map (\<lambda>e. if list_ex (supports c) (endpointSelectorCapabilities e) then []
                     else [unsupported_message label location e c]) es)"
| "capability_visit es label location (Group comb cs) =
     concat (map (\<lambda>(i, n). capability_visit es label (location @ ''.conditions.'' @ digits i) n)
       (zip [0..<length cs] cs))"
  by pat_completeness auto
termination
  by (relation "measure (\<lambda>(_, _, _, n). size n)")
    (auto dest!: set_zip_rightD simp: less_Suc_eq_le intro: size_list_estimation')

definition capabilityIssues :: "RouterDraft \<Rightarrow> SelectorEndpoint list \<Rightarrow> RoutingIssue list" where
  "capabilityIssues draft es = (case routerDraftSchema draft of
     None \<Rightarrow> [SchemaIssue]
   | Some routes \<Rightarrow> map RouteIssue (js_unique (concat (map (\<lambda>r.
       capability_visit es (tr_name r) ''selector.expression''
         (Group (fst (tr_expression r)) (snd (tr_expression r)))) routes))))"

section \<open>Preview\<close>

datatype RowState = NotApplicable | NotEvaluated | Selected | NotMatched

record PreviewRow =
  pv_routeId :: string
  pv_independentMatch :: bool
  pv_received :: bool
  pv_blockedBy :: "string option"
  pv_state :: RowState
  pv_matched :: bool
  pv_children :: "EvaluationNode list"

definition route_result ::
  "TrafficRoute \<Rightarrow> RoutingInput \<Rightarrow> RoutingEvaluationError + bool \<times> EvaluationNode list" where
  "route_result r input =
     (if tr_enabled r
      then (case checkedExpression (tr_expression r) (tr_kind r = Fallback) of
              Inl e \<Rightarrow> Inl e | Inr parsed \<Rightarrow> Inr (selectorResult parsed input))
      else Inr (False, []))"

fun preview_rows ::
  "string option \<Rightarrow> TrafficRoute list \<Rightarrow> RoutingInput \<Rightarrow> RoutingEvaluationError + PreviewRow list" where
  "preview_rows selected [] input = Inr []"
| "preview_rows selected (r # rs) input =
     (case route_result r input of
        Inl e \<Rightarrow> Inl e
      | Inr (m, children) \<Rightarrow>
          (let independentMatch = (tr_enabled r \<and> m);
               blockedBy = (if tr_enabled r then selected else None);
               received = (independentMatch \<and> selected = None);
               row = \<lparr>pv_routeId = tr_id r, pv_independentMatch = independentMatch, pv_received = received,
                 pv_blockedBy = blockedBy,
                 pv_state = (if \<not> tr_enabled r then NotApplicable else if blockedBy \<noteq> None then NotEvaluated
                   else if received then Selected else NotMatched),
                 pv_matched = m, pv_children = children\<rparr>
           in (case preview_rows (if received then Some (tr_id r) else selected) rs input of
                 Inl e \<Rightarrow> Inl e | Inr rows \<Rightarrow> Inr (row # rows))))"

text \<open>The message of a draft with issues is their text joined by semicolons.\<close>

fun issue_text :: "RoutingIssue \<Rightarrow> string" where
  "issue_text SchemaIssue = ''schema''"
| "issue_text (RouteIssue s) = s"

definition previewRouter ::
  "RouterDraft \<Rightarrow> RoutingInput \<Rightarrow> RoutingEvaluationError + PreviewRow list" where
  "previewRouter draft input =
     (let issues = routingIssues draft False in
      if issues \<noteq> [] then Inl (SelectorExpressionError (js_join ''; '' (map issue_text issues)))
      else (case checkedInput input of
              Inl e \<Rightarrow> Inl e
            | Inr i \<Rightarrow> preview_rows None draft i))"

section \<open>Validity, declaratively\<close>

lemma those_Some: "those xs = Some ys \<longleftrightarrow> xs = map Some ys"
  by (induction xs arbitrary: ys) (auto split: option.splits simp: Cons_eq_map_conv)

lemma issue_Nil [simp]: "issue b label message = [] \<longleftrightarrow> \<not> b"
  by (simp add: issue_def)

text \<open>A condition as the schema returns it: the key of a header condition is in lower case.\<close>

definition normal_condition :: "SelectorCondition \<Rightarrow> bool" where
  "normal_condition c = (sc_field c = ''http.header'' \<longrightarrow> map_option js_lower (sc_key c) = sc_key c)"

lemma char_of_code: "js_code (char_of n) = n mod 256"
  by (simp add: js_code_def)

lemma js_lower_char_idem [simp]: "js_lower_char (js_lower_char c) = js_lower_char c"
  by (simp add: js_lower_char_def Let_def char_of_code)

lemma js_lower_idem [simp]: "js_lower (js_lower s) = js_lower s"
  by (simp add: js_lower_def)

lemma selectorConditionSchema_normal:
  "selectorConditionSchema c = Some c' \<Longrightarrow> normal_condition c'"
  by (auto simp: selectorConditionSchema_def normal_condition_def option.map_comp comp_def split: if_splits)

lemma condition_issues_Nil:
  "normal_condition c \<Longrightarrow> condition_issues label c = [] \<longleftrightarrow> \<not> invalid_condition c"
  by (cases "sc_key c")
    (auto simp: condition_issues_def invalid_condition_def normal_condition_def key_text_def
      headerName_def split: option.splits)

text \<open>Every condition of the tree is valid, and, when \<open>strict\<close>, no group is empty.\<close>

fun node_valid :: "bool \<Rightarrow> SelectorNode \<Rightarrow> bool" where
  "node_valid strict (Leaf c) = (\<not> invalid_condition c)"
| "node_valid strict (Group comb cs) = ((strict \<longrightarrow> cs \<noteq> []) \<and> list_all (node_valid strict) cs)"

lemma visit_node_None: "visit_node n = None \<longleftrightarrow> node_valid True n"
  by (induction n) (auto simp: first_error_None list_all_iff)

lemma node_valid_mono: "node_valid True n \<Longrightarrow> node_valid strict n"
  by (induction n) (auto simp: list_all_iff)

lemma visit_issues_Nil:
  "expressionSchema depth n = Some m \<Longrightarrow>
   visit_issues publish kind label depth m = [] \<longleftrightarrow> node_valid (publish \<and> kind \<noteq> Fallback) m"
proof (induction depth n arbitrary: m rule: expressionSchema.induct)
  case (1 depth c)
  then show ?case by (auto simp: condition_issues_Nil dest: selectorConditionSchema_normal)
next
  case (2 depth comb cs)
  then obtain ms where m: "m = Group comb ms" and ms: "map (expressionSchema (depth + 1)) cs = map Some ms"
    and d: "depth \<le> 3"
    by (auto simp: those_Some routingLimits split: if_splits)
  have "visit_issues publish kind label (depth + 1) x = [] \<longleftrightarrow> node_valid (publish \<and> kind \<noteq> Fallback) x"
    if "x \<in> set ms" for x
  proof -
    from that have "Some x \<in> set (map (expressionSchema (depth + 1)) cs)" using ms by simp
    then obtain c where "c \<in> set cs" "expressionSchema (depth + 1) c = Some x" by auto
    with 2 m show ?thesis by (auto split: if_splits)
  qed
  then show ?case using m d by (auto simp: list_all_iff)
qed

lemma selectorExpressionSchema_Some:
  assumes "selectorExpressionSchema e = Some p"
  shows "expressionSchema 1 (Group (fst e) (snd e)) = Some (Group (fst p) (snd p))"
    and "count_leaves (Group (fst p) (snd p)) \<le> 16" "fst p = fst e" "snd p = [] \<longleftrightarrow> snd e = []"
  using assms
  by (auto simp: selectorExpressionSchema_def those_Some routingLimits split: option.splits SelectorNode.splits if_splits)

definition targets_valid :: "bool \<Rightarrow> RouteTarget list \<Rightarrow> bool" where
  "targets_valid publish ts = (distinct (map tg_id ts) \<and>
     distinct (map (\<lambda>t. (tg_guardrailId t, tg_guardrailVersion t)) ts) \<and>
     (publish \<longrightarrow> ts \<noteq> [] \<and> total_weight ts = 10000 \<and> (\<forall>t\<in>set ts. js_trim (tg_guardrailVersion t) \<noteq> [])))"

lemma target_issues_Nil:
  "target_issues publish label ids refs ts = [] \<longleftrightarrow>
     distinct (map tg_id ts) \<and> ids \<inter> tg_id ` set ts = {} \<and>
     distinct (map (\<lambda>t. (tg_guardrailId t, tg_guardrailVersion t)) ts) \<and>
     refs \<inter> (\<lambda>t. (tg_guardrailId t, tg_guardrailVersion t)) ` set ts = {} \<and>
     (publish \<longrightarrow> (\<forall>t\<in>set ts. js_trim (tg_guardrailVersion t) \<noteq> []))"
  by (induction ts arbitrary: ids refs) (auto simp: Let_def)

text \<open>A normal Route, and the Fallback Route, of a valid draft.\<close>

definition normal_valid :: "bool \<Rightarrow> TrafficRoute \<Rightarrow> bool" where
  "normal_valid publish r = (tr_kind r = Normal \<and>
     node_valid publish (Group (fst (tr_expression r)) (snd (tr_expression r))) \<and>
     targets_valid publish (tr_targets r))"

definition fallback_valid :: "bool \<Rightarrow> TrafficRoute \<Rightarrow> bool" where
  "fallback_valid publish r = (tr_kind r = Fallback \<and> tr_enabled r \<and> tr_expression r = (And, []) \<and>
     targets_valid publish (tr_targets r) \<and> (publish \<longrightarrow> length (tr_targets r) = 1))"

definition draft_valid :: "bool \<Rightarrow> RouterDraft \<Rightarrow> bool" where
  "draft_valid publish routes = (\<exists>normals fallback. routes = normals @ [fallback] \<and>
     distinct (map tr_id routes) \<and> list_all (normal_valid publish) normals \<and> fallback_valid publish fallback)"

lemma routeSchema_Some:
  assumes "routeSchema r0 = Some r"
  shows "selectorExpressionSchema (tr_expression r0) = Some (tr_expression r)"
    and "tr_id r = tr_id r0" "tr_kind r = tr_kind r0" "tr_enabled r = tr_enabled r0" "tr_targets r = tr_targets r0"
  using assms by (auto simp: routeSchema_def split: if_splits)

lemma route_issues_Nil:
  assumes "routeSchema r0 = Some r"
  shows "route_issues publish ids final r = [] \<longleftrightarrow> tr_id r \<notin> ids \<and>
    (if tr_kind r = Fallback then final \<and> fallback_valid publish r else normal_valid publish r)"
proof -
  note schema = selectorExpressionSchema_Some [OF routeSchema_Some(1) [OF assms]]
  have visit: "visit_issues publish (tr_kind r) (tr_name r) 1 (Group (fst (tr_expression r)) (snd (tr_expression r))) = []
      \<longleftrightarrow> node_valid (publish \<and> tr_kind r \<noteq> Fallback) (Group (fst (tr_expression r)) (snd (tr_expression r)))"
    by (rule visit_issues_Nil [OF schema(1)])
  have single: "length ts = 1 \<Longrightarrow> total_weight ts = tg_weightBps (hd ts)" for ts
    by (cases ts) (simp_all add: total_weight_def)
  show ?thesis
  proof (cases "tr_kind r")
    case Normal
    then show ?thesis
      using visit schema(2)
      by (auto simp: route_issues_def Let_def normal_valid_def targets_valid_def target_issues_Nil
          simp del: visit_issues.simps count_leaves.simps)
  next
    case Fallback
    then show ?thesis
      using visit schema(2) single [of "tr_targets r"]
      by (cases "tr_expression r")
        (auto simp: route_issues_def Let_def fallback_valid_def targets_valid_def target_issues_Nil
          simp del: visit_issues.simps count_leaves.simps)
  qed
qed

lemma routes_issues_Nil:
  assumes "\<forall>r\<in>set rs. \<exists>r0. routeSchema r0 = Some r"
  shows "routes_issues publish ids rs = [] \<longleftrightarrow>
    distinct (map tr_id rs) \<and> ids \<inter> tr_id ` set rs = {} \<and>
    (\<forall>r\<in>set (butlast rs). normal_valid publish r) \<and>
    (rs \<noteq> [] \<longrightarrow> normal_valid publish (last rs) \<or> fallback_valid publish (last rs))"
  using assms
proof (induction rs arbitrary: ids)
  case (Cons r rs)
  then obtain r0 where r0: "routeSchema r0 = Some r" by auto
  have "tr_kind r = Fallback \<Longrightarrow> \<not> normal_valid publish r" "tr_kind r \<noteq> Fallback \<Longrightarrow> \<not> fallback_valid publish r"
    by (auto simp: normal_valid_def fallback_valid_def)
  with Cons show ?case
    by (cases "rs = []") (auto simp: route_issues_Nil [OF r0])
qed simp

lemma draft_valid_alt:
  assumes "routes \<noteq> []"
  shows "draft_valid publish routes \<longleftrightarrow>
    distinct (map tr_id routes) \<and> (\<forall>r\<in>set (butlast routes). normal_valid publish r) \<and>
    (normal_valid publish (last routes) \<or> fallback_valid publish (last routes)) \<and>
    length (filter (\<lambda>r. tr_kind r = Fallback) routes) = 1"
proof -
  obtain ns f where routes: "routes = ns @ [f]" using assms by (cases routes rule: rev_cases) auto
  have none: "filter (\<lambda>r. tr_kind r = Fallback) ns = []" if "\<forall>r\<in>set ns. normal_valid publish r"
    using that by (auto simp: filter_empty_conv normal_valid_def)
  have kinds: "normal_valid publish f \<Longrightarrow> tr_kind f = Normal" "fallback_valid publish f \<Longrightarrow> tr_kind f = Fallback"
    by (simp_all add: normal_valid_def fallback_valid_def)
  show ?thesis
    using none kinds by (auto simp: draft_valid_def routes list_all_iff)
qed

lemma routerDraftSchema_Some:
  assumes "routerDraftSchema d = Some routes"
  shows "map routeSchema d = map Some routes" "routes \<noteq> []" "\<forall>r\<in>set routes. \<exists>r0. routeSchema r0 = Some r"
proof -
  show m: "map routeSchema d = map Some routes"
    using assms by (auto simp: routerDraftSchema_def those_Some split: if_splits)
  then show "routes \<noteq> []" using assms by (auto simp: routerDraftSchema_def split: if_splits)
  show "\<forall>r\<in>set routes. \<exists>r0. routeSchema r0 = Some r"
  proof
    fix r assume "r \<in> set routes"
    then have "Some r \<in> set (map routeSchema d)" by (simp add: m)
    then show "\<exists>r0. routeSchema r0 = Some r" by auto
  qed
qed

lemma routingIssues_Nil:
  "routingIssues draft publish = [] \<longleftrightarrow>
     (\<exists>routes. routerDraftSchema draft = Some routes \<and> draft_valid publish routes)"
proof (cases "routerDraftSchema draft")
  case (Some routes)
  note r = routerDraftSchema_Some [OF Some]
  show ?thesis
    using routes_issues_Nil [OF r(3)] r(2)
    by (auto simp: routingIssues_def Some draft_valid_alt [OF r(2)])
qed (simp add: routingIssues_def)

text \<open>Claim C27. The issue list of a Router draft is complete and exact: it is empty precisely
  when the schema accepts the draft and the Routes are normal Routes followed by one Fallback
  that is enabled and unconditional, with distinct Route IDs, valid conditions in every selector,
  distinct Target IDs and Guardrail Versions; to publish, moreover, no selector group is empty,
  every Target is pinned and the weights of each Route total 10000 basis points, the Fallback's
  on a single Target.\<close>

theorem routingIssues_exact:
  "routingIssues draft publish = [] \<longleftrightarrow>
     (\<exists>normals fallback. routerDraftSchema draft = Some (normals @ [fallback]) \<and>
        distinct (map tr_id (normals @ [fallback])) \<and>
        list_all (normal_valid publish) normals \<and> fallback_valid publish fallback)"
  by (auto simp: routingIssues_Nil draft_valid_def)

section \<open>Which Route receives a request\<close>

lemma checkedExpression_valid:
  assumes "selectorExpressionSchema e = Some p" "snd p \<noteq> [] \<or> allowEmpty \<and> fst p = And"
    and "list_all (node_valid True) (snd p)"
  shows "checkedExpression e allowEmpty = Inr p"
proof -
  have "first_error visit_node (snd p) = None"
    using assms(3) by (auto simp: first_error_None visit_node_None list_all_iff)
  then show ?thesis using assms(1,2) by (auto simp: checkedExpression_def)
qed

lemma published_route_result:
  assumes "routeSchema r0 = Some r" "normal_valid True r \<or> fallback_valid True r"
  shows "route_result r0 i =
    Inr (if tr_enabled r0 then selectorResult (tr_expression r) i else (False, []))"
proof -
  note r = routeSchema_Some [OF assms(1)]
  have "checkedExpression (tr_expression r0) (tr_kind r0 = Fallback) = Inr (tr_expression r)"
    using assms(2) r by (intro checkedExpression_valid) (auto simp: normal_valid_def fallback_valid_def)
  then show ?thesis by (simp add: route_result_def)
qed

lemma preview_rows_total:
  assumes "\<forall>r\<in>set rs. \<exists>m cs. route_result r i = Inr (m, cs)"
  shows "\<exists>rows. preview_rows selected rs i = Inr rows"
  using assms
proof (induction rs arbitrary: selected)
  case (Cons r rs)
  then obtain m cs where r: "route_result r i = Inr (m, cs)" by auto
  obtain rows where "preview_rows (if tr_enabled r \<and> m \<and> selected = None then Some (tr_id r) else selected) rs i = Inr rows"
    using Cons by fastforce
  then show ?case by (simp add: r Let_def)
qed simp

lemma preview_rows_first_match:
  assumes "preview_rows selected rs i = Inr rows"
  shows "map pv_routeId rows = map tr_id rs \<and>
    (\<forall>k<length rows. pv_received (rows ! k) \<longleftrightarrow>
       selected = None \<and> pv_independentMatch (rows ! k) \<and> (\<forall>j<k. \<not> pv_independentMatch (rows ! j))) \<and>
    (\<forall>k<length rows. pv_independentMatch (rows ! k) \<longleftrightarrow>
       tr_enabled (rs ! k) \<and> (\<exists>cs. route_result (rs ! k) i = Inr (True, cs)))"
  using assms
proof (induction rs arbitrary: selected rows)
  case (Cons r rs)
  then obtain m cs where r: "route_result r i = Inr (m, cs)" by (cases "route_result r i") auto
  define selected' where "selected' = (if tr_enabled r \<and> m \<and> selected = None then Some (tr_id r) else selected)"
  obtain row rest where rest: "preview_rows selected' rs i = Inr rest" and rows: "rows = row # rest"
    and row: "pv_routeId row = tr_id r" "pv_independentMatch row = (tr_enabled r \<and> m)"
      "pv_received row = (tr_enabled r \<and> m \<and> selected = None)"
    using Cons.prems by (auto simp: r Let_def selected'_def split: sum.splits)
  note IH = Cons.IH [OF rest]
  show ?case
  proof (intro conjI allI impI)
    show "map pv_routeId rows = map tr_id (r # rs)" using IH row rows by simp
  next
    fix k assume k: "k < length rows"
    show "pv_received (rows ! k) \<longleftrightarrow>
       selected = None \<and> pv_independentMatch (rows ! k) \<and> (\<forall>j<k. \<not> pv_independentMatch (rows ! j))"
      using IH k row by (cases k) (auto simp: rows selected'_def All_less_Suc2)
    show "pv_independentMatch (rows ! k) \<longleftrightarrow>
       tr_enabled ((r # rs) ! k) \<and> (\<exists>cs. route_result ((r # rs) ! k) i = Inr (True, cs))"
      using IH k row by (cases k) (auto simp: rows r)
  qed
qed simp

lemma preview_rows_published:
  assumes "routingIssues draft True = []"
  shows "\<exists>rows. preview_rows None draft i = Inr rows"
    and "\<exists>cs. tr_enabled (last draft) \<and> draft \<noteq> [] \<and> route_result (last draft) i = Inr (True, cs)"
    and "routingIssues draft False = []"
proof -
  obtain ns f where sch: "routerDraftSchema draft = Some (ns @ [f])"
    and dist: "distinct (map tr_id (ns @ [f]))"
    and ns: "list_all (normal_valid True) ns" and f: "fallback_valid True f"
    using assms by (auto simp: routingIssues_Nil draft_valid_def)
  then have m: "map routeSchema draft = map Some (ns @ [f])" by (auto dest: routerDraftSchema_Some(1))
  then obtain ds df where d: "draft = ds @ [df]" "map routeSchema ds = map Some ns" "routeSchema df = Some f"
    by (auto simp: map_eq_append_conv)
  have "\<exists>m cs. route_result r i = Inr (m, cs)" if "r \<in> set draft" for r
  proof -
    from that have "routeSchema r \<in> set (map Some (ns @ [f]))" by (metis m image_eqI list.set_map)
    then obtain r' where "routeSchema r = Some r'" "r' = f \<or> r' \<in> set ns" by auto
    then show ?thesis
      using published_route_result [of r r' i] ns f by (auto simp: list_all_iff prod_eq_iff)
  qed
  then show "\<exists>rows. preview_rows None draft i = Inr rows" by (intro preview_rows_total) blast
  show "\<exists>cs. tr_enabled (last draft) \<and> draft \<noteq> [] \<and> route_result (last draft) i = Inr (True, cs)"
    using published_route_result [OF d(3), of i] f d routeSchema_Some [OF d(3)]
    by (auto simp: fallback_valid_def selectorResult_def combine_def)
  have weaker: "targets_valid True ts \<Longrightarrow> targets_valid False ts" for ts by (simp add: targets_valid_def)
  have "list_all (normal_valid False) ns"
    using ns by (auto simp: list_all_iff normal_valid_def weaker intro: node_valid_mono)
  moreover have "fallback_valid False f" using f by (simp add: fallback_valid_def weaker)
  ultimately show "routingIssues draft False = []"
    using sch dist by (auto simp: routingIssues_Nil draft_valid_def)
qed

lemma publishable_selects_one:
  assumes "routingIssues draft True = []" "checkedInput input = Inr i"
  shows "\<exists>rows. previewRouter draft input = Inr rows \<and> length rows = length draft \<and>
    (\<exists>!k. k < length rows \<and> pv_received (rows ! k)) \<and>
    (\<forall>k<length rows. pv_routeId (rows ! k) = tr_id (draft ! k) \<and>
      (pv_received (rows ! k) \<longleftrightarrow>
        (tr_enabled (draft ! k) \<and> (\<exists>cs. route_result (draft ! k) i = Inr (True, cs))) \<and>
        (\<forall>j<k. \<not> (tr_enabled (draft ! j) \<and> (\<exists>cs. route_result (draft ! j) i = Inr (True, cs))))))"
proof -
  let ?hit = "\<lambda>k. tr_enabled (draft ! k) \<and> (\<exists>cs. route_result (draft ! k) i = Inr (True, cs))"
  obtain rows where rows: "preview_rows None draft i = Inr rows"
    using preview_rows_published(1) [OF assms(1)] by blast
  note fm = preview_rows_first_match [OF rows]
  have len: "length rows = length draft" using fm by (metis length_map)
  have ids: "pv_routeId (rows ! k) = tr_id (draft ! k)" if "k < length rows" for k
    using fm that len by (metis nth_map)
  have rec: "pv_received (rows ! k) \<longleftrightarrow> ?hit k \<and> (\<forall>j<k. \<not> ?hit j)" if "k < length rows" for k
    using fm that by auto
  have last: "?hit (length draft - 1)" "length draft - 1 < length rows"
    using preview_rows_published(2) [OF assms(1), of i] len by (auto simp: last_conv_nth)
  define k where "k = (LEAST k. ?hit k)"
  have k: "?hit k" "\<And>j. j < k \<Longrightarrow> \<not> ?hit j" "k < length rows"
    unfolding k_def using LeastI [of ?hit, OF last(1)] not_less_Least [of _ ?hit]
      le_less_trans [OF Least_le [of ?hit, OF last(1)] last(2)] by blast+
  then have "\<exists>!k. k < length rows \<and> pv_received (rows ! k)"
    using rec by (intro ex1I [of _ k]) (auto simp: not_less_iff_gr_or_eq, metis linorder_neqE_nat)
  moreover have "previewRouter draft input = Inr rows"
    using preview_rows_published(3) [OF assms(1)] assms(2) rows by (simp add: previewRouter_def)
  ultimately show ?thesis using len ids rec by blast
qed

text \<open>Routing is total and first-match: previewing a publishable Router on any accepted
  input never fails, and exactly one Route receives the request: the first enabled Route, in
  the order of the draft, whose selector matches the input.\<close>

theorem published_router_selects_one:
  assumes "routingIssues draft True = []" "checkedInput input = Inr i"
  shows "\<exists>rows. previewRouter draft input = Inr rows \<and> length rows = length draft \<and>
    (\<exists>!k. k < length rows \<and> pv_received (rows ! k)) \<and>
    (\<forall>k<length rows. pv_routeId (rows ! k) = tr_id (draft ! k) \<and>
      (pv_received (rows ! k) \<longleftrightarrow>
        (tr_enabled (draft ! k) \<and> (\<exists>cs. route_result (draft ! k) i = Inr (True, cs))) \<and>
        (\<forall>j<k. \<not> (tr_enabled (draft ! j) \<and> (\<exists>cs. route_result (draft ! j) i = Inr (True, cs))))))"
  using assms by (rule publishable_selects_one)

definition example_draft :: RouterDraft where
  "example_draft =
    [\<lparr>tr_id = ''r1'', tr_name = '' Blue team '', tr_kind = Normal, tr_enabled = True,
      tr_expression = (And, [Leaf (example_condition\<lparr>sc_key := Some ''X-Team''\<rparr>)]),
      tr_targets = [\<lparr>tg_id = ''t1'', tg_guardrailId = ''g1'', tg_guardrailVersion = ''v1'', tg_weightBps = 2500\<rparr>,
                    \<lparr>tg_id = ''t2'', tg_guardrailId = ''g1'', tg_guardrailVersion = ''v2'', tg_weightBps = 7500\<rparr>]\<rparr>,
     \<lparr>tr_id = ''r2'', tr_name = ''Fallback'', tr_kind = Fallback, tr_enabled = True,
      tr_expression = (And, []),
      tr_targets = [\<lparr>tg_id = ''t1'', tg_guardrailId = ''g1'', tg_guardrailVersion = ''v1'', tg_weightBps = 10000\<rparr>]\<rparr>]"

lemma example_draft_publishable: "routingIssues example_draft True = []"
  by code_simp

theorem published_router_selects_one_witness:
  "routingIssues example_draft True = [] \<and> checkedInput example_input = Inr example_checked \<and>
   (\<exists>rows. previewRouter example_draft example_input = Inr rows \<and>
      (\<exists>!k. k < length rows \<and> pv_received (rows ! k)))"
  using published_router_selects_one [OF example_draft_publishable example_checkedInput]
    example_draft_publishable example_checkedInput by blast

section \<open>What the Endpoints must supply\<close>

fun leaves :: "SelectorNode \<Rightarrow> SelectorCondition list" where
  "leaves (Leaf c) = [c]"
| "leaves (Group comb cs) = concat (map leaves cs)"

lemma capability_visit_Nil:
  "capability_visit es label location n = [] \<longleftrightarrow>
     (\<forall>c\<in>set (leaves n). \<forall>e\<in>set es. \<exists>cap\<in>set (endpointSelectorCapabilities e). supports c cap)"
proof (induction n arbitrary: location)
  case (Leaf c)
  show ?case by (induction es) (auto simp: list_ex_iff)
next
  case (Group comb cs)
  have "capability_visit es label location (Group comb cs) = [] \<longleftrightarrow>
      (\<forall>i<length cs. capability_visit es label (location @ ''.conditions.'' @ digits i) (cs ! i) = [])"
    by (simp add: all_set_conv_all_nth)
  also have "\<dots> \<longleftrightarrow> (\<forall>i<length cs. \<forall>c\<in>set (leaves (cs ! i)). \<forall>e\<in>set es.
      \<exists>cap\<in>set (endpointSelectorCapabilities e). supports c cap)"
    using Group.IH by simp
  also have "\<dots> \<longleftrightarrow> (\<forall>n\<in>set cs. \<forall>c\<in>set (leaves n). \<forall>e\<in>set es.
      \<exists>cap\<in>set (endpointSelectorCapabilities e). supports c cap)"
    by (simp add: all_set_conv_all_nth)
  finally show ?case by simp
qed

lemma js_unique_Nil [simp]: "js_unique xs = [] \<longleftrightarrow> xs = []"
  by (cases xs) auto

text \<open>The capability check is exact: there are no issues precisely when the schema
  accepts the draft and every Endpoint of the scope has, for every condition of every Route, a
  capability for its field, source and key at first assignment. With no Endpoint in scope there
  is nothing to satisfy.\<close>

theorem capabilityIssues_exact:
  "capabilityIssues draft es = [] \<longleftrightarrow>
     (\<exists>routes. routerDraftSchema draft = Some routes \<and>
        (\<forall>r\<in>set routes. \<forall>c\<in>set (leaves (Group (fst (tr_expression r)) (snd (tr_expression r)))).
          \<forall>e\<in>set es. \<exists>cap\<in>set (endpointSelectorCapabilities e). supports c cap))"
  by (auto simp: capabilityIssues_def capability_visit_Nil simp del: capability_visit.simps leaves.simps
      split: option.splits)

definition scan_endpoint :: SelectorEndpoint where
  "scan_endpoint = \<lparr>se_id = ''ep-1'', se_adapter = ''f5-scan'', se_selectorCapabilities = None\<rparr>"

lemma example_draft_supported: "capabilityIssues example_draft [scan_endpoint] = []"
  by code_simp

theorem capabilityIssues_exact_witness:
  "\<exists>routes. routerDraftSchema example_draft = Some routes \<and>
     (\<forall>r\<in>set routes. \<forall>c\<in>set (leaves (Group (fst (tr_expression r)) (snd (tr_expression r)))).
       \<exists>cap\<in>set (endpointSelectorCapabilities scan_endpoint). supports c cap)"
  using capabilityIssues_exact [of example_draft "[scan_endpoint]"] example_draft_supported by simp

text \<open>The condition schema is not idempotent: it accepts a header condition whose key is
  a capitalised reserved name, turns the key into lower case, and rejects its own result.\<close>

theorem condition_schema_not_idempotent:
  "let c = example_condition\<lparr>sc_key := Some ''Constructor''\<rparr>;
       c' = c\<lparr>sc_key := Some ''constructor''\<rparr>
   in selectorConditionSchema c = Some c' \<and> \<not> invalid_condition c' \<and> selectorConditionSchema c' = None"
  by code_simp

end
