(* ===== verification/Work_Queue.thy ===== *)
theory Work_Queue
  imports Js_Prelude
begin

text \<open>
  Background work of the controller (\<^verbatim>\<open>controller/server/work-queue.ts\<close>): \<open>PendingWork\<close>, which
  waits for every accepted job, and \<open>KeyedWorkQueue\<close>, which runs at most one pass per key and a
  bounded number of passes at a time.

  Promises and the event loop become an explicit state and one step per event: a call of \<open>run\<close>,
  the microtask in which a scheduled pass reads the entry's task and calls it, and the settlement
  of that call, which runs \<open>finish\<close>. The field \<open>kq_passes\<close> holds the passes in flight: \<open>None\<close>
  for a pass that is scheduled, \<open>Some t\<close> for one that is executing the task \<open>t\<close>. Promises are
  numbered in the order of their creation, and \<open>kq_settled\<close> records how they settled.
\<close>

section \<open>Pending work\<close>

text \<open>The jobs being tracked, and the snapshot a running \<open>drain\<close> awaits.\<close>

record 'j pending_work =
  pw_jobs :: "'j set"
  pw_awaited :: "'j set option"
  pw_drained :: bool

definition track :: "'j \<Rightarrow> 'j pending_work \<Rightarrow> 'j pending_work" where
  "track j w = w\<lparr>pw_jobs := insert j (pw_jobs w)\<rparr>"

text \<open>A job settles, successfully or not: its reaction removes it.\<close>

definition settle_job :: "'j \<Rightarrow> 'j pending_work \<Rightarrow> 'j pending_work" where
  "settle_job j w = w\<lparr>pw_jobs := pw_jobs w - {j}\<rparr>"

text \<open>The test of the loop in \<open>drain\<close>: at its start, and whenever all awaited jobs have settled.\<close>

definition drain_test :: "'j pending_work \<Rightarrow> 'j pending_work" where
  "drain_test w = (if pw_jobs w = {} then w\<lparr>pw_awaited := None, pw_drained := True\<rparr>
     else w\<lparr>pw_awaited := Some (pw_jobs w)\<rparr>)"

lemma drain_returns_only_when_idle:
  "pw_drained (drain_test w) \<and> \<not> pw_drained w \<Longrightarrow> pw_jobs w = {}"
  "pw_awaited (drain_test w) = Some js \<Longrightarrow> pw_jobs w \<noteq> {} \<Longrightarrow> js = pw_jobs w"
  by (auto simp: drain_test_def split: if_splits)

section \<open>The keyed queue\<close>

record 't queue_entry =
  en_task :: 't
  en_running :: bool
  en_again :: bool
  en_promise :: nat

datatype settlement = Resolved | Rejected

record ('k, 't) keyed_queue =
  kq_entries :: "'k \<Rightarrow> 't queue_entry option"
  kq_queue :: "'k list"
  kq_active :: nat
  kq_concurrency :: nat
  kq_passes :: "'k \<Rightarrow> 't option option"
  kq_next :: nat
  kq_settled :: "(nat \<times> settlement) list"

definition new_queue :: "int \<Rightarrow> ('k, 't) keyed_queue option" where
  "new_queue concurrency = (if concurrency < 1 then None else
     Some \<lparr>kq_entries = (\<lambda>_. None), kq_queue = [], kq_active = 0, kq_concurrency = nat concurrency,
       kq_passes = (\<lambda>_. None), kq_next = 0, kq_settled = []\<rparr>)"

text \<open>One iteration of the loop of \<open>pump\<close>, for the key shifted off the queue.\<close>

definition start_pass :: "'k \<Rightarrow> 'k list \<Rightarrow> ('k, 't) keyed_queue \<Rightarrow> ('k, 't) keyed_queue" where
  "start_pass key rest q = q\<lparr>kq_queue := rest,
     kq_entries := (kq_entries q)(key := map_option (\<lambda>e. e\<lparr>en_running := True, en_again := False\<rparr>) (kq_entries q key)),
     kq_active := kq_active q + 1,
     kq_passes := (kq_passes q)(key := Some None)\<rparr>"

function pump :: "('k, 't) keyed_queue \<Rightarrow> ('k, 't) keyed_queue" where
  "pump q = (case kq_queue q of
     [] \<Rightarrow> q
   | key # rest \<Rightarrow> if kq_active q < kq_concurrency q then pump (start_pass key rest q) else q)"
  by pat_completeness auto
termination
  by (relation "measure (\<lambda>q. length (kq_queue q))") (auto simp: start_pass_def)

declare pump.simps [simp del]

text \<open>\<open>run\<close> returns the promise of the key's entry.\<close>

definition run_task :: "'k \<Rightarrow> 't \<Rightarrow> ('k, 't) keyed_queue \<Rightarrow> nat \<times> ('k, 't) keyed_queue" where
  "run_task key task q = (case kq_entries q key of
     Some found \<Rightarrow>
       (en_promise found,
        q\<lparr>kq_entries := (kq_entries q)(key := Some (found\<lparr>en_task := task,
            en_again := (if en_running found then True else en_again found)\<rparr>))\<rparr>)
   | None \<Rightarrow>
       (kq_next q,
        pump (q\<lparr>kq_entries := (kq_entries q)(key := Some \<lparr>en_task = task, en_running = False,
                  en_again = False, en_promise = kq_next q\<rparr>),
                kq_queue := kq_queue q @ [key], kq_next := kq_next q + 1\<rparr>)))"

text \<open>The microtask of a scheduled pass calls the task the entry has at that moment.\<close>

definition begin_pass :: "'k \<Rightarrow> ('k, 't) keyed_queue \<Rightarrow> ('k, 't) keyed_queue" where
  "begin_pass key q = q\<lparr>kq_passes := (kq_passes q)(key := Some (map_option en_task (kq_entries q key)))\<rparr>"

definition finish :: "'k \<Rightarrow> 't queue_entry \<Rightarrow> settlement \<Rightarrow> ('k, 't) keyed_queue \<Rightarrow> ('k, 't) keyed_queue" where
  "finish key entry outcome q =
     (let q1 = q\<lparr>kq_active := kq_active q - 1, kq_passes := (kq_passes q)(key := None)\<rparr>
      in pump (if en_again entry
         then q1\<lparr>kq_entries := (kq_entries q)(key := Some (entry\<lparr>en_running := False\<rparr>)),
                 kq_queue := kq_queue q @ [key]\<rparr>
         else q1\<lparr>kq_entries := (kq_entries q)(key := None),
                 kq_settled := kq_settled q @ [(en_promise entry, outcome)]\<rparr>))"

inductive queue_step :: "('k, 't) keyed_queue \<Rightarrow> ('k, 't) keyed_queue \<Rightarrow> bool" where
  step_run: "queue_step q (snd (run_task key task q))"
| step_begin: "kq_passes q key = Some None \<Longrightarrow> queue_step q (begin_pass key q)"
| step_finish: "kq_passes q key = Some (Some t) \<Longrightarrow> kq_entries q key = Some entry \<Longrightarrow>
    queue_step q (finish key entry outcome q)"

inductive_cases queue_stepE: "queue_step q q'"

section \<open>The invariant\<close>

text \<open>A key waits in the queue exactly when its entry is idle, a pass is in flight exactly when the
  entry runs, the passes are counted and bounded, and a pass that executes an older task than the
  entry's has been asked to go again.\<close>

definition running_keys :: "('k, 't) keyed_queue \<Rightarrow> 'k set" where
  "running_keys q = {k. kq_passes q k \<noteq> None}"

definition idle :: "('k, 't) keyed_queue \<Rightarrow> 'k \<Rightarrow> bool" where
  "idle q k = (case kq_entries q k of None \<Rightarrow> False | Some e \<Rightarrow> \<not> en_running e)"

definition busy :: "('k, 't) keyed_queue \<Rightarrow> 'k \<Rightarrow> bool" where
  "busy q k = (case kq_entries q k of None \<Rightarrow> False | Some e \<Rightarrow> en_running e)"

definition queue_core :: "('k, 't) keyed_queue \<Rightarrow> bool" where
  "queue_core q \<longleftrightarrow>
     distinct (kq_queue q) \<and>
     (\<forall>k. k \<in> set (kq_queue q) \<longleftrightarrow> idle q k) \<and>
     (\<forall>k. k \<in> running_keys q \<longleftrightarrow> busy q k) \<and>
     (\<forall>k t e. kq_passes q k = Some (Some t) \<longrightarrow> kq_entries q k = Some e \<longrightarrow> en_again e \<or> en_task e = t) \<and>
     finite (running_keys q) \<and> kq_active q = card (running_keys q) \<and>
     kq_active q \<le> kq_concurrency q \<and> 1 \<le> kq_concurrency q"

definition queue_pumped :: "('k, 't) keyed_queue \<Rightarrow> bool" where
  "queue_pumped q \<longleftrightarrow> kq_queue q = [] \<or> kq_active q = kq_concurrency q"

definition queue_inv :: "('k, 't) keyed_queue \<Rightarrow> bool" where
  "queue_inv q \<longleftrightarrow> queue_core q \<and> queue_pumped q"

lemma queue_coreI:
  assumes "distinct (kq_queue q)" "\<And>k. k \<in> set (kq_queue q) \<longleftrightarrow> idle q k"
    and "\<And>k. k \<in> running_keys q \<longleftrightarrow> busy q k"
    and "\<And>k t e. kq_passes q k = Some (Some t) \<Longrightarrow> kq_entries q k = Some e \<Longrightarrow> en_again e \<or> en_task e = t"
    and "finite (running_keys q)" "kq_active q = card (running_keys q)"
    and "kq_active q \<le> kq_concurrency q" "1 \<le> kq_concurrency q"
  shows "queue_core q"
  using assms by (simp add: queue_core_def)

lemma queue_coreD:
  assumes "queue_core q"
  shows "distinct (kq_queue q)" "k \<in> set (kq_queue q) \<longleftrightarrow> idle q k" "k \<in> running_keys q \<longleftrightarrow> busy q k"
    and "kq_passes q k = Some (Some t) \<Longrightarrow> kq_entries q k = Some e \<Longrightarrow> en_again e \<or> en_task e = t"
    and "finite (running_keys q)" "kq_active q = card (running_keys q)"
    and "kq_active q \<le> kq_concurrency q" "1 \<le> kq_concurrency q"
  using assms by (simp_all add: queue_core_def)

lemma start_pass_core:
  assumes "queue_core q" "kq_queue q = key # rest" "kq_active q < kq_concurrency q"
  shows "queue_core (start_pass key rest q)"
proof (rule queue_coreI)
  note core = queue_coreD [OF assms(1)]
  have "idle q key" using core(2) [of key] assms(2) by simp
  then obtain e where e: "kq_entries q key = Some e" "\<not> en_running e"
    by (auto simp: idle_def split: option.splits)
  have keys: "running_keys (start_pass key rest q) = insert key (running_keys q)"
    by (auto simp: running_keys_def start_pass_def)
  have new: "key \<notin> running_keys q" using core(3) [of key] e by (simp add: busy_def)
  show "distinct (kq_queue (start_pass key rest q))" using core(1) assms(2) by (simp add: start_pass_def)
  show "k \<in> set (kq_queue (start_pass key rest q)) \<longleftrightarrow> idle (start_pass key rest q) k" for k
    using core(1) core(2) [of k] assms(2) e by (auto simp: start_pass_def idle_def)
  show "k \<in> running_keys (start_pass key rest q) \<longleftrightarrow> busy (start_pass key rest q) k" for k
    using core(3) [of k] e keys by (auto simp: start_pass_def busy_def)
  show "en_again e' \<or> en_task e' = t" if "kq_passes (start_pass key rest q) k = Some (Some t)"
    "kq_entries (start_pass key rest q) k = Some e'" for k t e'
    using that core(4) [of k t e'] by (auto simp: start_pass_def split: if_splits)
  show "finite (running_keys (start_pass key rest q))"
    "kq_active (start_pass key rest q) = card (running_keys (start_pass key rest q))"
    using core(5,6) keys new by (simp_all add: start_pass_def)
  show "kq_active (start_pass key rest q) \<le> kq_concurrency (start_pass key rest q)"
    "1 \<le> kq_concurrency (start_pass key rest q)"
    using assms(3) core(8) by (simp_all add: start_pass_def)
qed

lemma pump_inv: "queue_core q \<Longrightarrow> queue_inv (pump q)"
proof (induction q rule: pump.induct)
  case (1 q)
  show ?case
  proof (cases "kq_queue q")
    case Nil
    with 1 show ?thesis by (simp add: pump.simps [of q] queue_inv_def queue_pumped_def)
  next
    case (Cons key rest)
    show ?thesis
    proof (cases "kq_active q < kq_concurrency q")
      case True
      with 1 Cons show ?thesis by (simp add: pump.simps [of q] start_pass_core)
    next
      case False
      with 1(2) Cons show ?thesis
        by (simp add: pump.simps [of q] queue_inv_def queue_pumped_def) (simp add: queue_core_def)
    qed
  qed
qed

lemma running_keys_cong: "kq_passes q' = kq_passes q \<Longrightarrow> running_keys q' = running_keys q"
  by (simp add: running_keys_def)

lemma run_task_inv:
  assumes "queue_inv q"
  shows "queue_inv (snd (run_task key task q))"
proof (cases "kq_entries q key")
  case None
  note core = queue_coreD [OF assms [unfolded queue_inv_def, THEN conjunct1]]
  define q1 where "q1 = q\<lparr>kq_entries := (kq_entries q)(key := Some \<lparr>en_task = task, en_running = False,
      en_again = False, en_promise = kq_next q\<rparr>), kq_queue := kq_queue q @ [key], kq_next := kq_next q + 1\<rparr>"
  have keys: "running_keys q1 = running_keys q" by (rule running_keys_cong) (simp add: q1_def)
  have "queue_core q1"
  proof (rule queue_coreI)
    show "distinct (kq_queue q1)" using core(1) core(2) [of key] None by (simp add: q1_def idle_def)
    show "k \<in> set (kq_queue q1) \<longleftrightarrow> idle q1 k" for k using core(2) [of k] None by (auto simp: q1_def idle_def)
    show "k \<in> running_keys q1 \<longleftrightarrow> busy q1 k" for k using core(3) [of k] keys None by (auto simp: q1_def busy_def)
    show "en_again e \<or> en_task e = t" if "kq_passes q1 k = Some (Some t)" "kq_entries q1 k = Some e" for k t e
      using that core(4) [of k t e] core(3) [of key] None
      by (auto simp: q1_def busy_def running_keys_def split: if_splits)
  qed (use core(5-8) keys in \<open>simp_all add: q1_def\<close>)
  moreover have "snd (run_task key task q) = pump q1" using None by (simp add: run_task_def q1_def)
  ultimately show ?thesis by (simp add: pump_inv)
next
  case (Some e)
  note core = queue_coreD [OF assms [unfolded queue_inv_def, THEN conjunct1]]
  define q1 where "q1 = snd (run_task key task q)"
  have q1: "q1 = q\<lparr>kq_entries := (kq_entries q)(key := Some (e\<lparr>en_task := task,
      en_again := (if en_running e then True else en_again e)\<rparr>))\<rparr>"
    by (simp add: q1_def run_task_def Some)
  have keys: "running_keys q1 = running_keys q" by (rule running_keys_cong) (simp add: q1)
  have "queue_core q1"
  proof (rule queue_coreI)
    show "k \<in> set (kq_queue q1) \<longleftrightarrow> idle q1 k" for k using core(2) [of k] Some by (auto simp: q1 idle_def)
    show "k \<in> running_keys q1 \<longleftrightarrow> busy q1 k" for k using core(3) [of k] keys Some by (auto simp: q1 busy_def)
    show "en_again e' \<or> en_task e' = t" if "kq_passes q1 k = Some (Some t)" "kq_entries q1 k = Some e'" for k t e'
      using that core(4) [of k t e'] core(3) [of key] Some
      by (auto simp: q1 busy_def running_keys_def split: if_splits)
  qed (use core(1,5-8) keys in \<open>simp_all add: q1\<close>)
  moreover have "queue_pumped q1" using assms by (simp add: queue_inv_def queue_pumped_def q1)
  ultimately show ?thesis by (simp add: queue_inv_def q1_def)
qed

lemma begin_pass_inv:
  assumes "queue_inv q" "kq_passes q key = Some None"
  shows "queue_inv (begin_pass key q)"
proof -
  note core = queue_coreD [OF assms(1) [unfolded queue_inv_def, THEN conjunct1]]
  have keys: "running_keys (begin_pass key q) = running_keys q"
    using assms(2) by (auto simp: running_keys_def begin_pass_def)
  have "queue_core (begin_pass key q)"
  proof (rule queue_coreI)
    show "k \<in> set (kq_queue (begin_pass key q)) \<longleftrightarrow> idle (begin_pass key q) k" for k
      using core(2) [of k] by (simp add: begin_pass_def idle_def)
    show "k \<in> running_keys (begin_pass key q) \<longleftrightarrow> busy (begin_pass key q) k" for k
      using core(3) [of k] keys by (simp add: begin_pass_def busy_def)
    show "en_again e \<or> en_task e = t" if "kq_passes (begin_pass key q) k = Some (Some t)"
      "kq_entries (begin_pass key q) k = Some e" for k t e
      using that core(4) [of k t e] by (auto simp: begin_pass_def split: if_splits)
  qed (use core(1,5-8) keys in \<open>simp_all add: begin_pass_def\<close>)
  then show ?thesis using assms(1) by (simp add: queue_inv_def queue_pumped_def begin_pass_def)
qed

lemma finish_inv:
  assumes "queue_inv q" "kq_passes q key = Some (Some t)" "kq_entries q key = Some entry"
  shows "queue_inv (finish key entry outcome q)"
proof -
  note core = queue_coreD [OF assms(1) [unfolded queue_inv_def, THEN conjunct1]]
  have run: "key \<in> running_keys q" using assms(2) by (simp add: running_keys_def)
  then have out: "key \<notin> set (kq_queue q)" using core(2) [of key] core(3) [of key] assms(3)
    by (simp add: idle_def busy_def)
  define q1 where "q1 = q\<lparr>kq_active := kq_active q - 1, kq_passes := (kq_passes q)(key := None)\<rparr>"
  define q2 where "q2 = (if en_again entry
     then q1\<lparr>kq_entries := (kq_entries q)(key := Some (entry\<lparr>en_running := False\<rparr>)), kq_queue := kq_queue q @ [key]\<rparr>
     else q1\<lparr>kq_entries := (kq_entries q)(key := None), kq_settled := kq_settled q @ [(en_promise entry, outcome)]\<rparr>)"
  have keys: "running_keys q2 = running_keys q - {key}"
    by (auto simp: running_keys_def q2_def q1_def)
  have "queue_core q2"
  proof (rule queue_coreI)
    show "distinct (kq_queue q2)" using core(1) out by (simp add: q2_def q1_def)
    show "k \<in> set (kq_queue q2) \<longleftrightarrow> idle q2 k" for k
      using core(2) [of k] out by (auto simp: q2_def q1_def idle_def)
    show "k \<in> running_keys q2 \<longleftrightarrow> busy q2 k" for k
      using core(3) [of k] keys by (auto simp: q2_def q1_def busy_def)
    show "en_again e \<or> en_task e = t'" if "kq_passes q2 k = Some (Some t')" "kq_entries q2 k = Some e" for k t' e
      using that core(4) [of k t' e] by (auto simp: q2_def q1_def split: if_splits)
    show "kq_active q2 = card (running_keys q2)"
      using core(5,6) run keys by (simp add: q2_def q1_def)
  qed (use core(5-8) keys in \<open>simp_all add: q2_def q1_def\<close>)
  moreover have "finish key entry outcome q = pump q2" by (simp add: finish_def Let_def q1_def q2_def)
  ultimately show ?thesis by (simp add: pump_inv)
qed

definition queue_init :: "('k, 't) keyed_queue \<Rightarrow> bool" where
  "queue_init q \<longleftrightarrow> (\<exists>c. new_queue c = Some q)"

interpretation keyed: invariant_system queue_init queue_step queue_inv
proof unfold_locales
  show "queue_init q \<Longrightarrow> queue_inv q" for q :: "('k, 't) keyed_queue"
    by (auto simp: queue_init_def new_queue_def queue_inv_def queue_core_def queue_pumped_def
        running_keys_def idle_def busy_def split: if_splits)
next
  fix q q' :: "('k, 't) keyed_queue"
  assume "queue_inv q" "queue_step q q'"
  then show "queue_inv q'"
    by (auto elim!: queue_stepE intro: run_task_inv begin_pass_inv finish_inv)
qed

section \<open>What the queue guarantees\<close>

lemma pump_starts_prefix:
  "running_keys (pump q) = running_keys q \<union> set (take (kq_concurrency q - kq_active q) (kq_queue q)) \<and>
   kq_queue (pump q) = drop (kq_concurrency q - kq_active q) (kq_queue q)"
proof (induction q rule: pump.induct)
  case (1 q)
  show ?case
  proof (cases "kq_queue q")
    case Nil
    then show ?thesis by (simp add: pump.simps [of q])
  next
    case (Cons key rest)
    show ?thesis
    proof (cases "kq_active q < kq_concurrency q")
      case True
      then obtain n where n: "kq_concurrency q - kq_active q = Suc n" by (metis Suc_diff_Suc)
      have "pump q = pump (start_pass key rest q)" using Cons True by (simp add: pump.simps [of q])
      moreover have "running_keys (start_pass key rest q) = insert key (running_keys q)"
        by (auto simp: running_keys_def start_pass_def)
      moreover have "kq_concurrency (start_pass key rest q) - kq_active (start_pass key rest q) = n"
        "kq_queue (start_pass key rest q) = rest"
        using n by (simp_all add: start_pass_def)
      ultimately show ?thesis using 1 [OF Cons True] Cons n by simp
    next
      case False
      then show ?thesis using Cons by (simp add: pump.simps [of q])
    qed
  qed
qed

lemma pump_entries:
  "kq_settled (pump q) = kq_settled q \<and>
   (\<forall>k. map_option en_task (kq_entries (pump q) k) = map_option en_task (kq_entries q k) \<and>
        map_option en_promise (kq_entries (pump q) k) = map_option en_promise (kq_entries q k))"
proof (induction q rule: pump.induct)
  case (1 q)
  have "kq_settled (start_pass key rest q) = kq_settled q \<and>
     (\<forall>k. map_option en_task (kq_entries (start_pass key rest q) k) = map_option en_task (kq_entries q k) \<and>
        map_option en_promise (kq_entries (start_pass key rest q) k) = map_option en_promise (kq_entries q k))" for key rest
    by (simp add: start_pass_def option.map_comp comp_def)
  with 1 show ?case by (auto simp: pump.simps [of q] split: list.splits)
qed

text \<open>Claim C31. In every run of the queue the number of passes in flight is the count it keeps and
  never exceeds the concurrency, no key has two passes or waits twice, a key waits only while it
  has no pass in flight, and no slot stays free while a key waits.\<close>

theorem queue_bounded_and_work_conserving:
  assumes "reach queue_init queue_step q"
  shows "kq_active q = card (running_keys q) \<and> card (running_keys q) \<le> kq_concurrency q \<and>
    distinct (kq_queue q) \<and> set (kq_queue q) \<inter> running_keys q = {} \<and>
    (kq_queue q \<noteq> [] \<longrightarrow> card (running_keys q) = kq_concurrency q)"
proof -
  have inv: "queue_inv q" by (rule keyed.reachable_inv [OF assms])
  note core = queue_coreD [OF inv [unfolded queue_inv_def, THEN conjunct1]]
  have "k \<notin> running_keys q" if "k \<in> set (kq_queue q)" for k
    using that core(2) [of k] core(3) [of k] by (auto simp: idle_def busy_def split: option.splits)
  then show ?thesis using inv core by (auto simp: queue_inv_def queue_pumped_def)
qed


text \<open>Claim C32. Busy keys cannot starve the rest: in a run of the queue, a key that waits at some
  position is, after any step, running or waiting no later than before, and the end of any pass
  brings it strictly forward.\<close>

theorem waiting_key_advances:
  assumes "reach queue_init queue_step q" "i < length (kq_queue q)"
  shows "(queue_step q q' \<longrightarrow> kq_queue q ! i \<in> running_keys q' \<or>
       (\<exists>j\<le>i. j < length (kq_queue q') \<and> kq_queue q' ! j = kq_queue q ! i)) \<and>
    (kq_passes q key = Some (Some t) \<and> kq_entries q key = Some entry \<longrightarrow>
       (let q' = finish key entry outcome q in kq_queue q ! i \<in> running_keys q' \<or>
         (\<exists>j<i. j < length (kq_queue q') \<and> kq_queue q' ! j = kq_queue q ! i)))"
proof -
  have inv: "queue_inv q" by (rule keyed.reachable_inv [OF assms(1)])
  note core = queue_coreD [OF inv [unfolded queue_inv_def, THEN conjunct1]]
  let ?k = "kq_queue q ! i"
  have full: "kq_active q = kq_concurrency q" using inv assms(2) by (auto simp: queue_inv_def queue_pumped_def)
  have fin: "?k \<in> running_keys q' \<or> (\<exists>j<i. j < length (kq_queue q') \<and> kq_queue q' ! j = ?k)"
    if "q' = finish key entry outcome q" for q' key entry outcome
  proof -
    define q1 where "q1 = q\<lparr>kq_active := kq_active q - 1, kq_passes := (kq_passes q)(key := None)\<rparr>"
    define q2 where "q2 = (if en_again entry
       then q1\<lparr>kq_entries := (kq_entries q)(key := Some (entry\<lparr>en_running := False\<rparr>)), kq_queue := kq_queue q @ [key]\<rparr>
       else q1\<lparr>kq_entries := (kq_entries q)(key := None), kq_settled := kq_settled q @ [(en_promise entry, outcome)]\<rparr>)"
    have q': "q' = pump q2" using that by (simp add: finish_def Let_def q1_def q2_def)
    have k: "?k = kq_queue q2 ! i" "i < length (kq_queue q2)"
      using assms(2) by (simp_all add: q2_def q1_def nth_append)
    have one: "kq_concurrency q2 - kq_active q2 = 1" using full core(8) by (simp add: q2_def q1_def)
    note p = pump_starts_prefix [of q2, unfolded one]
    show ?thesis
    proof (cases i)
      case 0
      then show ?thesis using p k q' by (cases "kq_queue q2") auto
    next
      case (Suc m)
      then show ?thesis using p k q' by (intro disjI2 exI [of _ m]) (auto simp: nth_tl)
    qed
  qed
  have "?k \<in> running_keys q' \<or> (\<exists>j\<le>i. j < length (kq_queue q') \<and> kq_queue q' ! j = ?k)" if "queue_step q q'"
    using that
  proof (cases rule: queue_step.cases)
    case (step_run key' task)
    have "kq_queue q' = kq_queue q \<or> kq_queue q' = kq_queue q @ [key']"
      using step_run full by (auto simp: run_task_def pump_starts_prefix [THEN conjunct2] split: option.splits)
    then show ?thesis using assms(2) by (intro disjI2 exI [of _ i]) (auto simp: nth_append)
  next
    case (step_begin key')
    then show ?thesis using assms(2) by (intro disjI2 exI [of _ i]) (simp add: begin_pass_def)
  next
    case (step_finish key' t' entry' outcome')
    then show ?thesis using fin [of q' key' entry' outcome'] by (meson less_imp_le)
  qed
  then show ?thesis using fin [OF refl, of key entry outcome] by (auto simp: Let_def)
qed

section \<open>A run\<close>

definition example_queue :: "(string, nat) keyed_queue" where
  "example_queue = snd (run_task ''a'' 2 (snd (run_task ''b'' 7 (begin_pass ''a''
     (snd (run_task ''a'' 1 (the (new_queue 1))))))))"

definition example_entry :: "nat queue_entry" where
  "example_entry = \<lparr>en_task = 2, en_running = True, en_again = True, en_promise = 0\<rparr>"

lemma example_queue_reachable: "reach queue_init queue_step example_queue"
proof -
  define q0 :: "(string, nat) keyed_queue" where "q0 = the (new_queue 1)"
  let ?reach = "reach queue_init queue_step"
  have run: "?reach q \<Longrightarrow> ?reach (snd (run_task k t q))" for q :: "(string, nat) keyed_queue" and k t
    by (rule reach_step [where s = q]) (auto intro: step_run)
  have "queue_init q0" by (auto simp: queue_init_def new_queue_def q0_def)
  then have 1: "?reach (snd (run_task ''a'' 1 q0))" by (intro run reach_init)
  have "kq_passes (snd (run_task ''a'' 1 q0)) ''a'' = Some None" unfolding q0_def by code_simp
  then have "queue_step (snd (run_task ''a'' 1 q0)) (begin_pass ''a'' (snd (run_task ''a'' 1 q0)))" by (rule step_begin)
  with 1 have "?reach (begin_pass ''a'' (snd (run_task ''a'' 1 q0)))" by (rule reach_step)
  then show ?thesis unfolding example_queue_def q0_def [symmetric] by (intro run)
qed

lemma example_queue_state:
  "kq_passes example_queue ''a'' = Some (Some 1)" "kq_entries example_queue ''a'' = Some example_entry"
  "kq_queue example_queue = [''b'']" "kq_concurrency example_queue = 1"
  by code_simp+

theorem queue_bounded_and_work_conserving_witness:
  "kq_queue example_queue = [''b''] \<and> card (running_keys example_queue) = 1"
  using queue_bounded_and_work_conserving [OF example_queue_reachable] example_queue_state by simp


theorem waiting_key_advances_witness:
  "''b'' \<in> running_keys (finish ''a'' example_entry Resolved example_queue)"
  using waiting_key_advances [OF example_queue_reachable, of 0 _ "''a''" 1 example_entry Resolved] example_queue_state
  by (simp add: Let_def)

end
