(* ===== verification/Budgets.thy ===== *)
theory Budgets
  imports Js_Prelude "HOL-Library.Multiset"
begin

text \<open>
  Admission budgets: concurrent telemetry uploads and their bounded bodies
  (\<^verbatim>\<open>controller/server/http/telemetry-upload-budget.ts\<close>) and report processing
  (\<^verbatim>\<open>controller/server/services/report-budget.ts\<close>).

  A permit is known by a number; the \<open>released\<close> flag that each release closure keeps is the
  permit's absence from the list of open permits. Waiting promises, timers and releases are steps.
\<close>

section \<open>Telemetry upload admission\<close>

record upload_admission =
  ua_inflight :: nat
  ua_pools :: "string \<Rightarrow> nat option"
  ua_capacity :: nat
  ua_perPool :: nat
  ua_open :: "(nat \<times> string) list"
  ua_next :: nat

definition new_admission :: "int \<Rightarrow> int \<Rightarrow> upload_admission option" where
  "new_admission capacity perPool = (if perPool < 1 \<or> capacity < perPool then None else
     Some \<lparr>ua_inflight = 0, ua_pools = (\<lambda>_. None), ua_capacity = nat capacity, ua_perPool = nat perPool,
       ua_open = [], ua_next = 0\<rparr>)"

definition pool_count :: "upload_admission \<Rightarrow> string \<Rightarrow> nat" where
  "pool_count s p = (case ua_pools s p of None \<Rightarrow> 0 | Some n \<Rightarrow> n)"

definition upload_unavailable :: thrown where
  "upload_unavailable = ControllerError ''Telemetry upload capacity is unavailable. Retry with the retained batch.''
     503 ''telemetry_upload_capacity_unavailable'' [(''retryAfterSeconds'', JNum 1)]"

definition acquire_upload :: "string \<Rightarrow> upload_admission \<Rightarrow> thrown + nat \<times> upload_admission" where
  "acquire_upload poolId s =
     (if ua_inflight s \<ge> ua_capacity s \<or> pool_count s poolId \<ge> ua_perPool s then Inl upload_unavailable
      else Inr (ua_next s, s\<lparr>ua_inflight := ua_inflight s + 1,
        ua_pools := (ua_pools s)(poolId := Some (pool_count s poolId + 1)),
        ua_open := (ua_next s, poolId) # ua_open s, ua_next := ua_next s + 1\<rparr>))"

definition release_upload :: "nat \<Rightarrow> upload_admission \<Rightarrow> upload_admission" where
  "release_upload permit s = (case map_of (ua_open s) permit of
     None \<Rightarrow> s
   | Some poolId \<Rightarrow>
       (let remaining = pool_count s poolId - 1 in
        s\<lparr>ua_inflight := ua_inflight s - 1,
          ua_pools := (ua_pools s)(poolId := (if remaining \<noteq> 0 then Some remaining else None)),
          ua_open := filter (\<lambda>(n, _). n \<noteq> permit) (ua_open s)\<rparr>))"

inductive upload_step :: "upload_admission \<Rightarrow> upload_admission \<Rightarrow> bool" where
  upload_acquire: "acquire_upload p s = Inr (n, t) \<Longrightarrow> upload_step s t"
| upload_release: "upload_step s (release_upload n s)"

inductive_cases upload_stepE: "upload_step s t"

section \<open>Bounded upload bodies\<close>

record read_limits =
  rl_maxBytes :: int
  rl_timeoutMs :: int
  rl_maxDepth :: int
  rl_maxStructuralTokens :: int

definition default_limits :: read_limits where
  "default_limits = \<lparr>rl_maxBytes = 8 * 1024 * 1024, rl_timeoutMs = 10000, rl_maxDepth = 64,
     rl_maxStructuralTokens = 100000\<rparr>"

definition limits_ok :: "read_limits \<Rightarrow> bool" where
  "limits_ok l = (let ok = (\<lambda>f. 1 \<le> f l \<and> f l \<le> f default_limits) in
     ok rl_maxBytes \<and> ok rl_timeoutMs \<and> ok rl_maxDepth \<and> ok rl_maxStructuralTokens)"

definition body_invalid :: thrown where
  "body_invalid = ControllerError ''Telemetry body must be valid UTF-8 JSON.'' 400 ''telemetry_body_invalid'' []"

definition body_too_large :: thrown where
  "body_too_large = ControllerError ''Telemetry body exceeds its byte or structure budget.'' 413 ''telemetry_batch_too_large'' []"

definition upload_timeout :: thrown where
  "upload_timeout = ControllerError ''Telemetry upload read deadline elapsed.'' 408 ''telemetry_upload_timeout'' []"

text \<open>What the reader sees: chunks of bytes, a value that is no byte array, the end of the stream,
  or the deadline winning the race.\<close>

datatype stream_event = Chunk "nat list" | NotBytes | Done | Deadline

text \<open>The buffer after the chunks; an event list that ends early has no more input to offer.\<close>

fun consume :: "int \<Rightarrow> nat list \<Rightarrow> stream_event list \<Rightarrow> thrown + nat list" where
  "consume maxBytes buffer [] = Inl upload_timeout"
| "consume maxBytes buffer (Done # es) = Inr buffer"
| "consume maxBytes buffer (Deadline # es) = Inl upload_timeout"
| "consume maxBytes buffer (NotBytes # es) = Inl body_invalid"
| "consume maxBytes buffer (Chunk bs # es) =
     (if int (length bs) > maxBytes - int (length buffer) then Inl body_too_large
      else consume maxBytes (buffer @ bs) es)"

text \<open>\<open>checkComplexity\<close>: strings are skipped, brackets and separators counted.\<close>

definition quote :: char where "quote = CHR 0x22"
definition escape :: char where "escape = CHR 0x5C"

definition opens :: "char \<Rightarrow> bool" where "opens c = (c = CHR ''{'' \<or> c = CHR ''['')"
definition closes :: "char \<Rightarrow> bool" where "closes c = (c = CHR ''}'' \<or> c = CHR '']'')"
definition separates :: "char \<Rightarrow> bool" where "separates c = (c = CHR '','' \<or> c = CHR '':'')"

record scan =
  scan_quoted :: bool
  scan_escaped :: bool
  scan_depth :: int
  scan_tokens :: int

definition scan_char :: "int \<Rightarrow> int \<Rightarrow> scan \<Rightarrow> char \<Rightarrow> thrown + scan" where
  "scan_char maxDepth maxTokens st c =
     (if scan_quoted st
      then Inr (if scan_escaped st then st\<lparr>scan_escaped := False\<rparr>
                else if c = escape then st\<lparr>scan_escaped := True\<rparr>
                else if c = quote then st\<lparr>scan_quoted := False\<rparr>
                else st)
      else if c = quote then Inr (st\<lparr>scan_quoted := True\<rparr>)
      else if opens c
      then (if scan_depth st + 1 > maxDepth \<or> scan_tokens st + 1 > maxTokens then Inl body_too_large
            else Inr (st\<lparr>scan_depth := scan_depth st + 1, scan_tokens := scan_tokens st + 1\<rparr>))
      else if closes c
      then (if scan_depth st - 1 < 0 then Inl body_invalid
            else if scan_tokens st + 1 > maxTokens then Inl body_too_large
            else Inr (st\<lparr>scan_depth := scan_depth st - 1, scan_tokens := scan_tokens st + 1\<rparr>))
      else if separates c
      then (if scan_tokens st + 1 > maxTokens then Inl body_too_large
            else Inr (st\<lparr>scan_tokens := scan_tokens st + 1\<rparr>))
      else Inr st)"

fun scan_text :: "int \<Rightarrow> int \<Rightarrow> scan \<Rightarrow> string \<Rightarrow> thrown + scan" where
  "scan_text maxDepth maxTokens st [] = Inr st"
| "scan_text maxDepth maxTokens st (c # cs) =
     and_then (scan_char maxDepth maxTokens st c) (\<lambda>st'. scan_text maxDepth maxTokens st' cs)"

definition checkComplexity :: "string \<Rightarrow> int \<Rightarrow> int \<Rightarrow> thrown + unit" where
  "checkComplexity text maxDepth maxTokens =
     and_then (scan_text maxDepth maxTokens
       \<lparr>scan_quoted = False, scan_escaped = False, scan_depth = 0, scan_tokens = 0\<rparr> text) (\<lambda>_. Inr ())"

text \<open>\<open>/^\d+$/\<close> and the number it denotes.\<close>

definition decimal_text :: "string \<Rightarrow> bool" where
  "decimal_text s = (s \<noteq> [] \<and> list_all (\<lambda>c. 48 \<le> js_code c \<and> js_code c \<le> 57) s)"

definition decimal_value :: "string \<Rightarrow> int" where
  "decimal_value s = foldl (\<lambda>n c. 10 * n + (int (js_code c) - 48)) 0 s"

text \<open>\<open>readBoundedTelemetryBody\<close>. The decoder is the platform's strict UTF-8 decoder; a missing
  body is \<open>None\<close>.\<close>

definition readBoundedTelemetryBody ::
  "(nat list \<Rightarrow> string option) \<Rightarrow> read_limits \<Rightarrow> string option \<Rightarrow> stream_event list option \<Rightarrow> thrown + string" where
  "readBoundedTelemetryBody decode limits declared body =
     (if \<not> limits_ok limits
      then Inl (JsError ''Telemetry body budgets must be positive integers within the server defaults.'')
      else if declared \<noteq> None \<and> \<not> decimal_text (the declared) then Inl body_invalid
      else if declared \<noteq> None \<and> decimal_value (the declared) > rl_maxBytes limits then Inl body_too_large
      else (case body of
          None \<Rightarrow> Inr []
        | Some events \<Rightarrow>
            and_then (consume (rl_maxBytes limits) [] events) (\<lambda>bytes.
              case decode bytes of
                None \<Rightarrow> Inl body_invalid
              | Some text \<Rightarrow>
                  and_then (checkComplexity text (rl_maxDepth limits) (rl_maxStructuralTokens limits))
                    (\<lambda>_. Inr text))))"

section \<open>Report processing\<close>

definition REPORT_TOTAL_BYTES :: int where "REPORT_TOTAL_BYTES = 128 * 1024 * 1024"

record report_budget =
  rb_active :: nat
  rb_bytes :: int
  rb_queue :: "(nat \<times> int) list"
  rb_concurrency :: nat
  rb_byteLimit :: int
  rb_maxQueue :: nat
  rb_open :: "(nat \<times> int) list"
  rb_next :: nat

definition new_budget :: "nat \<Rightarrow> int \<Rightarrow> nat \<Rightarrow> report_budget" where
  "new_budget concurrency byteLimit maxQueue = \<lparr>rb_active = 0, rb_bytes = 0, rb_queue = [],
     rb_concurrency = concurrency, rb_byteLimit = byteLimit, rb_maxQueue = maxQueue, rb_open = [], rb_next = 0\<rparr>"

definition report_busy :: thrown where
  "report_busy = ControllerError ''Report processing is busy. Retry shortly.'' 429 ''report_busy''
     [(''retryAfterSeconds'', JNum 2)]"

definition report_too_large :: thrown where
  "report_too_large = ControllerError ''Report exceeds its memory budget.'' 413 ''report_too_large'' []"

definition start_report :: "nat \<Rightarrow> int \<Rightarrow> report_budget \<Rightarrow> report_budget" where
  "start_report n b s = s\<lparr>rb_active := rb_active s + 1, rb_bytes := rb_bytes s + b, rb_open := (n, b) # rb_open s\<rparr>"

definition report_fits :: "int \<Rightarrow> report_budget \<Rightarrow> bool" where
  "report_fits b s = (rb_active s < rb_concurrency s \<and> rb_bytes s + b \<le> rb_byteLimit s)"

text \<open>The outcome of a call: admitted at once, waiting in the queue, or rejected.\<close>

datatype admission = Admitted nat | Waiting nat | Refused thrown

definition acquire_report :: "int \<Rightarrow> report_budget \<Rightarrow> admission \<times> report_budget" where
  "acquire_report b s =
     (if b < 0 \<or> b > rb_byteLimit s then (Refused report_too_large, s)
      else let n = rb_next s; s1 = s\<lparr>rb_next := n + 1\<rparr> in
        if rb_queue s = [] \<and> report_fits b s then (Admitted n, start_report n b s1)
        else if length (rb_queue s) \<ge> rb_maxQueue s then (Refused report_busy, s1)
        else (Waiting n, s1\<lparr>rb_queue := rb_queue s @ [(n, b)]\<rparr>))"

function pump_reports :: "report_budget \<Rightarrow> report_budget" where
  "pump_reports s = (case rb_queue s of
     [] \<Rightarrow> s
   | (n, b) # rest \<Rightarrow>
       if report_fits b s then pump_reports (start_report n b (s\<lparr>rb_queue := rest\<rparr>)) else s)"
  by pat_completeness auto
termination
  by (relation "measure (\<lambda>s. length (rb_queue s))") (auto simp: start_report_def)

declare pump_reports.simps [simp del]

text \<open>The timer of a waiting entry: it leaves the queue, its caller is told to retry.\<close>

definition timeout_report :: "nat \<Rightarrow> report_budget \<Rightarrow> report_budget" where
  "timeout_report n s = pump_reports (s\<lparr>rb_queue := filter (\<lambda>(m, _). m \<noteq> n) (rb_queue s)\<rparr>)"

definition release_report :: "nat \<Rightarrow> report_budget \<Rightarrow> report_budget" where
  "release_report n s = (case map_of (rb_open s) n of
     None \<Rightarrow> s
   | Some b \<Rightarrow> pump_reports (s\<lparr>rb_active := rb_active s - 1, rb_bytes := rb_bytes s - b,
       rb_open := filter (\<lambda>(m, _). m \<noteq> n) (rb_open s)\<rparr>))"

inductive report_step :: "report_budget \<Rightarrow> report_budget \<Rightarrow> bool" where
  report_acquire: "report_step s (snd (acquire_report b s))"
| report_timeout: "n \<in> fst ` set (rb_queue s) \<Longrightarrow> report_step s (timeout_report n s)"
| report_release: "report_step s (release_report n s)"

inductive_cases report_stepE: "report_step s t"

section \<open>Properties of upload admission\<close>

definition pool_permits :: "upload_admission \<Rightarrow> string \<Rightarrow> nat" where
  "pool_permits s p = length (filter (\<lambda>(_, q). q = p) (ua_open s))"

definition upload_inv :: "upload_admission \<Rightarrow> bool" where
  "upload_inv s \<longleftrightarrow> distinct (map fst (ua_open s)) \<and> (\<forall>(n, _)\<in>set (ua_open s). n < ua_next s) \<and>
     ua_inflight s = length (ua_open s) \<and> length (ua_open s) \<le> ua_capacity s \<and>
     (\<forall>p. ua_pools s p = (if pool_permits s p = 0 then None else Some (pool_permits s p))) \<and>
     (\<forall>p. pool_permits s p \<le> ua_perPool s)"

lemma upload_inv_count: "upload_inv s \<Longrightarrow> pool_count s p = pool_permits s p"
  by (auto simp: upload_inv_def pool_count_def)

lemma acquire_upload_inv:
  assumes "upload_inv s" "acquire_upload p s = Inr (n, t)"
  shows "upload_inv t"
proof -
  have t: "t = s\<lparr>ua_inflight := ua_inflight s + 1, ua_pools := (ua_pools s)(p := Some (pool_permits s p + 1)),
      ua_open := (ua_next s, p) # ua_open s, ua_next := ua_next s + 1\<rparr>"
    and room: "ua_inflight s < ua_capacity s" "pool_permits s p < ua_perPool s"
    using assms(2) upload_inv_count [OF assms(1)] by (auto simp: acquire_upload_def split: if_splits)
  have permits: "pool_permits t q = (if q = p then pool_permits s q + 1 else pool_permits s q)" for q
    by (simp add: pool_permits_def t)
  show ?thesis using assms(1) room unfolding upload_inv_def permits by (auto simp: t)
qed

lemma filter_other_key:
  assumes "distinct (map fst xs)" "map_of xs n = Some v"
  shows "length (filter P xs) = length (filter P (filter (\<lambda>(m, _). m \<noteq> n) xs)) + (if P (n, v) then 1 else 0)"
  using assms
proof (induction xs)
  case (Cons x xs)
  have "filter (\<lambda>(m, _). m \<noteq> n) xs = xs" if "n \<notin> fst ` set xs"
    using that by (force simp: filter_id_conv)
  with Cons show ?case by (cases x) (auto split: if_splits simp del: filter_filter)
qed simp

lemma distinct_filter_fst: "distinct (map fst xs) \<Longrightarrow> distinct (map fst (filter P xs))"
  by (rule distinct_map_filter)

lemma release_upload_inv:
  assumes "upload_inv s"
  shows "upload_inv (release_upload n s)"
proof (cases "map_of (ua_open s) n")
  case None
  then show ?thesis using assms by (simp add: release_upload_def)
next
  case (Some p)
  let ?t = "release_upload n s"
  have d: "distinct (map fst (ua_open s))" using assms by (simp add: upload_inv_def)
  have permits: "pool_permits s q = pool_permits ?t q + (if q = p then 1 else 0)" for q
    using filter_other_key [OF d Some, of "\<lambda>(_, x). x = q"]
    by (auto simp: pool_permits_def release_upload_def Some Let_def)
  have len: "length (ua_open s) = length (ua_open ?t) + 1"
    using filter_other_key [OF d Some, of "\<lambda>_. True"] by (simp add: release_upload_def Some Let_def)
  have pools: "ua_pools ?t q = (if q = p then (if pool_permits s p - 1 \<noteq> 0 then Some (pool_permits s p - 1) else None)
      else ua_pools s q)" for q
    using upload_inv_count [OF assms] by (simp add: release_upload_def Some Let_def)
  have others: "ua_inflight ?t = ua_inflight s - 1" "ua_capacity ?t = ua_capacity s" "ua_perPool ?t = ua_perPool s"
    "ua_next ?t = ua_next s" "ua_open ?t = filter (\<lambda>(m, _). m \<noteq> n) (ua_open s)"
    by (simp_all add: release_upload_def Some Let_def)
  have "pool_permits ?t q \<le> pool_permits s q" for q using permits [of q] by simp
  moreover have "\<forall>q. pool_permits s q \<le> ua_perPool s" using assms by (simp add: upload_inv_def)
  ultimately have per: "pool_permits ?t q \<le> ua_perPool ?t" for q using others(3) by (metis le_trans)
  have poolmap: "ua_pools ?t q = (if pool_permits ?t q = 0 then None else Some (pool_permits ?t q))" for q
    using assms permits [of q] pools [of q] by (auto simp: upload_inv_def)
  show ?thesis
    using assms len per poolmap distinct_filter_fst [OF d, of "\<lambda>(m, _). m \<noteq> n"]
    unfolding upload_inv_def by (auto simp: others)
qed

definition upload_init :: "upload_admission \<Rightarrow> bool" where
  "upload_init s \<longleftrightarrow> (\<exists>c p. new_admission c p = Some s)"

interpretation uploads: invariant_system upload_init upload_step upload_inv
proof unfold_locales
  show "upload_init s \<Longrightarrow> upload_inv s" for s
    by (auto simp: upload_init_def new_admission_def upload_inv_def pool_permits_def split: if_splits)
  show "upload_inv s \<Longrightarrow> upload_step s t \<Longrightarrow> upload_inv t" for s t
    by (auto elim!: upload_stepE intro: acquire_upload_inv release_upload_inv)
qed


definition example_admission :: upload_admission where
  "example_admission = snd (projr (acquire_upload ''pool-a'' (the (new_admission 4 1))))"

lemma example_admission_reachable: "reach upload_init upload_step example_admission"
proof -
  have "upload_init (the (new_admission 4 1))"
    unfolding upload_init_def by (rule exI [of _ 4], rule exI [of _ 1]) (simp add: new_admission_def)
  moreover have "acquire_upload ''pool-a'' (the (new_admission 4 1)) = Inr (0, example_admission)"
    by (simp add: example_admission_def acquire_upload_def new_admission_def pool_count_def)
  ultimately show ?thesis by (auto intro: reach_step reach_init upload_acquire)
qed


section \<open>Properties of bounded bodies\<close>

lemma consume_bounded:
  "consume maxBytes buffer es = Inr bytes \<Longrightarrow> int (length buffer) \<le> maxBytes \<Longrightarrow>
   int (length bytes) \<le> maxBytes \<and> (\<exists>more rest chunks. bytes = buffer @ more \<and> es = map Chunk chunks @ Done # rest
     \<and> concat chunks = more)"
proof (induction maxBytes buffer es rule: consume.induct)
  case (2 maxBytes buffer es)
  then show ?case by (intro conjI exI [of _ "[]"] exI [of _ es]) auto
next
  case (5 maxBytes buffer bs es)
  then have "int (length (buffer @ bs)) \<le> maxBytes" "consume maxBytes (buffer @ bs) es = Inr bytes"
    by (auto split: if_splits)
  then obtain more rest chunks where "int (length bytes) \<le> maxBytes" "bytes = (buffer @ bs) @ more"
    "es = map Chunk chunks @ Done # rest" "concat chunks = more"
    using 5(1) 5(2) by (auto split: if_splits)
  then show ?case by (intro conjI exI [of _ "bs @ more"] exI [of _ rest] exI [of _ "bs # chunks"]) simp_all
qed simp_all

text \<open>The structural characters of a text, outside its strings.\<close>

fun structural :: "bool \<Rightarrow> bool \<Rightarrow> string \<Rightarrow> string" where
  "structural quoted escaped [] = []"
| "structural quoted escaped (c # cs) =
     (if quoted then structural (escaped \<or> c \<noteq> quote) (\<not> escaped \<and> c = escape) cs
      else if c = quote then structural True escaped cs
      else (if opens c \<or> closes c \<or> separates c then [c] else []) @ structural False escaped cs)"

definition balance :: "string \<Rightarrow> int" where
  "balance ws = int (length (filter opens ws)) - int (length (filter closes ws))"

definition nesting_within :: "int \<Rightarrow> int \<Rightarrow> string \<Rightarrow> bool" where
  "nesting_within maxDepth d ws \<longleftrightarrow>
     (\<forall>n\<le>length ws. 0 \<le> d + balance (take n ws) \<and> d + balance (take n ws) \<le> maxDepth)"

lemma char_classes: "opens c \<Longrightarrow> \<not> closes c \<and> \<not> separates c" "closes c \<Longrightarrow> \<not> separates c"
  by (auto simp: opens_def closes_def separates_def)

lemma nesting_within_Nil [simp]: "nesting_within maxDepth d [] \<longleftrightarrow> 0 \<le> d \<and> d \<le> maxDepth"
  by (simp add: nesting_within_def balance_def)

lemma nesting_within_Cons [simp]:
  "nesting_within maxDepth d (w # ws) \<longleftrightarrow> 0 \<le> d \<and> d \<le> maxDepth \<and>
     nesting_within maxDepth (d + (if opens w then 1 else if closes w then - 1 else 0)) ws"
proof -
  have split: "(\<forall>n\<le>Suc m. P n) \<longleftrightarrow> P 0 \<and> (\<forall>n\<le>m. P (Suc n))" for m and P :: "nat \<Rightarrow> bool"
    by (metis Suc_le_mono not0_implies_Suc zero_le)
  have "balance (w # us) = (if opens w then 1 else if closes w then - 1 else 0) + balance us" for us
    by (auto simp: balance_def dest: char_classes)
  then show ?thesis by (simp add: nesting_within_def split add.assoc [symmetric]) (simp add: balance_def)
qed

lemma scan_text_iff:
  assumes "0 \<le> scan_depth st" "scan_depth st \<le> maxDepth" "scan_tokens st \<le> maxTokens"
  shows "(\<exists>r. scan_text maxDepth maxTokens st cs = Inr r) \<longleftrightarrow>
    nesting_within maxDepth (scan_depth st) (structural (scan_quoted st) (scan_escaped st) cs) \<and>
    scan_tokens st + int (length (structural (scan_quoted st) (scan_escaped st) cs)) \<le> maxTokens"
  using assms
proof (induction cs arbitrary: st)
  case (Cons c cs)
  have zero: "nesting_within m d ws \<Longrightarrow> 0 \<le> d \<and> d \<le> m" for m d ws
    by (auto simp: nesting_within_def balance_def dest!: spec [of _ 0])
  consider "scan_quoted st" | "\<not> scan_quoted st" "c = quote" | "\<not> scan_quoted st" "c \<noteq> quote" "opens c"
    | "\<not> scan_quoted st" "c \<noteq> quote" "closes c" | "\<not> scan_quoted st" "c \<noteq> quote" "separates c"
    | "\<not> scan_quoted st" "c \<noteq> quote" "\<not> opens c" "\<not> closes c" "\<not> separates c" by blast
  then show ?case
    using Cons.prems
    by cases (auto simp: scan_char_def Cons.IH char_classes quote_def escape_def dest: char_classes zero)
qed simp

text \<open>Claim C35. The complexity check bounds exactly what it names: a text passes precisely when,
  outside its strings, no prefix closes more brackets than it opened, none is nested deeper than
  the limit, and the brackets, commas and colons are no more than the token limit.\<close>

theorem checkComplexity_exact:
  assumes "0 \<le> maxDepth" "0 \<le> maxTokens"
  shows "checkComplexity s maxDepth maxTokens = Inr () \<longleftrightarrow>
    (let ws = structural False False s in
     (\<forall>n\<le>length ws. 0 \<le> balance (take n ws) \<and> balance (take n ws) \<le> maxDepth) \<and> int (length ws) \<le> maxTokens)"
  using scan_text_iff [of "\<lparr>scan_quoted = False, scan_escaped = False, scan_depth = 0, scan_tokens = 0\<rparr>" maxDepth maxTokens s] assms
  by (auto simp: checkComplexity_def and_then_eq_Inr nesting_within_def Let_def)

theorem checkComplexity_exact_witness:
  "checkComplexity [CHR ''['', CHR ''['', CHR '']'', CHR '']''] 1 10 \<noteq> Inr () \<and>
   checkComplexity [CHR ''['', quote, CHR ''['', escape, quote, quote, CHR '']''] 1 10 = Inr ()"
proof -
  have w: "structural False False [CHR ''['', CHR ''['', CHR '']'', CHR '']''] = [CHR ''['', CHR ''['', CHR '']'', CHR '']'']"
    "balance (take 2 [CHR ''['', CHR ''['', CHR '']'', CHR '']'']) = 2" by code_simp+
  have "checkComplexity [CHR ''['', CHR ''['', CHR '']'', CHR '']''] 1 10 \<noteq> Inr ()"
  proof
    assume "checkComplexity [CHR ''['', CHR ''['', CHR '']'', CHR '']''] 1 10 = Inr ()"
    then have "\<forall>n\<le>length [CHR ''['', CHR ''['', CHR '']'', CHR '']'']. 0 \<le> balance (take n [CHR ''['', CHR ''['', CHR '']'', CHR '']'']) \<and>
        balance (take n [CHR ''['', CHR ''['', CHR '']'', CHR '']'']) \<le> 1"
      using checkComplexity_exact [OF zero_le_one zero_le_numeral, of "[CHR ''['', CHR ''['', CHR '']'', CHR '']'']" "num.Bit0 (num.Bit1 (num.Bit0 num.One))"]
      unfolding w(1) Let_def by blast
    then have "balance (take 2 [CHR ''['', CHR ''['', CHR '']'', CHR '']'']) \<le> 1"
      by (rule allE [of _ 2]) simp
    with w(2) show False by simp
  qed
  moreover have "checkComplexity [CHR ''['', quote, CHR ''['', escape, quote, quote, CHR '']''] 1 10 = Inr ()"
    by code_simp
  ultimately show ?thesis by blast
qed

section \<open>Properties of the report budget\<close>

definition report_inv :: "report_budget \<Rightarrow> bool" where
  "report_inv s \<longleftrightarrow> rb_active s = length (rb_open s) \<and> rb_active s \<le> rb_concurrency s \<and>
     rb_bytes s = sum_list (map snd (rb_open s)) \<and> rb_bytes s \<le> rb_byteLimit s \<and>
     (\<forall>(_, b)\<in>set (rb_open s @ rb_queue s). 0 \<le> b \<and> b \<le> rb_byteLimit s) \<and>
     distinct (map fst (rb_open s @ rb_queue s)) \<and> (\<forall>(n, _)\<in>set (rb_open s @ rb_queue s). n < rb_next s) \<and>
     length (rb_queue s) \<le> rb_maxQueue s"

definition report_pumped :: "report_budget \<Rightarrow> bool" where
  "report_pumped s \<longleftrightarrow> (case rb_queue s of [] \<Rightarrow> True | (n, b) # _ \<Rightarrow> \<not> report_fits b s)"

lemma start_report_inv:
  assumes "report_inv s" "rb_queue s = (n, b) # rest" "report_fits b s"
  shows "report_inv (start_report n b (s\<lparr>rb_queue := rest\<rparr>))"
  using assms by (auto simp: report_inv_def start_report_def report_fits_def)

lemma pump_reports_inv: "report_inv s \<Longrightarrow> report_inv (pump_reports s) \<and> report_pumped (pump_reports s)"
proof (induction s rule: pump_reports.induct)
  case (1 s)
  show ?case
  proof (cases "rb_queue s")
    case Nil
    then show ?thesis using 1(2) by (simp add: pump_reports.simps [of s] report_pumped_def)
  next
    case (Cons e rest)
    then obtain n b where e: "rb_queue s = (n, b) # rest" by (cases e) auto
    show ?thesis
    proof (cases "report_fits b s")
      case True
      then show ?thesis using 1(1) [OF e refl True] start_report_inv [OF 1(2) e True] e
        by (simp add: pump_reports.simps [of s])
    next
      case False
      then show ?thesis using 1(2) e by (simp add: pump_reports.simps [of s] report_pumped_def)
    qed
  qed
qed

lemma report_inv_next: "report_inv s \<Longrightarrow> report_inv (s\<lparr>rb_next := rb_next s + 1\<rparr>)"
  unfolding report_inv_def by (simp add: case_prod_beta) (meson less_SucI)

lemma acquire_report_inv:
  assumes inv: "report_inv s" and p: "report_pumped s"
  shows "report_inv (snd (acquire_report b s)) \<and> report_pumped (snd (acquire_report b s))"
proof -
  let ?n = "rb_next s"
  consider (large) "b < 0 \<or> b > rb_byteLimit s"
    | (admit) "0 \<le> b" "b \<le> rb_byteLimit s" "rb_queue s = []" "report_fits b s"
    | (refuse) "0 \<le> b" "b \<le> rb_byteLimit s" "\<not> (rb_queue s = [] \<and> report_fits b s)" "length (rb_queue s) \<ge> rb_maxQueue s"
    | (wait) "0 \<le> b" "b \<le> rb_byteLimit s" "\<not> (rb_queue s = [] \<and> report_fits b s)" "length (rb_queue s) < rb_maxQueue s"
    by linarith
  then show ?thesis
  proof cases
    case large
    then show ?thesis using assms by (simp add: acquire_report_def)
  next
    case admit
    then have "snd (acquire_report b s) = start_report ?n b (s\<lparr>rb_next := ?n + 1\<rparr>)"
      by (simp add: acquire_report_def Let_def)
    moreover have "report_inv (start_report ?n b (s\<lparr>rb_next := ?n + 1\<rparr>))"
      using inv admit by (fastforce simp: report_inv_def start_report_def report_fits_def)
    ultimately show ?thesis using admit by (simp add: report_pumped_def start_report_def)
  next
    case refuse
    then have "snd (acquire_report b s) = s\<lparr>rb_next := ?n + 1\<rparr>" by (auto simp: acquire_report_def Let_def)
    moreover have "report_pumped (s\<lparr>rb_next := ?n + 1\<rparr>)"
      using p by (auto simp: report_pumped_def report_fits_def split: list.splits)
    ultimately show ?thesis using report_inv_next [OF inv] by simp
  next
    case wait
    then have s': "snd (acquire_report b s) = s\<lparr>rb_next := ?n + 1, rb_queue := rb_queue s @ [(?n, b)]\<rparr>"
      by (auto simp: acquire_report_def Let_def)
    have fresh: "(?n, c) \<notin> set (rb_open s)" "(?n, c) \<notin> set (rb_queue s)" for c
      using inv by (auto simp: report_inv_def)
    have "report_inv (s\<lparr>rb_next := ?n + 1, rb_queue := rb_queue s @ [(?n, b)]\<rparr>)"
      using inv wait(1,2,4) fresh unfolding report_inv_def by (auto simp: case_prod_beta less_Suc_eq)
    moreover have "report_pumped (s\<lparr>rb_next := ?n + 1, rb_queue := rb_queue s @ [(?n, b)]\<rparr>)"
      using p wait by (cases "rb_queue s") (auto simp: report_pumped_def report_fits_def split: prod.splits)
    ultimately show ?thesis by (simp add: s')
  qed
qed

lemma timeout_report_inv: "report_inv s \<Longrightarrow> report_inv (timeout_report n s) \<and> report_pumped (timeout_report n s)"
  unfolding timeout_report_def
  by (rule pump_reports_inv)
    (auto simp: report_inv_def distinct_map_filter intro: le_trans [OF length_filter_le])

lemma sum_other_key:
  assumes "distinct (map fst xs)" "map_of xs n = Some v"
  shows "sum_list (map snd xs) = sum_list (map snd (filter (\<lambda>(m, _). m \<noteq> n) xs)) + (v :: int)"
  using assms
proof (induction xs)
  case (Cons x xs)
  have "filter (\<lambda>(m, _). m \<noteq> n) xs = xs" if "n \<notin> fst ` set xs"
    using that by (force simp: filter_id_conv)
  with Cons show ?case by (cases x) (auto split: if_splits)
qed simp

lemma release_report_inv:
  assumes "report_inv s" "report_pumped s"
  shows "report_inv (release_report n s) \<and> report_pumped (release_report n s)"
proof (cases "map_of (rb_open s) n")
  case None
  then show ?thesis using assms by (simp add: release_report_def)
next
  case (Some b)
  define t where "t = s\<lparr>rb_active := rb_active s - 1, rb_bytes := rb_bytes s - b,
       rb_open := filter (\<lambda>(m, _). m \<noteq> n) (rb_open s)\<rparr>"
  have d: "distinct (map fst (rb_open s))" and mem: "(n, b) \<in> set (rb_open s)" "0 \<le> b"
    using assms(1) map_of_SomeD [OF Some] by (auto simp: report_inv_def)
  have len: "length (rb_open s) = length (filter (\<lambda>(m, _). m \<noteq> n) (rb_open s)) + 1"
    using filter_other_key [OF d Some, of "\<lambda>_. True"] by simp
  have "report_inv t"
    using assms(1) mem(2) len sum_other_key [OF d Some] distinct_filter_fst [OF d, of "\<lambda>(m, _). m \<noteq> n"]
    unfolding report_inv_def by (auto simp: t_def)
  then show ?thesis using pump_reports_inv [of t] by (simp add: release_report_def Some t_def)
qed

definition report_init :: "report_budget \<Rightarrow> bool" where
  "report_init s \<longleftrightarrow> (\<exists>c l q. 1 \<le> c \<and> 0 \<le> l \<and> s = new_budget c l q)"

lemma report_concurrency:
  "rb_concurrency (pump_reports s) = rb_concurrency s"
  by (induction s rule: pump_reports.induct) (subst pump_reports.simps, auto split: list.splits simp: start_report_def)

definition report_safe :: "report_budget \<Rightarrow> bool" where
  "report_safe s \<longleftrightarrow> report_inv s \<and> report_pumped s \<and> 1 \<le> rb_concurrency s"

interpretation reports: invariant_system report_init report_step report_safe
proof unfold_locales
  show "report_init s \<Longrightarrow> report_safe s" for s
    by (auto simp: report_init_def new_budget_def report_safe_def report_inv_def report_pumped_def)
next
  fix s t assume s: "report_safe s" and step: "report_step s t"
  have "rb_concurrency t = rb_concurrency s"
    using step by cases (auto simp: acquire_report_def start_report_def timeout_report_def release_report_def
      report_concurrency Let_def split: option.splits)
  moreover have "report_inv t \<and> report_pumped t"
    using step s by cases (auto simp: report_safe_def acquire_report_inv timeout_report_inv release_report_inv)
  ultimately show "report_safe t" using s by (simp add: report_safe_def)
qed

text \<open>Claim C33. In every run of the report budget the admitted reports never exceed the concurrency
  or the byte budget, at most the allowed number wait, and no waiter is forgotten: whoever waits
  at the head does not fit beside the admitted reports, so that once nothing is admitted nobody
  waits.\<close>

theorem report_budget_safe_and_live:
  assumes "reach report_init report_step s"
  shows "length (rb_open s) \<le> rb_concurrency s \<and> sum_list (map snd (rb_open s)) \<le> rb_byteLimit s \<and>
    rb_active s = length (rb_open s) \<and> rb_bytes s = sum_list (map snd (rb_open s)) \<and>
    length (rb_queue s) \<le> rb_maxQueue s \<and>
    (rb_queue s \<noteq> [] \<longrightarrow> length (rb_open s) = rb_concurrency s \<or>
       sum_list (map snd (rb_open s)) + snd (hd (rb_queue s)) > rb_byteLimit s) \<and>
    (rb_open s = [] \<longrightarrow> rb_queue s = [])"
proof -
  have safe: "report_safe s" by (rule reports.reachable_inv [OF assms])
  then have head: "rb_active s = rb_concurrency s \<or> rb_bytes s + snd (hd (rb_queue s)) > rb_byteLimit s"
    if "rb_queue s \<noteq> []"
    using that by (cases "rb_queue s")
      (auto simp: report_safe_def report_pumped_def report_fits_def report_inv_def split: prod.splits)
  have "snd (hd (rb_queue s)) \<le> rb_byteLimit s" if "rb_queue s \<noteq> []"
    using safe that by (cases "rb_queue s") (auto simp: report_safe_def report_inv_def)
  then have "rb_open s = [] \<longrightarrow> rb_queue s = []"
    using safe head by (force simp: report_safe_def report_inv_def)
  then show ?thesis using safe head by (auto simp: report_safe_def report_inv_def)
qed

definition example_reports :: report_budget where
  "example_reports = snd (acquire_report 30 (snd (acquire_report 80 (new_budget 2 100 8))))"

lemma example_reports_reachable: "reach report_init report_step example_reports"
proof -
  have "report_init (new_budget 2 100 8)"
    unfolding report_init_def by (rule exI [of _ 2], rule exI [of _ 100], rule exI [of _ 8]) simp
  then have "reach report_init report_step (snd (acquire_report 80 (new_budget 2 100 8)))"
    by (auto intro: reach_step reach_init report_acquire)
  then show ?thesis unfolding example_reports_def by (rule reach_step) (rule report_acquire)
qed

theorem report_budget_safe_and_live_witness:
  "rb_queue example_reports = [(1, 30)] \<and> sum_list (map snd (rb_open example_reports)) + 30 > 100"
proof -
  have "rb_queue example_reports = [(1, 30)]" "rb_open example_reports = [(0, 80)]"
    "rb_concurrency example_reports = 2" "rb_byteLimit example_reports = 100" by code_simp+
  then show ?thesis using report_budget_safe_and_live [OF example_reports_reachable] by simp
qed

end
