(* ===== verification/Router_Service.thy ===== *)
theory Router_Service
  imports Project_Context Traffic_Routing
begin

text \<open>
  The Router service (\<^verbatim>\<open>controller/server/services/traffic-routing.ts\<close>): drafts, publication
  under review by change requests, reverts, bindings of Endpoints, deletion, and the snapshots
  that are distributed to Runners.

  The tables the service reads and writes are lists of rows in one record. Each operation runs in
  one transaction: an operation that throws leaves the tables as they were, except that approving
  a stale request commits its new status before it throws. Identifiers, the clock and the caller's
  authority are arguments; audit entries keep their kind, Router and actor.

  Identifiers are ordered by code unit where the source uses \<open>localeCompare\<close>: both sides of every
  comparison are sorted alike, so only the equality of the sorted lists matters.
\<close>

section \<open>Tables\<close>

record router_row =
  rt_id :: string
  rt_projectId :: string
  rt_name :: string
  rt_description :: string
  rt_draftRevision :: int
  rt_draft :: RouterDraft
  rt_deletedAt :: "int option"
  rt_rolloutError :: "string option"
  rt_activeRevision :: "int option"
  rt_activeDraftRevision :: "int option"
  rt_activeSnapshot :: "RouterDraft option"
  rt_desiredGeneration :: int
  rt_updatedAt :: int

record endpoint_row =
  ep_id :: string
  ep_projectId :: string
  ep_name :: string
  ep_adapter :: string
  ep_trafficRouterId :: "string option"
  ep_deleted :: bool

record guardrail_row =
  gr_id :: string
  gr_projectId :: "string option"
  gr_name :: string
  gr_deleted :: bool

text \<open>A Guardrail version: its environment check is the time of the check and its status.\<close>

record version_row =
  gv_guardrailId :: string
  gv_version :: string
  gv_artifactId :: "string option"
  gv_status :: string
  gv_origin :: string
  gv_environmentCheck :: "(int \<times> string) option"

record RouterRevisionContext =
  rc_endpoints :: "(string \<times> string \<times> string) list"
  rc_guardrails :: "(string \<times> string \<times> string) list"

datatype ChangeKind = Publish | Revert

datatype ChangeStatus = Pending | Applied | Rejected | Withdrawn | Superseded

record change_row =
  ch_id :: string
  ch_routerId :: string
  ch_kind :: ChangeKind
  ch_status :: ChangeStatus
  ch_sourceDraftRevision :: "int option"
  ch_baseRevision :: "int option"
  ch_snapshot :: RouterDraft
  ch_endpointIds :: "string list"
  ch_context :: "RouterRevisionContext option"
  ch_ticket :: string
  ch_reason :: string
  ch_submittedBy :: string
  ch_decidedBy :: "string option"
  ch_decidedAt :: "int option"
  ch_decisionNote :: "string option"
  ch_emergencyReason :: "string option"
  ch_appliedRevision :: "int option"
  ch_revertsChangeRequestId :: "string option"

record revision_row =
  rv_routerId :: string
  rv_revision :: int
  rv_sourceDraftRevision :: int
  rv_snapshot :: RouterDraft
  rv_context :: "RouterRevisionContext option"
  rv_changeRequestId :: string
  rv_generation :: int
  rv_requestDraftRevision :: int
  rv_rollbackRevision :: "int option"
  rv_createdBy :: string

record runner_row =
  rn_poolId :: string
  rn_appliedGeneration :: int
  rn_lastHeartbeatAt :: "int option"

record assignment_row =
  as_routerId :: string
  as_routerRevision :: int
  as_occurredAt :: int
  as_completed :: bool

record routing_db =
  db_routers :: "router_row list"
  db_endpoints :: "endpoint_row list"
  db_guardrails :: "guardrail_row list"
  db_versions :: "version_row list"
  db_changes :: "change_row list"
  db_revisions :: "revision_row list"
  db_generation :: "int option"
  db_runners :: "runner_row list"
  db_assignments :: "assignment_row list"
  db_projects :: project_db
  db_events :: "(string \<times> string \<times> string) list"

section \<open>Queries and helpers\<close>

definition owners :: "routing_db \<Rightarrow> owner_db" where
  "owners db = \<lparr>
     od_guardrails = map (\<lambda>g. \<lparr>own_id = gr_id g, own_projectId = gr_projectId g, own_deleted = gr_deleted g\<rparr>) (db_guardrails db),
     od_trafficRouters = map (\<lambda>r. \<lparr>own_id = rt_id r, own_projectId = Some (rt_projectId r),
        own_deleted = (rt_deletedAt r \<noteq> None)\<rparr>) (db_routers db),
     od_endpoints = map (\<lambda>e. \<lparr>own_id = ep_id e, own_projectId = Some (ep_projectId e), own_deleted = ep_deleted e\<rparr>) (db_endpoints db),
     od_policyResources = [], od_policyRecords = [], od_policyImportedVersions = [], od_modelDefinitions = []\<rparr>"

definition sortedIds :: "string list \<Rightarrow> string list" where
  "sortedIds ids = sort (js_unique ids)"

definition endpointContext :: "endpoint_row list \<Rightarrow> (string \<times> string \<times> string) list" where
  "endpointContext rows = sort_key fst (map (\<lambda>e. (ep_id e, ep_name e, ep_adapter e)) rows)"

definition selector_endpoint :: "endpoint_row \<Rightarrow> SelectorEndpoint" where
  "selector_endpoint e = \<lparr>se_id = ep_id e, se_adapter = ep_adapter e, se_selectorCapabilities = None\<rparr>"

definition validation_of :: "RoutingIssue list \<Rightarrow> thrown" where
  "validation_of issues = ValidationError (js_join ''; '' (map issue_text issues)) []"

text \<open>\<open>error instanceof ValidationError\<close>\<close>

definition is_validation :: "thrown \<Rightarrow> bool" where
  "is_validation e = (case e of ControllerError _ status code _ \<Rightarrow> status = 422 \<and> code = ''validation_failed'' | _ \<Rightarrow> False)"

definition audit_router :: "string \<Rightarrow> string \<Rightarrow> string \<Rightarrow> routing_db \<Rightarrow> routing_db" where
  "audit_router key actorId kind db = db\<lparr>db_events := db_events db @ [(kind, key, actorId)]\<rparr>"

definition update_router :: "string \<Rightarrow> (router_row \<Rightarrow> router_row) \<Rightarrow> routing_db \<Rightarrow> routing_db" where
  "update_router key f db = db\<lparr>db_routers := map (\<lambda>r. if rt_id r = key then f r else r) (db_routers db)\<rparr>"

definition update_change :: "string \<Rightarrow> (change_row \<Rightarrow> change_row) \<Rightarrow> routing_db \<Rightarrow> routing_db" where
  "update_change key f db = db\<lparr>db_changes := map (\<lambda>c. if ch_id c = key then f c else c) (db_changes db)\<rparr>"

definition advance :: "routing_db \<Rightarrow> thrown + int \<times> routing_db" where
  "advance db = (case db_generation db of
     None \<Rightarrow> Inl (JsError ''Controller state is not initialized'')
   | Some g \<Rightarrow> Inr (g + 1, db\<lparr>db_generation := Some (g + 1)\<rparr>))"

definition lockRouter :: "AuthorityContext option \<Rightarrow> routing_db \<Rightarrow> string \<Rightarrow> thrown + router_row" where
  "lockRouter ctx db key = and_then (resourceWritePredicate ctx) (\<lambda>writable.
     case List.find (\<lambda>r. rt_id r = key \<and> writable (Some (rt_projectId r))) (db_routers db) of
       Some r \<Rightarrow> if rt_deletedAt r \<noteq> None then Inl (NotFoundError ''Router'' key) else Inr r
     | None \<Rightarrow> Inl (NotFoundError ''Router'' key))"

definition lockChange :: "routing_db \<Rightarrow> string \<Rightarrow> string \<Rightarrow> thrown + change_row" where
  "lockChange db key changeId =
     (case List.find (\<lambda>c. ch_id c = changeId \<and> ch_routerId c = key) (db_changes db) of
        Some c \<Rightarrow> Inr c
      | None \<Rightarrow> Inl (NotFoundError ''Router change request'' changeId))"

definition draft_guardrails :: "RouterDraft \<Rightarrow> string list" where
  "draft_guardrails d = js_unique (concat (map (\<lambda>r. map tg_guardrailId (tr_targets r)) d))"

definition assertDraftGuardrailsVisible :: "AuthorityContext option \<Rightarrow> routing_db \<Rightarrow> RouterDraft \<Rightarrow> thrown + unit" where
  "assertDraftGuardrailsVisible ctx db draft =
     (let ids = draft_guardrails draft in
      if ids = [] then Inr ()
      else and_then (resourceReadPredicate (owners db) ctx Guardrail) (\<lambda>readable.
        if length (filter (\<lambda>g. gr_id g \<in> set ids \<and> \<not> gr_deleted g \<and> readable (gr_id g) (gr_projectId g)) (db_guardrails db))
             \<noteq> length ids
        then Inl (ValidationError ''Router references a Guardrail that is unavailable to this project.'' [])
        else Inr ()))"

section \<open>Drafts\<close>

definition create_router ::
  "AuthorityContext option \<Rightarrow> int \<Rightarrow> string \<Rightarrow> routing_db \<Rightarrow> string \<Rightarrow> string \<Rightarrow> RouterDraft \<Rightarrow> string \<Rightarrow> string list
   \<Rightarrow> thrown + routing_db" where
  "create_router ctx now uuid db name description draft actorId endpointIds =
     (if routingIssues draft False \<noteq> [] then Inl (validation_of (routingIssues draft False)) else
      and_then (assertDraftGuardrailsVisible ctx db draft) (\<lambda>_.
      and_then (resourceWritePredicate ctx) (\<lambda>writable.
      let requested = js_unique endpointIds;
          selected = filter (\<lambda>e. \<not> ep_deleted e \<and> writable (Some (ep_projectId e)) \<and> ep_id e \<in> set requested) (db_endpoints db)
      in if length selected \<noteq> length requested then Inl (ValidationError ''Endpoint was not found.'' [])
         else (case List.find (\<lambda>e. \<not> falsy (ep_trafficRouterId e)) selected of
             Some e \<Rightarrow> Inl (ConflictError (ep_name e @ '' is already bound to another Router.'') ''endpoint_router_conflict'' [])
           | None \<Rightarrow>
               (let issues = capabilityIssues draft (map selector_endpoint selected) in
                if selected \<noteq> [] \<and> issues \<noteq> [] then Inl (validation_of issues)
                else and_then (projectOwnerForCreate ctx) (\<lambda>projectId.
                  Inr (audit_router uuid actorId ''router.created''
                    (db\<lparr>db_routers := db_routers db @ [\<lparr>rt_id = uuid, rt_projectId = projectId, rt_name = name,
                          rt_description = description, rt_draftRevision = 1, rt_draft = draft, rt_deletedAt = None,
                          rt_rolloutError = None, rt_activeRevision = None, rt_activeDraftRevision = None,
                          rt_activeSnapshot = None, rt_desiredGeneration = 0, rt_updatedAt = now\<rparr>],
                        db_endpoints := map (\<lambda>e. if ep_id e \<in> ep_id ` set selected
                          then e\<lparr>ep_trafficRouterId := Some uuid\<rparr> else e) (db_endpoints db)\<rparr>))))))))"

definition save_router ::
  "AuthorityContext option \<Rightarrow> int \<Rightarrow> routing_db \<Rightarrow> string \<Rightarrow> int \<Rightarrow> RouterDraft \<Rightarrow> string \<Rightarrow> thrown + routing_db" where
  "save_router ctx now db key expectedDraftRevision draft actorId =
     and_then (assertResourceWriteAccess (owners db) ctx Router key) (\<lambda>_.
      if routingIssues draft False \<noteq> [] then Inl (validation_of (routingIssues draft False)) else
      and_then (assertDraftGuardrailsVisible ctx db draft) (\<lambda>_.
      and_then (resourceWritePredicate ctx) (\<lambda>writable.
        let hit = (\<lambda>r. rt_id r = key \<and> rt_draftRevision r = expectedDraftRevision \<and> rt_deletedAt r = None
               \<and> writable (Some (rt_projectId r)))
        in if \<not> list_ex hit (db_routers db)
           then Inl (ConflictError ''Router draft changed. Reload and compare your changes.'' ''router_draft_conflict'' [])
           else Inr (audit_router key actorId ''router.draft_saved''
             (db\<lparr>db_routers := map (\<lambda>r. if hit r
                then r\<lparr>rt_draft := draft, rt_draftRevision := expectedDraftRevision + 1, rt_updatedAt := now\<rparr> else r)
                (db_routers db)\<rparr>)))))"

section \<open>Publication\<close>

definition IMPORTED_VERSION_CHECK_TTL_MS :: int where
  "IMPORTED_VERSION_CHECK_TTL_MS = 10 * 60000"

text \<open>Does the environment check of an imported version count as current and compatible?\<close>

definition import_verified :: "int \<Rightarrow> version_row \<Rightarrow> bool" where
  "import_verified now v = (case gv_environmentCheck v of
     None \<Rightarrow> False
   | Some (checkedAt, status) \<Rightarrow> now - checkedAt \<le> IMPORTED_VERSION_CHECK_TTL_MS \<and> status = ''compatible'')"

text \<open>What is wrong with a target that receives traffic, given the version it names.\<close>

definition target_error ::
  "int \<Rightarrow> bool \<Rightarrow> (version_row \<times> guardrail_row) option \<Rightarrow> TrafficRoute \<Rightarrow> RouteTarget \<Rightarrow> thrown option" where
  "target_error now verifyImports version route target =
     (let live = (tr_enabled route \<and> tg_weightBps target > 0);
          name = tr_name route @ '': '' @ tg_guardrailId target @ '' '' @ tg_guardrailVersion target
      in if live \<and> (case version of Some (v, _) \<Rightarrow> gv_status v = ''pending'' | None \<Rightarrow> False)
         then Some (ValidationError (name @ '' has not been released in this environment. Publish it first'')
           [(''guardrailId'', JStr (tg_guardrailId target)), (''version'', JStr (tg_guardrailVersion target)), (''reason'', JStr ''not_released'')])
         else if live \<and> (case version of None \<Rightarrow> True
                | Some (v, g) \<Rightarrow> falsy (gv_artifactId v) \<or> gv_status v \<noteq> ''ready'' \<or> gr_deleted g)
         then Some (ValidationError (name @ '' is not a ready Guardrail Version'') [])
         else if verifyImports \<and> live \<and> (case version of None \<Rightarrow> False
                | Some (v, _) \<Rightarrow> gv_origin v = ''imported'' \<and> \<not> import_verified now v)
         then Some (ConflictError (tr_name route @ '': this environment has not confirmed it can serve '' @ tg_guardrailId target @
             '' '' @ tg_guardrailVersion target @ ''. Resolve the missing dependencies and check again.'')
           ''guardrail_version_environment_unverified''
           [(''guardrailId'', JStr (tg_guardrailId target)), (''version'', JStr (tg_guardrailVersion target))])
         else None)"

definition target_version ::
  "(version_row \<times> guardrail_row) list \<Rightarrow> RouteTarget \<Rightarrow> (version_row \<times> guardrail_row) option" where
  "target_version versions target = List.find (\<lambda>(v, _).
     gv_guardrailId v = tg_guardrailId target \<and> gv_version v = tg_guardrailVersion target) versions"

definition capture ::
  "(version_row \<times> guardrail_row) option \<Rightarrow> RouteTarget \<Rightarrow> (string \<times> string \<times> string) list \<Rightarrow> (string \<times> string \<times> string) list" where
  "capture version target captured = (case version of
     None \<Rightarrow> captured
   | Some (_, g) \<Rightarrow>
       if list_ex (\<lambda>(i, _, w). i = tg_guardrailId target \<and> w = tg_guardrailVersion target) captured then captured
       else captured @ [(tg_guardrailId target, gr_name g, tg_guardrailVersion target)])"

text \<open>The loop over the targets of all Routes: the Guardrails it captures, or the first error.\<close>

fun publish_targets ::
  "int \<Rightarrow> bool \<Rightarrow> (version_row \<times> guardrail_row) list \<Rightarrow> (TrafficRoute \<times> RouteTarget) list
   \<Rightarrow> (string \<times> string \<times> string) list \<Rightarrow> thrown + (string \<times> string \<times> string) list" where
  "publish_targets now verifyImports versions [] captured = Inr captured"
| "publish_targets now verifyImports versions ((route, target) # rest) captured =
     (case target_error now verifyImports (target_version versions target) route target of
        Some e \<Rightarrow> Inl e
      | None \<Rightarrow> publish_targets now verifyImports versions rest
          (capture (target_version versions target) target captured))"

definition resolvePublication ::
  "AuthorityContext option \<Rightarrow> int \<Rightarrow> routing_db \<Rightarrow> string \<Rightarrow> RouterDraft \<Rightarrow> bool
   \<Rightarrow> thrown + RouterDraft \<times> RouterRevisionContext \<times> string list" where
  "resolvePublication ctx now db key draft verifyImports =
     (if routingIssues draft True \<noteq> [] then Inl (validation_of (routingIssues draft True)) else
      and_then (currentProjectId ctx) (\<lambda>p.
      and_then (if falsy p then Inr () else assertDraftGuardrailsVisible ctx db draft) (\<lambda>_.
      and_then (resourceWritePredicate ctx) (\<lambda>writable.
      and_then (resourceReadPredicate (owners db) ctx Guardrail) (\<lambda>readable.
        let bound = filter (\<lambda>e. ep_trafficRouterId e = Some key \<and> \<not> ep_deleted e \<and> writable (Some (ep_projectId e))) (db_endpoints db);
            ids = draft_guardrails draft;
            versions = concat (map (\<lambda>v. map (Pair v) (filter (\<lambda>g. gr_id g = gv_guardrailId v \<and> readable (gr_id g) (gr_projectId g))
              (db_guardrails db))) (filter (\<lambda>v. gv_guardrailId v \<in> set ids) (db_versions db)));
            issues = routingIssues draft True @ capabilityIssues draft (map selector_endpoint bound)
        in if issues \<noteq> [] then Inl (validation_of issues)
           else and_then (publish_targets now verifyImports versions
                  (concat (map (\<lambda>r. map (Pair r) (tr_targets r)) draft)) []) (\<lambda>captured.
             Inr (draft, \<lparr>rc_endpoints = endpointContext bound, rc_guardrails = captured\<rparr>,
                  map fst (endpointContext bound))))))))"

definition preview_publication ::
  "AuthorityContext option \<Rightarrow> int \<Rightarrow> routing_db \<Rightarrow> string \<Rightarrow> int \<Rightarrow> thrown + int \<times> RouterDraft \<times> string list" where
  "preview_publication ctx now db key expectedDraftRevision =
     and_then (assertResourceWriteAccess (owners db) ctx Router key) (\<lambda>_.
      case List.find (\<lambda>r. rt_id r = key \<and> rt_deletedAt r = None) (db_routers db) of
        None \<Rightarrow> Inl (NotFoundError ''Router'' key)
      | Some router \<Rightarrow>
          if rt_draftRevision router \<noteq> expectedDraftRevision
          then Inl (ConflictError ''Router draft changed; reload before reviewing.'' ''router_draft_conflict'' [])
          else and_then (resolvePublication ctx now db key (rt_draft router) False) (\<lambda>(snapshot, _, endpointIds).
            Inr (rt_draftRevision router, snapshot, endpointIds)))"

text \<open>The reviewed publication a change request freezes. \<open>restore\<close> is a revision to restore and
  the active revision it was reviewed against.\<close>

record submission =
  sub_expectedDraftRevision :: int
  sub_reviewedSnapshot :: RouterDraft
  sub_reviewedEndpointIds :: "string list"
  sub_reason :: string
  sub_ticket :: string
  sub_restore :: "(int \<times> int) option"

definition submission_source :: "routing_db \<Rightarrow> string \<Rightarrow> router_row \<Rightarrow> submission \<Rightarrow> thrown + RouterDraft" where
  "submission_source db key router input = (case sub_restore input of
     None \<Rightarrow> Inr (rt_draft router)
   | Some (revision, expectedActive) \<Rightarrow>
       if rt_activeRevision router \<noteq> Some expectedActive
       then Inl (ConflictError ''The active Router revision changed; review the restoration again.'' ''router_review_conflict'' [])
       else if Some revision = rt_activeRevision router
       then Inl (ConflictError ''This Router revision is already active.'' ''router_restore_unavailable'' [])
       else (case List.find (\<lambda>v. rv_routerId v = key \<and> rv_revision v = revision) (db_revisions db) of
           None \<Rightarrow> Inl (NotFoundError ''Router revision'' (int_text revision))
         | Some target \<Rightarrow> Inr (rv_snapshot target)))"

definition submitChange ::
  "AuthorityContext option \<Rightarrow> int \<Rightarrow> string \<Rightarrow> routing_db \<Rightarrow> string \<Rightarrow> submission \<Rightarrow> string \<Rightarrow> thrown + routing_db" where
  "submitChange ctx now changeId db key input actorId =
     and_then (assertResourceWriteAccess (owners db) ctx Router key) (\<lambda>_.
     and_then (lockRouter ctx db key) (\<lambda>router.
     if rt_draftRevision router \<noteq> sub_expectedDraftRevision input
     then Inl (ConflictError ''Router draft changed; review again before submitting.'' ''router_draft_conflict'' [])
     else (case List.find (\<lambda>c. ch_routerId c = key \<and> ch_status c = Pending) (db_changes db) of
         Some pending \<Rightarrow> Inl (ConflictError ''This Router already has a pending change request.'' ''router_change_request_pending''
           [(''changeRequestId'', JStr (ch_id pending))])
       | None \<Rightarrow>
         and_then (submission_source db key router input) (\<lambda>source.
         case resolvePublication ctx now db key source True of
           Inl e \<Rightarrow> Inl (if is_validation e
             then ConflictError ''Router publication is no longer valid. Review again before submitting.'' ''router_review_conflict'' []
             else e)
         | Inr (snapshot, context, endpointIds) \<Rightarrow>
             if snapshot \<noteq> sub_reviewedSnapshot input \<or> endpointIds \<noteq> sortedIds (sub_reviewedEndpointIds input)
             then Inl (ConflictError ''Router publication changed since review. Review again before submitting.'' ''router_review_conflict'' [])
             else
               (let sourceDraftRevision = rt_draftRevision router + (if sub_restore input \<noteq> None then 1 else 0);
                    db1 = (if sub_restore input \<noteq> None
                      then update_router key (\<lambda>r. r\<lparr>rt_draft := snapshot, rt_draftRevision := sourceDraftRevision, rt_updatedAt := now\<rparr>) db
                      else db);
                    row = \<lparr>ch_id = changeId, ch_routerId = key, ch_kind = Publish, ch_status = Pending,
                      ch_sourceDraftRevision = Some sourceDraftRevision, ch_baseRevision = rt_activeRevision router,
                      ch_snapshot = snapshot, ch_endpointIds = endpointIds, ch_context = Some context,
                      ch_ticket = sub_ticket input, ch_reason = sub_reason input, ch_submittedBy = actorId,
                      ch_decidedBy = None, ch_decidedAt = None, ch_decisionNote = None, ch_emergencyReason = None,
                      ch_appliedRevision = None, ch_revertsChangeRequestId = None\<rparr>
                in Inr (audit_router key actorId ''router.change_submitted'' (db1\<lparr>db_changes := db_changes db1 @ [row]\<rparr>)))))))"

text \<open>Why a frozen change can no longer be applied as reviewed, if it cannot.\<close>

definition staleReason ::
  "AuthorityContext option \<Rightarrow> int \<Rightarrow> routing_db \<Rightarrow> router_row \<Rightarrow> change_row \<Rightarrow> thrown + string option" where
  "staleReason ctx now db router change =
     (if rt_activeRevision router \<noteq> ch_baseRevision change
      then Inr (Some ''The active Router revision changed after submission.'')
      else (case resolvePublication ctx now db (rt_id router) (ch_snapshot change) True of
          Inr (snapshot, _, endpointIds) \<Rightarrow>
            if snapshot \<noteq> ch_snapshot change then Inr (Some ''The referenced Guardrail versions changed after submission.'')
            else if endpointIds \<noteq> sortedIds (ch_endpointIds change)
            then Inr (Some ''The bound Endpoints changed after submission.'')
            else Inr None
        | Inl e \<Rightarrow>
            if is_validation e
            then (case e of ControllerError message _ _ _ \<Rightarrow>
                    Inr (Some (if js_endsWith message ''.'' then message else message @ ''.'')) | _ \<Rightarrow> Inl e)
            else Inl e))"

record application =
  ap_snapshot :: RouterDraft
  ap_context :: "RouterRevisionContext option"
  ap_changeId :: string
  ap_actorId :: string
  ap_sourceDraftRevision :: int
  ap_requestDraftRevision :: int
  ap_rollbackRevision :: "int option"
  ap_replaceDraft :: bool

definition published_row :: "int \<Rightarrow> int \<Rightarrow> int \<Rightarrow> application \<Rightarrow> router_row \<Rightarrow> router_row" where
  "published_row now revision generation input r = r\<lparr>
     rt_draft := (if ap_replaceDraft input then ap_snapshot input else rt_draft r),
     rt_draftRevision := (if ap_replaceDraft input then ap_sourceDraftRevision input else rt_draftRevision r),
     rt_activeDraftRevision := Some (ap_sourceDraftRevision input), rt_activeRevision := Some revision,
     rt_activeSnapshot := Some (ap_snapshot input), rt_rolloutError := None,
     rt_desiredGeneration := generation, rt_updatedAt := now\<rparr>"

definition applySnapshot ::
  "int \<Rightarrow> routing_db \<Rightarrow> router_row \<Rightarrow> application \<Rightarrow> thrown + int \<times> int \<times> routing_db" where
  "applySnapshot now db router input =
     (let revision = (case rt_activeRevision router of None \<Rightarrow> 0 | Some n \<Rightarrow> n) + 1 in
      and_then (advance db) (\<lambda>(generation, db1).
        Inr (revision, generation,
          update_router (rt_id router) (published_row now revision generation input)
            (db1\<lparr>db_revisions := db_revisions db1 @ [\<lparr>rv_routerId = rt_id router, rv_revision = revision,
               rv_sourceDraftRevision = ap_sourceDraftRevision input, rv_snapshot = ap_snapshot input,
               rv_context = ap_context input, rv_changeRequestId = ap_changeId input, rv_generation = generation,
               rv_requestDraftRevision = ap_requestDraftRevision input, rv_rollbackRevision = ap_rollbackRevision input,
               rv_createdBy = ap_actorId input\<rparr>]\<rparr>))))"

text \<open>The decision of an approver: an approval with an optional note, or an emergency application
  with its reason. The reply to the approver has the revision, its generation and whether the
  decision was a replay.\<close>

datatype decision = Approve "string option" | Emergency string

fun emergency_reason :: "decision \<Rightarrow> string option" where
  "emergency_reason (Approve note) = None"
| "emergency_reason (Emergency reason) = Some reason"

fun status_name :: "ChangeStatus \<Rightarrow> string" where
  "status_name Pending = ''pending''"
| "status_name Applied = ''applied''"
| "status_name Rejected = ''rejected''"
| "status_name Withdrawn = ''withdrawn''"
| "status_name Superseded = ''superseded''"

definition closed_error :: "change_row \<Rightarrow> thrown" where
  "closed_error change = ConflictError (''This change request is already '' @ status_name (ch_status change) @ ''.'')
     ''router_change_request_closed'' []"

definition approve_pending ::
  "AuthorityContext option \<Rightarrow> int \<Rightarrow> routing_db \<Rightarrow> string \<Rightarrow> router_row \<Rightarrow> change_row \<Rightarrow> string \<Rightarrow> decision
   \<Rightarrow> (thrown + int \<times> int option \<times> bool) \<times> routing_db" where
  "approve_pending ctx now db key router change actorId decision =
     (case staleReason ctx now db router change of
        Inl e \<Rightarrow> (Inl e, db)
      | Inr (Some stale) \<Rightarrow>
          (Inl (ConflictError (''This change request is no longer valid: '' @ stale @ '' Submit the change again.'')
             ''router_change_request_stale'' []),
           audit_router key actorId ''router.change_superseded''
             (update_change (ch_id change) (\<lambda>c. c\<lparr>ch_status := Superseded, ch_decidedAt := Some now, ch_decisionNote := Some stale\<rparr>) db))
      | Inr None \<Rightarrow>
          (case applySnapshot now db router \<lparr>ap_snapshot = ch_snapshot change, ap_context = ch_context change,
              ap_changeId = ch_id change, ap_actorId = actorId, ap_sourceDraftRevision = the (ch_sourceDraftRevision change),
              ap_requestDraftRevision = the (ch_sourceDraftRevision change), ap_rollbackRevision = None, ap_replaceDraft = False\<rparr> of
             Inl e \<Rightarrow> (Inl e, db)
           | Inr (revision, generation, db1) \<Rightarrow>
               (Inr (revision, Some generation, False),
                audit_router key actorId
                  (if emergency_reason decision \<noteq> None then ''router.change_emergency_applied'' else ''router.change_approved'')
                  (update_change (ch_id change) (\<lambda>c. c\<lparr>ch_status := Applied, ch_decidedBy := Some actorId, ch_decidedAt := Some now,
                     ch_appliedRevision := Some revision,
                     ch_decisionNote := (case decision of Approve note \<Rightarrow> note | Emergency _ \<Rightarrow> None),
                     ch_emergencyReason := emergency_reason decision\<rparr>) db1))))"

definition approveChange ::
  "AuthorityContext option \<Rightarrow> int \<Rightarrow> routing_db \<Rightarrow> string \<Rightarrow> string \<Rightarrow> string \<Rightarrow> decision
   \<Rightarrow> (thrown + int \<times> int option \<times> bool) \<times> routing_db" where
  "approveChange ctx now db key changeId actorId decision =
     (case lockRouter ctx db key of
        Inl e \<Rightarrow> (Inl e, db)
      | Inr router \<Rightarrow>
       (case lockChange db key changeId of
          Inl e \<Rightarrow> (Inl e, db)
        | Inr change \<Rightarrow>
            if ch_status change = Applied \<and> ch_decidedBy change = Some actorId \<and> ch_kind change = Publish
               \<and> (\<not> falsy (ch_emergencyReason change)) = (emergency_reason decision \<noteq> None)
            then (Inr (the (ch_appliedRevision change),
                    map_option rv_generation (List.find (\<lambda>v. rv_routerId v = key \<and> rv_revision v = the (ch_appliedRevision change))
                      (db_revisions db)), True), db)
            else if ch_status change \<noteq> Pending then (Inl (closed_error change), db)
            else if emergency_reason decision = None \<and> ch_submittedBy change = actorId
            then (Inl (ControllerError ''The submitter cannot approve their own change request. Ask another administrator, or use emergency apply.''
                    403 ''router_change_request_self_approval'' []), db)
            else approve_pending ctx now db key router change actorId decision))"

definition closeChange ::
  "AuthorityContext option \<Rightarrow> int \<Rightarrow> routing_db \<Rightarrow> string \<Rightarrow> string \<Rightarrow> string \<Rightarrow> ChangeStatus \<Rightarrow> string option \<Rightarrow> thrown + routing_db" where
  "closeChange ctx now db key changeId actorId status note =
     and_then (lockRouter ctx db key) (\<lambda>_.
     and_then (lockChange db key changeId) (\<lambda>change.
       if ch_status change \<noteq> Pending then Inl (closed_error change)
       else if status = Withdrawn \<and> ch_submittedBy change \<noteq> actorId
       then Inl (ControllerError ''Only the submitter can withdraw a change request.'' 403 ''router_change_request_not_submitter'' [])
       else if status = Rejected \<and> ch_submittedBy change = actorId
       then Inl (ControllerError ''Withdraw your own change request instead of rejecting it.'' 403 ''router_change_request_self_approval'' [])
       else Inr (audit_router key actorId (''router.change_'' @ status_name status)
         (update_change changeId (\<lambda>c. c\<lparr>ch_status := status, ch_decidedBy := Some actorId, ch_decidedAt := Some now,
            ch_decisionNote := note\<rparr>) db))))"

definition rejectChange ::
  "AuthorityContext option \<Rightarrow> int \<Rightarrow> routing_db \<Rightarrow> string \<Rightarrow> string \<Rightarrow> string \<Rightarrow> string \<Rightarrow> thrown + routing_db" where
  "rejectChange ctx now db key changeId actorId note = closeChange ctx now db key changeId actorId Rejected (Some note)"

definition withdrawChange ::
  "AuthorityContext option \<Rightarrow> int \<Rightarrow> routing_db \<Rightarrow> string \<Rightarrow> string \<Rightarrow> string \<Rightarrow> thrown + routing_db" where
  "withdrawChange ctx now db key changeId actorId = closeChange ctx now db key changeId actorId Withdrawn None"

definition revert_unavailable :: "string \<Rightarrow> thrown" where
  "revert_unavailable message = ConflictError message ''router_revert_unavailable'' []"

definition revertChange ::
  "AuthorityContext option \<Rightarrow> int \<Rightarrow> string \<Rightarrow> routing_db \<Rightarrow> string \<Rightarrow> string \<Rightarrow> string \<Rightarrow> string
   \<Rightarrow> thrown + (int \<times> int) \<times> routing_db" where
  "revertChange ctx now revertId db key changeId actorId reason =
     and_then (lockRouter ctx db key) (\<lambda>router.
     and_then (lockChange db key changeId) (\<lambda>change.
       if ch_kind change \<noteq> Publish \<or> ch_status change \<noteq> Applied \<or> ch_baseRevision change = None
          \<or> ch_appliedRevision change \<noteq> rt_activeRevision router
       then Inl (revert_unavailable ''Only the change that produced the active revision can be reverted without approval.'')
       else
        (let baseRevision = the (ch_baseRevision change) in
         case List.find (\<lambda>v. rv_routerId v = key \<and> rv_revision v = baseRevision) (db_revisions db) of
           None \<Rightarrow> Inl (revert_unavailable (''Router revision '' @ int_text baseRevision @ '' is no longer available.''))
         | Some base \<Rightarrow>
          (case resolvePublication ctx now db key (rv_snapshot base) False of
             Inl e \<Rightarrow> Inl (if is_validation e
               then revert_unavailable (''Router revision '' @ int_text baseRevision @ '' can no longer be applied: '' @
                 (case e of ControllerError message _ _ _ \<Rightarrow> message | _ \<Rightarrow> []))
               else e)
           | Inr (snapshot, context, endpointIds) \<Rightarrow>
              (let row = \<lparr>ch_id = revertId, ch_routerId = key, ch_kind = Revert, ch_status = Applied,
                     ch_sourceDraftRevision = None, ch_baseRevision = rt_activeRevision router, ch_snapshot = snapshot,
                     ch_endpointIds = endpointIds, ch_context = Some context, ch_ticket = ch_ticket change, ch_reason = reason,
                     ch_submittedBy = actorId, ch_decidedBy = Some actorId, ch_decidedAt = Some now, ch_decisionNote = None,
                     ch_emergencyReason = None, ch_appliedRevision = None, ch_revertsChangeRequestId = Some changeId\<rparr>
               in and_then (applySnapshot now (db\<lparr>db_changes := db_changes db @ [row]\<rparr>) router
                    \<lparr>ap_snapshot = snapshot, ap_context = Some context, ap_changeId = revertId, ap_actorId = actorId,
                      ap_sourceDraftRevision = rt_draftRevision router + 1, ap_requestDraftRevision = rt_draftRevision router,
                      ap_rollbackRevision = Some baseRevision, ap_replaceDraft = True\<rparr>) (\<lambda>(revision, generation, db1).
                  let db2 = update_change revertId (\<lambda>c. c\<lparr>ch_appliedRevision := Some revision\<rparr>) db1;
                      db3 = db2\<lparr>db_changes := map (\<lambda>c. if ch_routerId c = key \<and> ch_status c = Pending
                        then c\<lparr>ch_status := Superseded, ch_decidedAt := Some now,
                          ch_decisionNote := Some ''The active Router revision was reverted.''\<rparr> else c) (db_changes db2)\<rparr>
                  in Inr ((revision, generation), audit_router key actorId ''router.change_reverted'' db3)))))))"

section \<open>Rollout\<close>

datatype RouterRolloutState = Unpublished | Distributing | Active | Failed

definition runner_converged :: "int \<Rightarrow> int \<Rightarrow> runner_row \<Rightarrow> bool" where
  "runner_converged now generation r = (rn_appliedGeneration r \<ge> generation \<and>
     (case rn_lastHeartbeatAt r of None \<Rightarrow> False | Some beat \<Rightarrow> now - beat < 60000))"

definition routerRolloutState :: "int \<Rightarrow> router_row \<Rightarrow> runner_row list \<Rightarrow> RouterRolloutState" where
  "routerRolloutState now router runners =
     (if rt_activeRevision router = None \<or> rt_activeRevision router = Some 0 then Unpublished
      else if runners \<noteq> [] \<and> list_all (runner_converged now (rt_desiredGeneration router)) runners then Active
      else if \<not> falsy (rt_rolloutError router) then Failed else Distributing)"

text \<open>The Runners of the pools allocated to a Project.\<close>

definition allocated_runners :: "routing_db \<Rightarrow> string \<Rightarrow> runner_row list" where
  "allocated_runners db projectId = filter (\<lambda>rn. list_ex (\<lambda>pool. pool_id pool = rn_poolId rn \<and>
     list_ex (\<lambda>pr. pr_id pr = projectId \<and> projectPoolAllocation (pd_pools (db_projects db)) pr pool)
       (pd_projects (db_projects db))) (pd_pools (db_projects db))) (db_runners db)"

section \<open>Bindings, deletion\<close>

definition revision_in_use :: "string \<Rightarrow> thrown" where
  "revision_in_use message = ConflictError message ''revision_in_use'' []"

definition deleteRevision ::
  "AuthorityContext option \<Rightarrow> int \<Rightarrow> routing_db \<Rightarrow> string \<Rightarrow> int \<Rightarrow> string \<Rightarrow> thrown + routing_db" where
  "deleteRevision ctx now db key revision actorId =
     and_then (assertResourceWriteAccess (owners db) ctx Router key) (\<lambda>_.
      case List.find (\<lambda>r. rt_id r = key) (db_routers db) of
        None \<Rightarrow> Inl (NotFoundError ''Router'' key)
      | Some router \<Rightarrow>
         if rt_deletedAt router \<noteq> None then Inl (NotFoundError ''Router'' key)
         else if \<not> list_ex (\<lambda>v. rv_routerId v = key \<and> rv_revision v = revision) (db_revisions db)
         then Inl (NotFoundError ''Router revision'' (int_text revision))
         else if rt_activeRevision router = Some revision
         then Inl (revision_in_use ''The current Router revision cannot be deleted. Publish another revision first.'')
         else if list_ex (\<lambda>c. ch_routerId c = key \<and> ch_status c = Applied \<and> ch_kind c = Publish
            \<and> ch_appliedRevision c = Some (case rt_activeRevision router of None \<Rightarrow> - 1 | Some n \<Rightarrow> n)
            \<and> ch_baseRevision c = Some revision) (db_changes db)
         then Inl (revision_in_use ''This revision is the pre-approved rollback target of the active change.'')
         else if routerRolloutState now router (allocated_runners db (rt_projectId router)) \<noteq> Active
            \<or> now - rt_updatedAt router < 300000
         then Inl (revision_in_use ''Wait for Runner convergence and the five-minute call retention window before deleting historical revisions.'')
         else if list_ex (\<lambda>a. as_routerId a = key \<and> as_routerRevision a = revision \<and> \<not> as_completed a
            \<and> as_occurredAt a \<ge> now - 300000) (db_assignments db)
         then Inl (revision_in_use ''This revision still has in-flight calls.'')
         else Inr ((audit_router key actorId ''router.revision_deleted'' db)
            \<lparr>db_revisions := filter (\<lambda>v. \<not> (rv_routerId v = key \<and> rv_revision v = revision)) (db_revisions db)\<rparr>))"

definition rebind :: "string \<Rightarrow> string list \<Rightarrow> endpoint_row list \<Rightarrow> endpoint_row \<Rightarrow> endpoint_row" where
  "rebind key requested visible e =
     (if ep_id e \<in> ep_id ` set visible
      then if ep_id e \<in> set requested then e\<lparr>ep_trafficRouterId := Some key\<rparr>
           else if ep_trafficRouterId e = Some key then e\<lparr>ep_trafficRouterId := None\<rparr> else e
      else e)"

definition bind_router ::
  "AuthorityContext option \<Rightarrow> routing_db \<Rightarrow> string \<Rightarrow> string list \<Rightarrow> string \<Rightarrow> thrown + bool \<times> routing_db" where
  "bind_router ctx db key endpointIds actorId =
     and_then (assertResourceWriteAccess (owners db) ctx Router key) (\<lambda>_.
      case List.find (\<lambda>r. rt_id r = key) (db_routers db) of
        None \<Rightarrow> Inl (NotFoundError ''Router'' key)
      | Some router \<Rightarrow>
         if rt_deletedAt router \<noteq> None then Inl (NotFoundError ''Router'' key)
         else
          (let current = (case rt_activeSnapshot router of Some s \<Rightarrow> s | None \<Rightarrow> rt_draft router) in
           and_then (assertDraftGuardrailsVisible ctx db current) (\<lambda>_.
           and_then (resourceWritePredicate ctx) (\<lambda>writable.
             let visible = filter (\<lambda>e. \<not> ep_deleted e \<and> writable (Some (ep_projectId e))) (db_endpoints db);
                 requested = js_unique endpointIds;
                 selected = filter (\<lambda>e. ep_id e \<in> set requested) visible;
                 issues = capabilityIssues current (map selector_endpoint selected)
             in if length selected \<noteq> length requested then Inl (ValidationError ''Endpoint was not found.'' [])
                else if sort (map ep_id (filter (\<lambda>e. ep_trafficRouterId e = Some key) visible)) = sort requested
                then Inr (False, db)
                else if issues \<noteq> [] then Inl (validation_of issues)
                else (case List.find (\<lambda>e. ep_id e \<in> set requested \<and> \<not> falsy (ep_trafficRouterId e)
                        \<and> ep_trafficRouterId e \<noteq> Some key) visible of
                    Some e \<Rightarrow> Inl (ConflictError (ep_name e @ '' is already bound to another Router. Unbind it there first.'')
                      ''endpoint_router_conflict'' [])
                  | None \<Rightarrow>
                     and_then (advance (db\<lparr>db_endpoints := map (rebind key requested visible) (db_endpoints db)\<rparr>))
                       (\<lambda>(generation, db1).
                        Inr (True, audit_router key actorId ''router.source_endpoints_changed''
                          (update_router key (\<lambda>r. r\<lparr>rt_desiredGeneration := generation, rt_rolloutError := None\<rparr>) db1))))))))"

definition remove_router ::
  "AuthorityContext option \<Rightarrow> int \<Rightarrow> routing_db \<Rightarrow> string \<Rightarrow> string \<Rightarrow> thrown + routing_db" where
  "remove_router ctx now db key actorId =
     and_then (assertResourceWriteAccess (owners db) ctx Router key) (\<lambda>_.
      if \<not> list_ex (\<lambda>r. rt_id r = key \<and> rt_deletedAt r = None) (db_routers db) then Inl (NotFoundError ''Router'' key)
      else if list_ex (\<lambda>e. ep_trafficRouterId e = Some key \<and> \<not> ep_deleted e) (db_endpoints db)
      then Inl (ConflictError ''Unbind Endpoints before deleting this Router.'' ''router_in_use'' [])
      else and_then (advance db) (\<lambda>(generation, db1).
        Inr (audit_router key actorId ''router.deleted''
          (update_router key (\<lambda>r. r\<lparr>rt_deletedAt := Some now, rt_desiredGeneration := generation\<rparr>) db1))))"

section \<open>Snapshots for Runners\<close>

record RuntimeRouter =
  rr_routerId :: string
  rr_revision :: int
  rr_endpointIds :: "string list"
  rr_routes :: "(TrafficRoute \<times> (RouteTarget \<times> string) list) list"

text \<open>The version a target names, among those of Guardrails that are not deleted, with its owner.\<close>

definition serving_version :: "routing_db \<Rightarrow> RouteTarget \<Rightarrow> (version_row \<times> guardrail_row) option" where
  "serving_version db target = target_version (concat (map (\<lambda>v. map (Pair v)
     (filter (\<lambda>g. gr_id g = gv_guardrailId v \<and> \<not> gr_deleted g) (db_guardrails db))) (db_versions db))) target"

definition target_unservable :: "routing_db \<Rightarrow> router_row \<Rightarrow> RouteTarget \<Rightarrow> bool" where
  "target_unservable db router target = (case serving_version db target of
     None \<Rightarrow> tg_weightBps target > 0
   | Some (v, g) \<Rightarrow> (tg_weightBps target > 0 \<and> falsy (gv_artifactId v)) \<or> gr_projectId g \<noteq> Some (rt_projectId router))"

definition serving_artifact :: "routing_db \<Rightarrow> RouteTarget \<Rightarrow> string" where
  "serving_artifact db t = (case serving_version db t of
     Some (v, _) \<Rightarrow> (case gv_artifactId v of Some a \<Rightarrow> a | None \<Rightarrow> []) | None \<Rightarrow> [])"

definition runtime_router :: "routing_db \<Rightarrow> string list \<Rightarrow> router_row \<Rightarrow> RuntimeRouter list" where
  "runtime_router db projectIds router = (case (rt_activeSnapshot router, rt_activeRevision router) of
     (Some snapshot, Some revision) \<Rightarrow>
       if rt_deletedAt router \<noteq> None \<or> rt_projectId router \<notin> set projectIds
          \<or> list_ex (\<lambda>r. list_ex (target_unservable db router) (tr_targets r)) snapshot
       then []
       else [\<lparr>rr_routerId = rt_id router, rr_revision = revision,
          rr_endpointIds = map ep_id (filter (\<lambda>e. \<not> ep_deleted e \<and> ep_projectId e \<in> set projectIds
             \<and> ep_trafficRouterId e = Some (rt_id router) \<and> ep_projectId e = rt_projectId router) (db_endpoints db)),
          rr_routes = map (\<lambda>r. (r, map (\<lambda>t. (t, serving_artifact db t)) (tr_targets r))) snapshot\<rparr>]
   | _ \<Rightarrow> [])"

definition runtimeSnapshots :: "routing_db \<Rightarrow> string list \<Rightarrow> RuntimeRouter list" where
  "runtimeSnapshots db projectIds =
     (if projectIds = [] then [] else concat (map (runtime_router db projectIds) (db_routers db)))"

end
