(* ===== verification/Router_Invariants.thy ===== *)
theory Router_Invariants
  imports Router_Service
begin

text \<open>
  What the Router service guarantees in every run: one pending change request per Router, review by
  a second person or a recorded emergency behind every published change, and an active snapshot
  that is exactly the snapshot of the applied request behind the active revision.

  The steps are the operations of \<^verbatim>\<open>TrafficRoutingService\<close> with arbitrary arguments, fresh
  identifiers, and the rest of the controller changing the tables it owns.
\<close>

section \<open>Steps\<close>

definition fresh_change :: "string \<Rightarrow> routing_db \<Rightarrow> bool" where
  "fresh_change i db = (i \<notin> ch_id ` set (db_changes db))"

inductive router_step :: "routing_db \<Rightarrow> routing_db \<Rightarrow> bool" where
  step_create: "uuid \<notin> rt_id ` set (db_routers db) \<Longrightarrow>
     create_router ctx now uuid db name description draft actor eps = Inr db' \<Longrightarrow> router_step db db'"
| step_save: "save_router ctx now db key n draft actor = Inr db' \<Longrightarrow> router_step db db'"
| step_submit: "fresh_change i db \<Longrightarrow> submitChange ctx now i db key input actor = Inr db' \<Longrightarrow> router_step db db'"
| step_approve: "router_step db (snd (approveChange ctx now db key i actor decision))"
| step_close: "status \<in> {Rejected, Withdrawn} \<Longrightarrow>
     closeChange ctx now db key i actor status note = Inr db' \<Longrightarrow> router_step db db'"
| step_revert: "fresh_change i db \<Longrightarrow> revertChange ctx now i db key changeId actor reason = Inr (p, db') \<Longrightarrow>
     router_step db db'"
| step_delete_revision: "deleteRevision ctx now db key n actor = Inr db' \<Longrightarrow> router_step db db'"
| step_bind: "bind_router ctx db key eps actor = Inr (b, db') \<Longrightarrow> router_step db db'"
| step_remove: "remove_router ctx now db key actor = Inr db' \<Longrightarrow> router_step db db'"
| step_elsewhere: "db_routers db' = db_routers db \<Longrightarrow> db_changes db' = db_changes db \<Longrightarrow>
     db_revisions db' = db_revisions db \<Longrightarrow> router_step db db'"

definition router_init :: "routing_db \<Rightarrow> bool" where
  "router_init db \<longleftrightarrow> db_routers db = [] \<and> db_changes db = [] \<and> db_revisions db = []"

section \<open>The invariant\<close>

text \<open>An applied change request was decided by someone else than its submitter, or as an emergency
  with a recorded reason, or reverts a published change.\<close>

definition reviewed :: "change_row \<Rightarrow> bool" where
  "reviewed c \<longleftrightarrow> (case ch_kind c of
     Publish \<Rightarrow> \<exists>d. ch_decidedBy c = Some d \<and> (d \<noteq> ch_submittedBy c \<or> ch_emergencyReason c \<noteq> None)
   | Revert \<Rightarrow> ch_revertsChangeRequestId c \<noteq> None)"

text \<open>The rows that matter, as predicates on the three tables.\<close>

definition changes_ok :: "change_row list \<Rightarrow> bool" where
  "changes_ok cs \<longleftrightarrow> distinct (map ch_id cs) \<and>
     (\<forall>key. length (filter (\<lambda>c. ch_routerId c = key \<and> ch_status c = Pending) cs) \<le> 1) \<and>
     (\<forall>c\<in>set cs. ch_status c = Applied \<longrightarrow> reviewed c) \<and>
     (\<forall>c\<in>set cs. ch_status c = Pending \<longrightarrow> ch_kind c = Publish)"

definition recorded :: "change_row list \<Rightarrow> revision_row \<Rightarrow> bool" where
  "recorded cs v \<longleftrightarrow> routingIssues (rv_snapshot v) True = [] \<and>
     (\<exists>c\<in>set cs. ch_id c = rv_changeRequestId v \<and> ch_routerId c = rv_routerId v \<and> ch_status c = Applied \<and>
        ch_appliedRevision c = Some (rv_revision v) \<and> ch_snapshot c = rv_snapshot v)"

definition active_ok :: "revision_row list \<Rightarrow> router_row \<Rightarrow> bool" where
  "active_ok vs r \<longleftrightarrow> (case rt_activeRevision r of
     None \<Rightarrow> rt_activeSnapshot r = None \<and> (\<forall>v\<in>set vs. rv_routerId v \<noteq> rt_id r)
   | Some n \<Rightarrow> (\<exists>v\<in>set vs. rv_routerId v = rt_id r \<and> rv_revision v = n \<and> rt_activeSnapshot r = Some (rv_snapshot v)) \<and>
       (\<forall>v\<in>set vs. rv_routerId v = rt_id r \<longrightarrow> rv_revision v \<le> n))"

definition tables_ok :: "router_row list \<Rightarrow> change_row list \<Rightarrow> revision_row list \<Rightarrow> bool" where
  "tables_ok rs cs vs \<longleftrightarrow> distinct (map rt_id rs) \<and> changes_ok cs \<and>
     distinct (map (\<lambda>v. (rv_routerId v, rv_revision v)) vs) \<and>
     (\<forall>v\<in>set vs. recorded cs v \<and> rv_routerId v \<in> rt_id ` set rs) \<and> (\<forall>r\<in>set rs. active_ok vs r)"

definition router_inv :: "routing_db \<Rightarrow> bool" where
  "router_inv db \<longleftrightarrow> tables_ok (db_routers db) (db_changes db) (db_revisions db)"

section \<open>What the operations do to the three tables\<close>

lemma update_router_tables [simp]:
  "db_changes (update_router key f db) = db_changes db" "db_revisions (update_router key f db) = db_revisions db"
  "db_routers (update_router key f db) = map (\<lambda>r. if rt_id r = key then f r else r) (db_routers db)"
  by (simp_all add: update_router_def)

lemma update_change_tables [simp]:
  "db_routers (update_change key f db) = db_routers db" "db_revisions (update_change key f db) = db_revisions db"
  "db_changes (update_change key f db) = map (\<lambda>c. if ch_id c = key then f c else c) (db_changes db)"
  by (simp_all add: update_change_def)

lemma audit_tables [simp]:
  "db_routers (audit_router key a k db) = db_routers db" "db_changes (audit_router key a k db) = db_changes db"
  "db_revisions (audit_router key a k db) = db_revisions db"
  by (simp_all add: audit_router_def)

lemma advance_Inr:
  "advance db = Inr (g, db') \<longleftrightarrow> (\<exists>n. db_generation db = Some n \<and> g = n + 1 \<and> db' = db\<lparr>db_generation := Some (n + 1)\<rparr>)"
  by (auto simp: advance_def split: option.splits)

text \<open>Routers keep their identity and their active revision.\<close>

lemma active_ok_cong:
  "rt_id r' = rt_id r \<Longrightarrow> rt_activeRevision r' = rt_activeRevision r \<Longrightarrow>
   rt_activeSnapshot r' = rt_activeSnapshot r \<Longrightarrow> active_ok vs r' = active_ok vs r"
  unfolding active_ok_def by (cases "rt_activeRevision r") simp_all

lemma tables_ok_routers:
  assumes "tables_ok rs cs vs"
    and "\<And>r. r \<in> set rs \<Longrightarrow> rt_id (f r) = rt_id r \<and> rt_activeRevision (f r) = rt_activeRevision r \<and>
      rt_activeSnapshot (f r) = rt_activeSnapshot r"
  shows "tables_ok (map f rs) cs vs"
proof -
  have ids: "map rt_id (map f rs) = map rt_id rs" using assms(2) by simp
  then have "rt_id ` set (map f rs) = rt_id ` set rs" by (metis list.set_map)
  moreover have "active_ok vs (f r)" if "r \<in> set rs" for r
    using assms that active_ok_cong [of "f r" r vs] by (simp add: tables_ok_def)
  ultimately show ?thesis using assms(1) ids by (auto simp: tables_ok_def simp del: map_map)
qed

lemma tables_ok_new_router:
  assumes "tables_ok rs cs vs" "rt_id r \<notin> rt_id ` set rs" "rt_activeRevision r = None" "rt_activeSnapshot r = None"
  shows "tables_ok (rs @ [r]) cs vs"
proof -
  have "rv_routerId v \<noteq> rt_id r" if "v \<in> set vs" for v
    using assms(1,2) that by (metis tables_ok_def)
  then have "active_ok vs r" using assms(3,4) by (simp add: active_ok_def)
  then show ?thesis using assms(1,2) by (auto simp: tables_ok_def)
qed

text \<open>Pending requests may be closed, and one may be added where none is pending.\<close>

lemma filter_map_shrinks:
  assumes "\<And>x. x \<in> set xs \<Longrightarrow> P (g x) \<Longrightarrow> P x"
  shows "length (filter P (map g xs)) \<le> length (filter P xs)"
proof -
  have "filter (P \<circ> g) xs = filter (P \<circ> g) (filter P xs)"
    using assms by (auto intro: filter_cong)
  then show ?thesis by (metis filter_map length_filter_le length_map)
qed

lemma tables_ok_close:
  assumes "tables_ok rs cs vs"
    and pending: "\<And>c. c \<in> set cs \<Longrightarrow> P c \<Longrightarrow> ch_status c = Pending"
    and f: "\<And>c. ch_id (f c) = ch_id c \<and> ch_routerId (f c) = ch_routerId c \<and>
      ch_status (f c) \<noteq> Pending \<and> ch_status (f c) \<noteq> Applied"
  shows "tables_ok rs (map (\<lambda>c. if P c then f c else c) cs) vs"
proof -
  let ?cs = "map (\<lambda>c. if P c then f c else c) cs"
  have ids: "map ch_id ?cs = map ch_id cs" using f by (simp add: comp_def if_distrib cong: if_cong)
  have "length (filter (\<lambda>c. ch_routerId c = key \<and> ch_status c = Pending) ?cs) \<le>
      length (filter (\<lambda>c. ch_routerId c = key \<and> ch_status c = Pending) cs)" for key
    using f by (intro filter_map_shrinks) (auto split: if_splits)
  then have one: "length (filter (\<lambda>c. ch_routerId c = key \<and> ch_status c = Pending) ?cs) \<le> 1" for key
    using assms(1) le_trans unfolding tables_ok_def changes_ok_def by blast
  have applied: "ch_status c = Applied \<Longrightarrow> c \<in> set ?cs \<longleftrightarrow> c \<in> set cs" for c
    using pending f by (auto simp: image_iff split: if_splits)
  then have rec: "recorded ?cs v \<longleftrightarrow> recorded cs v" for v
    unfolding recorded_def by blast
  have "ch_kind c = Publish" if "c \<in> set ?cs" "ch_status c = Pending" for c
    using assms(1) that f by (auto simp: tables_ok_def changes_ok_def split: if_splits)
  then have "changes_ok ?cs"
    using assms(1) one applied unfolding tables_ok_def changes_ok_def ids by blast
  then show ?thesis using assms(1) rec by (simp add: tables_ok_def)
qed

lemma tables_ok_submit:
  assumes "tables_ok rs cs vs" "ch_id c \<notin> ch_id ` set cs" "ch_status c = Pending" "ch_kind c = Publish"
    and "\<forall>d\<in>set cs. \<not> (ch_routerId d = ch_routerId c \<and> ch_status d = Pending)"
  shows "tables_ok rs (cs @ [c]) vs"
proof -
  have "changes_ok (cs @ [c])"
    using assms by (auto simp: tables_ok_def changes_ok_def filter_empty_conv)
  then show ?thesis using assms(1) by (auto simp: tables_ok_def recorded_def)
qed

lemma tables_ok_delete_revision:
  assumes "tables_ok rs cs vs" "\<forall>r\<in>set rs. rt_id r = key \<longrightarrow> rt_activeRevision r \<noteq> Some n"
  shows "tables_ok rs cs (filter (\<lambda>v. \<not> (rv_routerId v = key \<and> rv_revision v = n)) vs)"
proof -
  have "active_ok (filter (\<lambda>v. \<not> (rv_routerId v = key \<and> rv_revision v = n)) vs) r" if "r \<in> set rs" for r
    using assms that by (fastforce simp: tables_ok_def active_ok_def split: option.splits)
  then show ?thesis using assms(1) by (auto simp: tables_ok_def distinct_map_filter)
qed

text \<open>A revision is published on top of the active one.\<close>

definition next_revision :: "router_row \<Rightarrow> int" where
  "next_revision r = (case rt_activeRevision r of None \<Rightarrow> 0 | Some n \<Rightarrow> n) + 1"

lemma tables_ok_publish:
  assumes ok: "tables_ok rs cs vs" and r: "r \<in> set rs"
    and v: "rv_routerId v = rt_id r" "rv_revision v = next_revision r"
    and cs': "changes_ok cs'" "\<And>w. recorded cs w \<Longrightarrow> recorded cs' w" "recorded cs' v"
    and f: "rt_id (f r) = rt_id r" "rt_activeRevision (f r) = Some (rv_revision v)"
      "rt_activeSnapshot (f r) = Some (rv_snapshot v)"
  shows "tables_ok (map (\<lambda>x. if rt_id x = rt_id r then f x else x) rs) cs' (vs @ [v])"
proof -
  let ?g = "\<lambda>x. if rt_id x = rt_id r then f x else x"
  have same: "x = r" if "x \<in> set rs" "rt_id x = rt_id r" for x
    using ok r that by (auto simp: tables_ok_def inj_on_def distinct_map)
  have ids: "map rt_id (map ?g rs) = map rt_id rs" using same f(1) by (auto)
  have idset: "rt_id ` set (map ?g rs) = rt_id ` set rs" using ids by (metis list.set_map)
  have below: "rv_revision w < next_revision r" if "w \<in> set vs" "rv_routerId w = rt_id r" for w
    using ok r that by (auto simp: tables_ok_def active_ok_def next_revision_def split: option.splits)
  have active: "active_ok (vs @ [v]) (?g x)" if x: "x \<in> set rs" for x
  proof (cases "rt_id x = rt_id r")
    case True
    then have "x = r" using same x by blast
    then show ?thesis using f v below by (auto simp: active_ok_def less_imp_le)
  next
    case False
    have "active_ok vs x" using ok x by (simp add: tables_ok_def)
    then show ?thesis using False v(1) by (auto simp: active_ok_def split: option.splits)
  qed
  have keys: "distinct (map (\<lambda>v. (rv_routerId v, rv_revision v)) (vs @ [v]))"
    using ok below v by (force simp: tables_ok_def)
  show ?thesis
    unfolding tables_ok_def ids idset
  proof (intro conjI ballI)
    show "distinct (map rt_id rs)" using ok by (simp add: tables_ok_def)
    show "recorded cs' w" "rv_routerId w \<in> rt_id ` set rs" if "w \<in> set (vs @ [v])" for w
      using that ok cs' v r by (auto simp: tables_ok_def)
    show "active_ok (vs @ [v]) x" if "x \<in> set (map ?g rs)" for x
      using that active by (metis (no_types, lifting) imageE list.set_map)
  qed (use keys cs' in auto)
qed

lemmas service_cases = and_then_eq_Inr Let_def

lemma lockRouter_Inr: "lockRouter ctx db key = Inr r \<Longrightarrow> r \<in> set (db_routers db) \<and> rt_id r = key \<and> rt_deletedAt r = None"
  by (auto simp: lockRouter_def service_cases dest!: find_Some_mem split: option.splits if_splits)

lemma lockChange_Inr: "lockChange db key i = Inr c \<Longrightarrow> c \<in> set (db_changes db) \<and> ch_id c = i \<and> ch_routerId c = key"
  by (auto simp: lockChange_def dest!: find_Some_mem split: option.splits)

lemma resolvePublication_Inr:
  "resolvePublication ctx now db key draft vi = Inr (snapshot, context, ids) \<Longrightarrow>
   snapshot = draft \<and> routingIssues draft True = []"
  by (auto simp: resolvePublication_def service_cases split: if_splits)

lemma published_row_simps [simp]:
  "rt_id (published_row now n g input r) = rt_id r"
  "rt_activeRevision (published_row now n g input r) = Some n"
  "rt_activeSnapshot (published_row now n g input r) = Some (ap_snapshot input)"
  "rt_desiredGeneration (published_row now n g input r) = g"
  by (simp_all add: published_row_def)

lemma applySnapshot_Inr:
  assumes "applySnapshot now db router input = Inr (revision, generation, db')"
  shows "revision = next_revision router" "db_changes db' = db_changes db"
    and "db_generation db = Some (generation - 1)" "db_generation db' = Some generation"
    and "db_routers db' = map (\<lambda>r. if rt_id r = rt_id router then published_row now revision generation input r else r) (db_routers db)"
    and "\<exists>v. db_revisions db' = db_revisions db @ [v] \<and> rv_routerId v = rt_id router \<and> rv_revision v = revision \<and>
      rv_snapshot v = ap_snapshot input \<and> rv_changeRequestId v = ap_changeId input \<and> rv_generation v = generation"
  using assms by (auto simp: applySnapshot_def service_cases advance_Inr next_revision_def update_router_def)

lemma save_inv: "router_inv db \<Longrightarrow> save_router ctx now db key n draft actor = Inr db' \<Longrightarrow> router_inv db'"
  by (auto simp: save_router_def service_cases router_inv_def intro!: tables_ok_routers split: if_splits)

lemma create_inv:
  "router_inv db \<Longrightarrow> uuid \<notin> rt_id ` set (db_routers db) \<Longrightarrow>
   create_router ctx now uuid db name description draft actor eps = Inr db' \<Longrightarrow> router_inv db'"
  by (auto simp: create_router_def service_cases router_inv_def intro!: tables_ok_new_router
      split: if_splits option.splits)

lemma bind_inv: "router_inv db \<Longrightarrow> bind_router ctx db key eps actor = Inr (b, db') \<Longrightarrow> router_inv db'"
  by (auto simp: bind_router_def service_cases router_inv_def advance_Inr intro!: tables_ok_routers
      split: if_splits option.splits)

lemma remove_inv: "router_inv db \<Longrightarrow> remove_router ctx now db key actor = Inr db' \<Longrightarrow> router_inv db'"
  by (auto simp: remove_router_def service_cases router_inv_def advance_Inr intro!: tables_ok_routers split: if_splits)

lemma submitChange_Inr:
  assumes "submitChange ctx now i db key input actor = Inr db'"
  obtains router row where "lockRouter ctx db key = Inr router"
    and "\<forall>d\<in>set (db_changes db). \<not> (ch_routerId d = key \<and> ch_status d = Pending)"
    and "db_changes db' = db_changes db @ [row]" "db_revisions db' = db_revisions db"
    and "\<exists>f. db_routers db' = map f (db_routers db) \<and> (\<forall>r. rt_id (f r) = rt_id r \<and>
       rt_activeRevision (f r) = rt_activeRevision r \<and> rt_activeSnapshot (f r) = rt_activeSnapshot r)"
    and "ch_id row = i" "ch_routerId row = key" "ch_kind row = Publish" "ch_status row = Pending"
    and "ch_snapshot row = sub_reviewedSnapshot input" "ch_submittedBy row = actor"
    and "ch_baseRevision row = rt_activeRevision router" "routingIssues (ch_snapshot row) True = []"
proof -
  obtain router where r: "lockRouter ctx db key = Inr router"
    using assms by (auto simp: submitChange_def and_then_eq_Inr)
  have none: "List.find (\<lambda>c. ch_routerId c = key \<and> ch_status c = Pending) (db_changes db) = None"
    using assms r by (auto simp: submitChange_def and_then_eq_Inr split: if_splits option.splits)
  obtain source where src: "submission_source db key router input = Inr source"
    using assms r none by (auto simp: submitChange_def and_then_eq_Inr split: if_splits)
  obtain snapshot rc eps where p: "resolvePublication ctx now db key source True = Inr (snapshot, rc, eps)"
    using assms r none src
    by (cases "resolvePublication ctx now db key source True") (auto simp: submitChange_def and_then_eq_Inr split: if_splits)
  define n where "n = rt_draftRevision router + (if sub_restore input \<noteq> None then 1 else 0)"
  define row where "row = \<lparr>ch_id = i, ch_routerId = key, ch_kind = Publish, ch_status = Pending,
     ch_sourceDraftRevision = Some n, ch_baseRevision = rt_activeRevision router,
     ch_snapshot = snapshot, ch_endpointIds = eps, ch_context = Some rc,
     ch_ticket = sub_ticket input, ch_reason = sub_reason input, ch_submittedBy = actor,
     ch_decidedBy = None, ch_decidedAt = None, ch_decisionNote = None, ch_emergencyReason = None,
     ch_appliedRevision = None, ch_revertsChangeRequestId = None\<rparr>"
  define f :: "router_row \<Rightarrow> router_row" where "f = (\<lambda>r. if sub_restore input \<noteq> None \<and> rt_id r = key
     then r\<lparr>rt_draft := snapshot, rt_draftRevision := n, rt_updatedAt := now\<rparr> else r)"
  have eqs: "db_changes db' = db_changes db @ [row]" "db_revisions db' = db_revisions db"
    "db_routers db' = map f (db_routers db)" "snapshot = sub_reviewedSnapshot input"
    using assms r none src p
    by (auto simp: submitChange_def and_then_eq_Inr Let_def row_def n_def f_def update_router_def audit_router_def
        split: if_splits)
  show thesis
  proof (rule that [OF r _ eqs(1,2)])
    show "\<forall>d\<in>set (db_changes db). \<not> (ch_routerId d = key \<and> ch_status d = Pending)"
      using none by (auto simp: find_None_iff)
    show "\<exists>f. db_routers db' = map f (db_routers db) \<and> (\<forall>r. rt_id (f r) = rt_id r \<and>
       rt_activeRevision (f r) = rt_activeRevision r \<and> rt_activeSnapshot (f r) = rt_activeSnapshot r)"
      by (rule exI [of _ f]) (simp add: eqs(3) f_def)
  qed (use eqs(4) resolvePublication_Inr [OF p] in \<open>simp_all add: row_def\<close>)
qed

lemma submit_inv:
  assumes "router_inv db" "fresh_change i db" "submitChange ctx now i db key input actor = Inr db'"
  shows "router_inv db'"
proof -
  obtain router row f where row: "\<forall>d\<in>set (db_changes db). \<not> (ch_routerId d = key \<and> ch_status d = Pending)"
    "db_changes db' = db_changes db @ [row]" "db_revisions db' = db_revisions db" "ch_id row = i" "ch_routerId row = key"
    "ch_status row = Pending" "ch_kind row = Publish" and f: "db_routers db' = map f (db_routers db)" "\<forall>r. rt_id (f r) = rt_id r \<and>
       rt_activeRevision (f r) = rt_activeRevision r \<and> rt_activeSnapshot (f r) = rt_activeSnapshot r"
    using assms(3) by (auto elim!: submitChange_Inr)
  have "tables_ok (db_routers db') (db_changes db) (db_revisions db)"
    using assms(1) f unfolding f(1) router_inv_def by (intro tables_ok_routers) auto
  then show ?thesis
    unfolding router_inv_def row using row assms(2) by (intro tables_ok_submit) (auto simp: fresh_change_def)
qed

lemma close_inv:
  assumes "router_inv db" "status \<in> {Rejected, Withdrawn}" "closeChange ctx now db key i actor status note = Inr db'"
  shows "router_inv db'"
proof -
  obtain change where c: "lockChange db key i = Inr change" "ch_status change = Pending"
    and db': "db' = audit_router key actor (''router.change_'' @ status_name status)
       (update_change i (\<lambda>c. c\<lparr>ch_status := status, ch_decidedBy := Some actor, ch_decidedAt := Some now,
          ch_decisionNote := note\<rparr>) db)"
    using assms(3) by (auto simp: closeChange_def and_then_eq_Inr split: if_splits)
  have "ch_status d = Pending" if "d \<in> set (db_changes db)" "ch_id d = i" for d
    using assms(1) lockChange_Inr [OF c(1)] c(2) that
    by (auto simp: router_inv_def tables_ok_def changes_ok_def distinct_map inj_on_def)
  then show ?thesis using assms(1,2) unfolding router_inv_def db'
    by (auto intro!: tables_ok_close)
qed

text \<open>Other requests keep their part in the history while one of them is decided.\<close>

lemma recorded_update:
  assumes "recorded cs v" "\<And>c. c \<in> set cs \<Longrightarrow> ch_status c = Applied \<Longrightarrow> c \<in> set cs'"
  shows "recorded cs' v"
  using assms by (auto simp: recorded_def)

lemma changes_ok_apply:
  assumes ok: "changes_ok cs" and c: "c \<in> set cs" "ch_status c = Pending"
    and g: "ch_id (g c) = ch_id c" "ch_status (g c) = Applied" "reviewed (g c)"
  shows "changes_ok (map (\<lambda>x. if ch_id x = ch_id c then g x else x) cs)"
    and "\<And>x. x \<in> set cs \<Longrightarrow> ch_status x = Applied \<Longrightarrow> x \<in> set (map (\<lambda>x. if ch_id x = ch_id c then g x else x) cs)"
    and "g c \<in> set (map (\<lambda>x. if ch_id x = ch_id c then g x else x) cs)"
proof -
  let ?h = "\<lambda>x. if ch_id x = ch_id c then g x else x"
  have same: "x = c" if "x \<in> set cs" "ch_id x = ch_id c" for x
    using ok c that by (auto simp: changes_ok_def distinct_map inj_on_def)
  have ids: "map ch_id (map ?h cs) = map ch_id cs" using same g(1) by auto
  have "length (filter (\<lambda>c. ch_routerId c = key \<and> ch_status c = Pending) (map ?h cs)) \<le>
      length (filter (\<lambda>c. ch_routerId c = key \<and> ch_status c = Pending) cs)" for key
  proof (rule filter_map_shrinks)
    fix x assume x: "x \<in> set cs" "ch_routerId (?h x) = key \<and> ch_status (?h x) = Pending"
    have "ch_id x \<noteq> ch_id c" using x same [of x] g(2) by auto
    then show "ch_routerId x = key \<and> ch_status x = Pending" using x by simp
  qed
  then have "length (filter (\<lambda>c. ch_routerId c = key \<and> ch_status c = Pending) (map ?h cs)) \<le> 1" for key
    using ok le_trans unfolding changes_ok_def by blast
  moreover have "reviewed x" if "x \<in> set (map ?h cs)" "ch_status x = Applied" for x
    using that ok same g by (auto simp: changes_ok_def split: if_splits)
  moreover have "ch_kind x = Publish" if "x \<in> set (map ?h cs)" "ch_status x = Pending" for x
  proof -
    obtain y where y: "y \<in> set cs" "x = ?h y" using \<open>x \<in> set (map ?h cs)\<close> by auto
    then have "ch_id y \<noteq> ch_id c" using same [of y] g(2) that(2) by auto
    then show ?thesis using ok y that(2) by (simp add: changes_ok_def)
  qed
  ultimately show "changes_ok (map ?h cs)" using ok unfolding changes_ok_def ids by blast
  show "x \<in> set (map ?h cs)" if "x \<in> set cs" "ch_status x = Applied" for x
  proof -
    have "ch_id x \<noteq> ch_id c" using that same [of x] c(2) by auto
    then show ?thesis using that(1) by (force simp: image_iff)
  qed
  show "g c \<in> set (map ?h cs)" using c(1) by (force simp: image_iff)
qed

lemma staleReason_None:
  "staleReason ctx now db router change = Inr None \<Longrightarrow>
   routingIssues (ch_snapshot change) True = [] \<and> rt_activeRevision router = ch_baseRevision change \<and>
   (\<exists>context. resolvePublication ctx now db (rt_id router) (ch_snapshot change) True =
      Inr (ch_snapshot change, context, sortedIds (ch_endpointIds change)))"
  by (auto simp: staleReason_def dest!: resolvePublication_Inr split: if_splits sum.splits thrown.splits prod.splits)

lemma approve_pending_cases:
  assumes "lockRouter ctx db key = Inr router" "lockChange db key i = Inr change" "ch_status change = Pending"
  obtains (unchanged) e where "approve_pending ctx now db key router change actor decision = (Inl e, db)"
  | (stale) e f db' where "approve_pending ctx now db key router change actor decision = (Inl e, db')"
      "db_routers db' = db_routers db" "db_revisions db' = db_revisions db"
      "db_changes db' = map (\<lambda>c. if ch_id c = ch_id change then f c else c) (db_changes db)"
      "\<And>c. ch_id (f c) = ch_id c \<and> ch_routerId (f c) = ch_routerId c \<and> ch_status (f c) = Superseded"
  | (applied) generation v f g db' where
      "approve_pending ctx now db key router change actor decision = (Inr (next_revision router, Some generation, False), db')"
      "staleReason ctx now db router change = Inr None"
      "db_generation db = Some (generation - 1)" "db_generation db' = Some generation"
      "db_revisions db' = db_revisions db @ [v]" "rv_routerId v = key" "rv_revision v = next_revision router"
      "rv_snapshot v = ch_snapshot change" "rv_changeRequestId v = ch_id change"
      "db_routers db' = map (\<lambda>r. if rt_id r = rt_id router then f r else r) (db_routers db)"
      "\<And>r. rt_id (f r) = rt_id r \<and> rt_activeRevision (f r) = Some (next_revision router) \<and>
           rt_activeSnapshot (f r) = Some (ch_snapshot change) \<and> rt_desiredGeneration (f r) = generation"
      "db_changes db' = map (\<lambda>c. if ch_id c = ch_id change then g c else c) (db_changes db)"
      "\<And>c. g c = c\<lparr>ch_status := Applied, ch_decidedBy := Some actor, ch_decidedAt := Some now,
           ch_appliedRevision := Some (next_revision router),
           ch_decisionNote := (case decision of Approve note \<Rightarrow> note | Emergency _ \<Rightarrow> None),
           ch_emergencyReason := emergency_reason decision\<rparr>"
proof -
  let ?input = "\<lparr>ap_snapshot = ch_snapshot change, ap_context = ch_context change,
     ap_changeId = ch_id change, ap_actorId = actor, ap_sourceDraftRevision = the (ch_sourceDraftRevision change),
     ap_requestDraftRevision = the (ch_sourceDraftRevision change), ap_rollbackRevision = None, ap_replaceDraft = False\<rparr>"
  have key: "rt_id router = key" using lockRouter_Inr [OF assms(1)] by simp
  show thesis
  proof (cases "staleReason ctx now db router change")
    case (Inl e)
    then show thesis by (intro unchanged) (simp add: approve_pending_def)
  next
    case (Inr reason)
    show thesis
    proof (cases reason)
      case (Some r)
      show thesis
        by (rule stale [where f = "\<lambda>c. c\<lparr>ch_status := Superseded, ch_decidedAt := Some now, ch_decisionNote := Some r\<rparr>"
              and db' = "snd (approve_pending ctx now db key router change actor decision)"])
          (auto simp: approve_pending_def Inr Some)
    next
      case None
      show thesis
      proof (cases "applySnapshot now db router ?input")
        case (Inl e)
        then show thesis using Inr None by (intro unchanged) (simp add: approve_pending_def)
      next
        case A: (Inr p)
        obtain revision generation db1 where p: "applySnapshot now db router ?input = Inr (revision, generation, db1)"
          using A by (cases p) auto
        note ap = applySnapshot_Inr [OF p]
        obtain v where v: "db_revisions db1 = db_revisions db @ [v]" "rv_routerId v = key" "rv_revision v = revision"
          "rv_snapshot v = ch_snapshot change" "rv_changeRequestId v = ch_id change"
          using ap(6) key by auto
        show thesis
          by (rule applied [where v = v and generation = generation and f = "published_row now revision generation ?input"
                and db' = "snd (approve_pending ctx now db key router change actor decision)"])
            (use Inr None p ap v in \<open>auto simp: approve_pending_def update_change_def audit_router_def\<close>)
      qed
    qed
  qed
qed

lemma approve_pending_inv:
  assumes inv: "router_inv db" and r: "lockRouter ctx db key = Inr router"
    and c: "lockChange db key i = Inr change" "ch_status change = Pending"
    and eyes: "emergency_reason decision \<noteq> None \<or> ch_submittedBy change \<noteq> actor"
  shows "router_inv (snd (approve_pending ctx now db key router change actor decision))"
proof -
  have mem: "change \<in> set (db_changes db)" "ch_routerId change = key" using lockChange_Inr [OF c(1)] by auto
  have router: "router \<in> set (db_routers db)" "rt_id router = key" using lockRouter_Inr [OF r] by auto
  have unique: "ch_status d = Pending" if "d \<in> set (db_changes db)" "ch_id d = ch_id change" for d
    using inv mem c(2) that by (auto simp: router_inv_def tables_ok_def changes_ok_def distinct_map inj_on_def)
  show ?thesis
  proof (cases rule: approve_pending_cases [OF r c, where now = now and actor = actor and decision = decision,
      case_names unchanged stale applied])
    case (unchanged e)
    then show ?thesis using inv by simp
  next
    case (stale e f db')
    then show ?thesis using inv unique by (auto simp: router_inv_def intro!: tables_ok_close)
  next
    case (applied generation v f g db')
    have cs: "changes_ok (db_changes db)" using inv by (simp add: router_inv_def tables_ok_def)
    then have kind: "ch_kind change = Publish" using mem(1) c(2) by (simp add: changes_ok_def)
    have g: "ch_id (g change) = ch_id change" "ch_status (g change) = Applied" "reviewed (g change)"
      using eyes kind by (auto simp: applied(13) reviewed_def split: decision.splits)
    note app = changes_ok_apply [where g = g, OF cs mem(1) c(2) g]
    have mem': "g change \<in> set (db_changes db')" using app(3) by (simp only: applied(12))
    have rec: "recorded (db_changes db') v"
      unfolding recorded_def
    proof (intro conjI bexI [OF _ mem'])
      show "routingIssues (rv_snapshot v) True = []" using staleReason_None [OF applied(2)] applied(8) by simp
    qed (use applied(6-9) mem in \<open>simp_all add: applied(13)\<close>)
    have "tables_ok (map (\<lambda>x. if rt_id x = rt_id router then f x else x) (db_routers db)) (db_changes db')
        (db_revisions db @ [v])"
    proof (rule tables_ok_publish [OF inv [unfolded router_inv_def] router(1)])
      show "recorded (db_changes db') w" if "recorded (db_changes db) w" for w
        using that app(2) unfolding applied(12) by (rule recorded_update)
    qed (use applied router rec app(1) in auto)
    then show ?thesis using applied by (simp add: router_inv_def)
  qed
qed

lemma approve_inv:
  assumes "router_inv db"
  shows "router_inv (snd (approveChange ctx now db key i actor decision))"
proof (cases "lockRouter ctx db key")
  case (Inl e)
  then show ?thesis using assms by (simp add: approveChange_def)
next
  case r: (Inr router)
  show ?thesis
  proof (cases "lockChange db key i")
    case (Inl e)
    then show ?thesis using assms r by (simp add: approveChange_def)
  next
    case c: (Inr change)
    show ?thesis
      using assms approve_pending_inv [OF assms r c, of decision actor now]
      by (auto simp: approveChange_def r c split: if_split)
  qed
qed

lemma revertChange_Inr:
  assumes "revertChange ctx now i db key changeId actor reason = Inr ((revision, generation), db')"
  obtains router change base rcontext ids v row f where
    "lockRouter ctx db key = Inr router" "lockChange db key changeId = Inr change"
    "ch_kind change = Publish" "ch_status change = Applied" "ch_appliedRevision change = rt_activeRevision router"
    "base \<in> set (db_revisions db)" "rv_routerId base = key" "ch_baseRevision change = Some (rv_revision base)"
    "revision = next_revision router" "routingIssues (rv_snapshot base) True = []"
    "db_generation db = Some (generation - 1)" "db_generation db' = Some generation"
    "db_revisions db' = db_revisions db @ [v]" "rv_routerId v = key" "rv_revision v = revision"
    "rv_snapshot v = rv_snapshot base" "rv_changeRequestId v = i"
    "db_routers db' = map (\<lambda>r. if rt_id r = rt_id router then f r else r) (db_routers db)"
    "\<And>r. rt_id (f r) = rt_id r \<and> rt_activeRevision (f r) = Some revision \<and>
         rt_activeSnapshot (f r) = Some (rv_snapshot base)"
    "row = \<lparr>ch_id = i, ch_routerId = key, ch_kind = Revert, ch_status = Applied,
       ch_sourceDraftRevision = None, ch_baseRevision = rt_activeRevision router, ch_snapshot = rv_snapshot base,
       ch_endpointIds = ids, ch_context = Some rcontext, ch_ticket = ch_ticket change, ch_reason = reason,
       ch_submittedBy = actor, ch_decidedBy = Some actor, ch_decidedAt = Some now, ch_decisionNote = None,
       ch_emergencyReason = None, ch_appliedRevision = None, ch_revertsChangeRequestId = Some changeId\<rparr>"
    "db_changes db' = map (\<lambda>c. if ch_routerId c = key \<and> ch_status c = Pending
       then c\<lparr>ch_status := Superseded, ch_decidedAt := Some now,
         ch_decisionNote := Some ''The active Router revision was reverted.''\<rparr> else c)
       (map (\<lambda>c. if ch_id c = i then c\<lparr>ch_appliedRevision := Some revision\<rparr> else c) (db_changes db @ [row]))"
proof -
  obtain router where r: "lockRouter ctx db key = Inr router"
    using assms by (auto simp: revertChange_def and_then_eq_Inr)
  obtain change where c: "lockChange db key changeId = Inr change"
    using assms r by (auto simp: revertChange_def and_then_eq_Inr)
  have guard: "ch_kind change = Publish" "ch_status change = Applied" "ch_baseRevision change \<noteq> None"
    "ch_appliedRevision change = rt_activeRevision router"
    using assms r c by (auto simp: revertChange_def and_then_eq_Inr split: if_splits)
  obtain base where b: "List.find (\<lambda>v. rv_routerId v = key \<and> rv_revision v = the (ch_baseRevision change)) (db_revisions db) = Some base"
    using assms r c guard by (auto simp: revertChange_def and_then_eq_Inr Let_def split: option.splits)
  obtain snapshot rcontext ids where p: "resolvePublication ctx now db key (rv_snapshot base) False = Inr (snapshot, rcontext, ids)"
    using assms r c guard b
    by (cases "resolvePublication ctx now db key (rv_snapshot base) False") (auto simp: revertChange_def and_then_eq_Inr Let_def)
  note snap = resolvePublication_Inr [OF p]
  define row where "row = \<lparr>ch_id = i, ch_routerId = key, ch_kind = Revert, ch_status = Applied,
       ch_sourceDraftRevision = None, ch_baseRevision = rt_activeRevision router, ch_snapshot = rv_snapshot base,
       ch_endpointIds = ids, ch_context = Some rcontext, ch_ticket = ch_ticket change, ch_reason = reason,
       ch_submittedBy = actor, ch_decidedBy = Some actor, ch_decidedAt = Some now, ch_decisionNote = None,
       ch_emergencyReason = None, ch_appliedRevision = None, ch_revertsChangeRequestId = Some changeId\<rparr>"
  define input where "input = \<lparr>ap_snapshot = rv_snapshot base, ap_context = Some rcontext, ap_changeId = i, ap_actorId = actor,
      ap_sourceDraftRevision = rt_draftRevision router + 1, ap_requestDraftRevision = rt_draftRevision router,
      ap_rollbackRevision = Some (the (ch_baseRevision change)), ap_replaceDraft = True\<rparr>"
  obtain db1 where a: "applySnapshot now (db\<lparr>db_changes := db_changes db @ [row]\<rparr>) router input = Inr (revision, generation, db1)"
    and db': "db' = audit_router key actor ''router.change_reverted''
      (let db2 = update_change i (\<lambda>c. c\<lparr>ch_appliedRevision := Some revision\<rparr>) db1
       in db2\<lparr>db_changes := map (\<lambda>c. if ch_routerId c = key \<and> ch_status c = Pending
          then c\<lparr>ch_status := Superseded, ch_decidedAt := Some now,
            ch_decisionNote := Some ''The active Router revision was reverted.''\<rparr> else c) (db_changes db2)\<rparr>)"
    using assms r c guard b p snap
    by (auto simp: revertChange_def and_then_eq_Inr Let_def row_def input_def)
  note ap = applySnapshot_Inr [OF a]
  obtain v where v: "db_revisions db1 = db_revisions db @ [v]" "rv_routerId v = key" "rv_revision v = revision"
    "rv_snapshot v = rv_snapshot base" "rv_changeRequestId v = i"
    using ap(6) lockRouter_Inr [OF r] by (auto simp: input_def)
  show thesis
    by (rule that [OF r c guard(1,2,4), where base = base and v = v and f = "published_row now revision generation input" and row = row])
      (use find_Some_mem [OF b] guard(3) snap ap v in \<open>auto simp: db' row_def input_def Let_def update_change_def audit_router_def\<close>)
qed

lemma tables_ok_add_applied:
  assumes "tables_ok rs cs vs" "ch_id c \<notin> ch_id ` set cs" "ch_status c = Applied" "reviewed c"
  shows "tables_ok rs (cs @ [c]) vs"
proof -
  have "changes_ok (cs @ [c])" using assms by (auto simp: tables_ok_def changes_ok_def)
  then show ?thesis using assms(1) by (auto simp: tables_ok_def recorded_def)
qed

lemma map_id_fresh:
  "i \<notin> ch_id ` set cs \<Longrightarrow> map (\<lambda>c. if ch_id c = i then f c else c) cs = cs"
  by (auto intro!: map_idI)

lemma revert_inv:
  assumes inv: "router_inv db" and fresh: "fresh_change i db"
    and rev: "revertChange ctx now i db key changeId actor reason = Inr (p, db')"
  shows "router_inv db'"
proof -
  obtain revision generation where p: "p = (revision, generation)" by (cases p)
  from rev [unfolded p] show ?thesis
  proof (cases rule: revertChange_Inr [case_names reverted])
    case (reverted router change base rcontext ids v row f)
    define row' where "row' = row\<lparr>ch_appliedRevision := Some revision\<rparr>"
    have row': "ch_id row' = i" "ch_status row' = Applied" "reviewed row'" "ch_routerId row' = key"
      "ch_appliedRevision row' = Some revision" "ch_snapshot row' = rv_snapshot base"
      by (simp_all add: row'_def reverted(20) reviewed_def)
    have "ch_id row = i" by (simp add: reverted(20))
    then have cs': "db_changes db' = map (\<lambda>c. if ch_routerId c = key \<and> ch_status c = Pending
       then c\<lparr>ch_status := Superseded, ch_decidedAt := Some now,
         ch_decisionNote := Some ''The active Router revision was reverted.''\<rparr> else c) (db_changes db @ [row'])"
      using fresh map_id_fresh [of i "db_changes db"] by (simp add: reverted(21) fresh_change_def row'_def)
    have "tables_ok (db_routers db) (db_changes db @ [row']) (db_revisions db)"
      using inv fresh row' by (intro tables_ok_add_applied) (simp_all add: router_inv_def fresh_change_def)
    then have ok: "tables_ok (db_routers db) (db_changes db') (db_revisions db)"
      unfolding cs' by (rule tables_ok_close) simp_all
    have mem: "row' \<in> set (db_changes db')" using row'(2) by (auto simp: cs' image_iff)
    have rec: "recorded (db_changes db') v"
      unfolding recorded_def
      by (intro conjI bexI [OF _ mem]) (use reverted(10,14-17) row' in simp_all)
    have router: "router \<in> set (db_routers db)" "rt_id router = key" using lockRouter_Inr [OF reverted(1)] by auto
    have "tables_ok (map (\<lambda>x. if rt_id x = rt_id router then f x else x) (db_routers db)) (db_changes db')
        (db_revisions db @ [v])"
      by (rule tables_ok_publish [OF ok router(1)])
        (use reverted(9,14-16,19) router rec ok in \<open>auto simp: tables_ok_def\<close>)
    then show ?thesis using reverted(13,18) by (simp add: router_inv_def)
  qed
qed

lemma delete_revision_inv:
  assumes "router_inv db" "deleteRevision ctx now db key n actor = Inr db'"
  shows "router_inv db'"
proof -
  obtain router where r: "List.find (\<lambda>r. rt_id r = key) (db_routers db) = Some router" "rt_activeRevision router \<noteq> Some n"
    and db': "db_routers db' = db_routers db" "db_changes db' = db_changes db"
      "db_revisions db' = filter (\<lambda>v. \<not> (rv_routerId v = key \<and> rv_revision v = n)) (db_revisions db)"
    using assms(2) by (auto simp: deleteRevision_def and_then_eq_Inr split: option.splits if_splits)
  have "r' = router" if "r' \<in> set (db_routers db)" "rt_id r' = key" for r'
    using assms(1) that find_Some_mem [OF r(1)]
    by (auto simp: router_inv_def tables_ok_def distinct_map inj_on_def)
  then show ?thesis
    using assms(1) r(2) unfolding router_inv_def db' by (intro tables_ok_delete_revision) auto
qed

lemma router_step_inv: "router_step db db' \<Longrightarrow> router_inv db \<Longrightarrow> router_inv db'"
proof (induction rule: router_step.induct)
  case (step_elsewhere db' db)
  then show ?case by (simp add: router_inv_def)
qed (auto intro: create_inv save_inv submit_inv approve_inv close_inv revert_inv delete_revision_inv bind_inv remove_inv)

interpretation routers: invariant_system router_init router_step router_inv
proof unfold_locales
  show "router_init db \<Longrightarrow> router_inv db" for db
    by (simp add: router_init_def router_inv_def tables_ok_def changes_ok_def)
  show "router_inv db \<Longrightarrow> router_step db db' \<Longrightarrow> router_inv db'" for db db'
    by (rule router_step_inv)
qed

section \<open>A run of the service\<close>

text \<open>A Router is created, its publication submitted by one member and approved by another.\<close>

definition sample_version :: "string \<Rightarrow> version_row" where
  "sample_version v = \<lparr>gv_guardrailId = ''g1'', gv_version = v, gv_artifactId = Some (''artifact-'' @ v),
     gv_status = ''ready'', gv_origin = ''local'', gv_environmentCheck = None\<rparr>"

definition sample_tables :: routing_db where
  "sample_tables = \<lparr>db_routers = [], db_endpoints = [],
     db_guardrails = [\<lparr>gr_id = ''g1'', gr_projectId = Some ''p1'', gr_name = ''Default'', gr_deleted = False\<rparr>],
     db_versions = [sample_version ''v1'', sample_version ''v2''],
     db_changes = [], db_revisions = [], db_generation = Some 7, db_runners = [], db_assignments = [],
     db_projects = \<lparr>pd_projects = [], pd_pools = [], pd_members = [], pd_defaultRuntimeUrl = None\<rparr>,
     db_events = []\<rparr>"

abbreviation sample_member :: "string \<Rightarrow> AuthorityContext option" where
  "sample_member user \<equiv> Some (ProjectScope ''p1'' (Some user) (Some User))"

definition sample_created :: routing_db where
  "sample_created = projr (create_router (sample_member ''ann'') 0 ''router'' sample_tables ''Main'' [] example_draft ''ann'' [])"

definition sample_submission :: submission where
  "sample_submission = \<lparr>sub_expectedDraftRevision = 1, sub_reviewedSnapshot = example_draft, sub_reviewedEndpointIds = [],
     sub_reason = ''first'', sub_ticket = ''T-1'', sub_restore = None\<rparr>"

definition sample_submitted :: routing_db where
  "sample_submitted = projr (submitChange (sample_member ''ann'') 1 ''c1'' sample_created ''router'' sample_submission ''ann'')"

abbreviation sample_approval :: "(thrown + int \<times> int option \<times> bool) \<times> routing_db" where
  "sample_approval \<equiv> approveChange (sample_member ''bob'') 2 sample_submitted ''router'' ''c1'' ''bob'' (Approve None)"

definition sample_published :: routing_db where
  "sample_published = snd sample_approval"

lemma sample_create_ok:
  "create_router (sample_member ''ann'') 0 ''router'' sample_tables ''Main'' [] example_draft ''ann'' [] = Inr sample_created"
  by code_simp

lemma sample_submit_ok:
  "submitChange (sample_member ''ann'') 1 ''c1'' sample_created ''router'' sample_submission ''ann'' = Inr sample_submitted"
  by code_simp

lemma sample_approve_ok: "sample_approval = (Inr (1, Some 8, False), sample_published)"
  by code_simp

lemma sample_submitted_reachable: "reach router_init router_step sample_submitted"
proof (rule reach_step)
  show "reach router_init router_step sample_created"
  proof (rule reach_step)
    show "reach router_init router_step sample_tables"
      by (rule reach_init) (simp add: router_init_def sample_tables_def)
    show "router_step sample_tables sample_created"
      by (rule step_create [OF _ sample_create_ok]) (simp add: sample_tables_def)
  qed
  have "fresh_change ''c1'' sample_created" by code_simp
  then show "router_step sample_created sample_submitted" by (rule step_submit [OF _ sample_submit_ok])
qed

lemma sample_publish_step: "router_step sample_submitted sample_published"
  unfolding sample_published_def by (rule step_approve)

lemma sample_published_reachable: "reach router_init router_step sample_published"
  by (rule reach_step [OF sample_submitted_reachable sample_publish_step])

lemma sample_published_router:
  "db_routers sample_published \<noteq> []" "rt_activeSnapshot (hd (db_routers sample_published)) = Some example_draft"
  by code_simp+

lemma sample_published_change:
  "db_changes sample_published \<noteq> []" "ch_status (hd (db_changes sample_published)) \<noteq> Pending"
  by code_simp+



section \<open>Decisions\<close>

lemma approveChange_applied:
  assumes "approveChange ctx now db key i actor decision = (Inr (n, Some g, False), db')"
  obtains router change where "lockRouter ctx db key = Inr router" "lockChange db key i = Inr change"
    "ch_status change = Pending" "emergency_reason decision \<noteq> None \<or> ch_submittedBy change \<noteq> actor"
    "approve_pending ctx now db key router change actor decision = (Inr (n, Some g, False), db')"
  using assms by (cases "lockRouter ctx db key"; cases "lockChange db key i") (auto simp: approveChange_def split: if_splits)

text \<open>Claim C4. An approval applies exactly what was reviewed, or nothing: when a decision publishes,
  the request was pending, the decider is not its submitter or declares an emergency, the Router was
  still at the revision the request was reviewed against, the Endpoints bound now are the reviewed
  ones and the frozen snapshot is publishable with them; afterwards the frozen snapshot is active
  under the next revision, the desired generation has grown by one, and no other Router changed.\<close>

theorem approval_applies_reviewed_snapshot:
  assumes "reach router_init router_step db"
    and "approveChange ctx now db key i actor decision = (Inr (n, Some g, False), db')"
  shows "\<exists>router change. router \<in> set (db_routers db) \<and> rt_id router = key \<and>
    change \<in> set (db_changes db) \<and> ch_id change = i \<and> ch_status change = Pending \<and>
    (emergency_reason decision \<noteq> None \<or> ch_submittedBy change \<noteq> actor) \<and>
    rt_activeRevision router = ch_baseRevision change \<and>
    (\<exists>rc. resolvePublication ctx now db key (ch_snapshot change) True =
       Inr (ch_snapshot change, rc, sortedIds (ch_endpointIds change))) \<and>
    n = (case rt_activeRevision router of None \<Rightarrow> 0 | Some m \<Rightarrow> m) + 1 \<and>
    db_generation db = Some (g - 1) \<and> db_generation db' = Some g \<and>
    (\<forall>r'\<in>set (db_routers db'). rt_id r' = key \<longrightarrow>
       rt_activeSnapshot r' = Some (ch_snapshot change) \<and> rt_activeRevision r' = Some n \<and> rt_desiredGeneration r' = g) \<and>
    (\<forall>r'\<in>set (db_routers db). rt_id r' \<noteq> key \<longrightarrow> r' \<in> set (db_routers db'))"
proof -
  obtain router change where l: "lockRouter ctx db key = Inr router" "lockChange db key i = Inr change"
    "ch_status change = Pending" "emergency_reason decision \<noteq> None \<or> ch_submittedBy change \<noteq> actor"
    and p: "approve_pending ctx now db key router change actor decision = (Inr (n, Some g, False), db')"
    using assms(2) by (rule approveChange_applied)
  have router: "router \<in> set (db_routers db)" "rt_id router = key" using lockRouter_Inr [OF l(1)] by auto
  have change: "change \<in> set (db_changes db)" "ch_id change = i" using lockChange_Inr [OF l(2)] by auto
  show ?thesis
  proof (cases rule: approve_pending_cases [OF l(1-3), where now = now and actor = actor and decision = decision,
      case_names unchanged stale applied])
    case (applied generation v f h db'')
    then have eq: "n = next_revision router" "g = generation" "db' = db''" using p by auto
    have st: "rt_activeRevision router = ch_baseRevision change"
      "\<exists>rc. resolvePublication ctx now db key (ch_snapshot change) True =
         Inr (ch_snapshot change, rc, sortedIds (ch_endpointIds change))"
      using staleReason_None [OF applied(2)] router(2) by auto
    show ?thesis
      by (intro exI [of _ router] exI [of _ change] conjI)
        (use router change l st applied eq in \<open>auto simp: next_revision_def\<close>)
  qed (use p in auto)
qed

theorem approval_applies_reviewed_snapshot_witness:
  "\<exists>router change. router \<in> set (db_routers sample_submitted) \<and> rt_id router = ''router'' \<and>
     change \<in> set (db_changes sample_submitted) \<and> ch_id change = ''c1'' \<and> ch_submittedBy change \<noteq> ''bob''"
  using approval_applies_reviewed_snapshot [OF sample_submitted_reachable sample_approve_ok] by auto

text \<open>Requests that are not pending.\<close>

lemma kept_by_map:
  assumes "c \<in> set cs" "\<not> P c"
  shows "c \<in> set (map (\<lambda>c. if P c then f c else c) cs)"
  using assms by (force simp: image_iff)

lemma approve_keeps_decided:
  assumes inv: "router_inv db" and c: "c \<in> set (db_changes db)" "ch_status c \<noteq> Pending"
  shows "c \<in> set (db_changes (snd (approveChange ctx now db key i actor decision)))"
proof (cases "lockRouter ctx db key")
  case (Inl e)
  then show ?thesis using c by (simp add: approveChange_def)
next
  case r: (Inr router)
  show ?thesis
  proof (cases "lockChange db key i")
    case (Inl e)
    then show ?thesis using c r by (simp add: approveChange_def)
  next
    case l: (Inr change)
    have "c \<in> set (db_changes (snd (approve_pending ctx now db key router change actor decision)))"
      if pend: "ch_status change = Pending"
    proof -
      have other: "ch_id c \<noteq> ch_id change"
        using inv c pend lockChange_Inr [OF l]
        by (auto simp: router_inv_def tables_ok_def changes_ok_def distinct_map inj_on_def)
      show ?thesis
        by (cases rule: approve_pending_cases [OF r l pend, where now = now and actor = actor and decision = decision])
          (use c other in \<open>auto intro: kept_by_map\<close>)
    qed
    then show ?thesis using c by (auto simp: approveChange_def r l)
  qed
qed

text \<open>Claim C7. Decisions are final: a change request that has been applied, rejected, withdrawn or
  superseded is never changed again by any operation of the service.\<close>

theorem decided_requests_are_final:
  assumes "reach router_init router_step db" "router_step db db'" "c \<in> set (db_changes db)" "ch_status c \<noteq> Pending"
  shows "c \<in> set (db_changes db')"
proof -
  have inv: "router_inv db" by (rule routers.reachable_inv [OF assms(1)])
  then have unique: "x = y" if "x \<in> set (db_changes db)" "y \<in> set (db_changes db)" "ch_id x = ch_id y" for x y
    using that by (auto simp: router_inv_def tables_ok_def changes_ok_def distinct_map inj_on_def)
  show ?thesis
    using assms(2)
  proof cases
    case (step_submit i ctx now key input actor)
    from step_submit(2) show ?thesis by (rule submitChange_Inr) (use assms(3) in simp)
  next
    case (step_approve ctx now key i actor decision)
    then show ?thesis using approve_keeps_decided [OF inv assms(3,4)] by simp
  next
    case (step_close status ctx now key i actor why)
    obtain change where "lockChange db key i = Inr change" "ch_status change = Pending"
      and db': "db_changes db' = map (\<lambda>c. if ch_id c = i then c\<lparr>ch_status := status, ch_decidedBy := Some actor,
         ch_decidedAt := Some now, ch_decisionNote := why\<rparr> else c) (db_changes db)"
      using step_close(2) by (auto simp: closeChange_def and_then_eq_Inr split: if_splits)
    then have "ch_id c \<noteq> i" using lockChange_Inr unique assms(3,4) by metis
    then show ?thesis unfolding db' using assms(3) by (intro kept_by_map) auto
  next
    case (step_revert i ctx now key changeId actor reason p)
    obtain n g where p: "p = (n, g)" by (cases p)
    from step_revert(2) [unfolded p] show ?thesis
    proof (rule revertChange_Inr)
      fix row assume db': "db_changes db' = map (\<lambda>c. if ch_routerId c = key \<and> ch_status c = Pending
         then c\<lparr>ch_status := Superseded, ch_decidedAt := Some now,
           ch_decisionNote := Some ''The active Router revision was reverted.''\<rparr> else c)
         (map (\<lambda>c. if ch_id c = i then c\<lparr>ch_appliedRevision := Some n\<rparr> else c) (db_changes db @ [row]))"
      have "ch_id c \<noteq> i" using step_revert(1) assms(3) by (auto simp: fresh_change_def)
      then show ?thesis unfolding db' using assms(3,4) by (intro kept_by_map) auto
    qed
  qed (use assms(3) in \<open>auto simp: create_router_def save_router_def deleteRevision_def bind_router_def remove_router_def
      and_then_eq_Inr advance_Inr Let_def split: if_splits option.splits\<close>)
qed

theorem decided_requests_are_final_witness:
  "hd (db_changes sample_published) \<in> set (db_changes (snd
     (approveChange (sample_member ''cy'') 3 sample_published ''router'' ''c1'' ''cy'' (Emergency ''again''))))"
  by (rule decided_requests_are_final [OF sample_published_reachable step_approve
        hd_in_set [OF sample_published_change(1)] sample_published_change(2)])

end
