(* ===== verification/Execution_Plan.thy ===== *)
theory Execution_Plan
  imports Js_Prelude "HOL-Library.Product_Lexorder" "HOL-Library.Multiset"
begin

text \<open>
  The schedulers of an execution plan (\<^verbatim>\<open>controller/server/domain/execution-plan.ts\<close>):
  \<open>scheduleChecks\<close>, which reorders detector units local-first, and
  \<open>scheduleRankedChecks\<close>, which keeps the authored order and only groups independent
  read-only checks.

  Both functions update the step and module objects of two arrays in place. Here a plan is the
  pair of the two lists; where the source compares object references, the model uses positions.
  A step looked up by its identifier is the first one with it. Reading a property of a step that
  does not exist throws.
\<close>

section \<open>Steps and modules\<close>

datatype Trigger = Always | OnResult string "string list"

record Step =
  st_id :: string
  st_capability :: string
  st_contract_ref :: string
  st_phases :: "string list"
  st_on_unsafe :: string
  st_trigger :: Trigger
  st_parameters :: "(string \<times> string) list"

record Module =
  mo_id :: string
  mo_module :: string
  mo_phase :: string
  mo_step_ids :: "string list"
  mo_depends_on :: "string list"
  mo_input_view :: string
  mo_required_for_release :: bool
  mo_timeout_ms :: int
  mo_failure_mode :: string

type_synonym plan = "Step list \<times> Module list"

definition modelContracts :: "string list" where
  "modelContracts = [''tali.guard.pii.semantic.v1'', ''tali.guard.topic-control.semantic.v1'', ''tali.guard.content-safety.v1'',
     ''tali.guard.jailbreak.v1'', ''tali.guard.contextual-grounding.v1'', ''tali.guard.automated-reasoning.v1'',
     ''tali.guard.taxonomy-normalization.v1'', ''tali.guard.classifier-review.v1'']"

definition remote :: "Step \<Rightarrow> bool" where
  "remote s = (map_of (st_parameters s) ''execution_dependency'' = Some ''model'' \<or> st_contract_ref s \<in> set modelContracts)"

definition step_rank :: "Step \<Rightarrow> nat" where
  "step_rank s = (if st_on_unsafe s = ''block'' then 0 else if st_on_unsafe s = ''transform'' then 1 else 2)"

definition unitRank :: "Step list \<Rightarrow> nat" where
  "unitRank steps = (if list_ex remote steps then 1 else 0) * 3 + Min (set (map step_rank steps))"

section \<open>Lookups and updates\<close>

definition step_find :: "Step list \<Rightarrow> string \<Rightarrow> Step option" where
  "step_find steps i = List.find (\<lambda>s. st_id s = i) steps"

definition find_index :: "('a \<Rightarrow> bool) \<Rightarrow> 'a list \<Rightarrow> int" where
  "find_index P xs = (if list_ex P xs then int (length (takeWhile (\<lambda>x. \<not> P x) xs)) else - 1)"

fun update_first :: "('a \<Rightarrow> bool) \<Rightarrow> ('a \<Rightarrow> 'a) \<Rightarrow> 'a list \<Rightarrow> 'a list" where
  "update_first P f [] = []"
| "update_first P f (x # xs) = (if P x then f x # xs else x # update_first P f xs)"

text \<open>The least position of a module's steps; no step counts as infinity, the greatest key.\<close>

definition module_key :: "Step list \<Rightarrow> Module \<Rightarrow> nat \<times> int" where
  "module_key steps m = (if mo_step_ids m = [] then (1, 0)
     else (0, Min (set (map (\<lambda>i. find_index (\<lambda>s. st_id s = i) steps) (mo_step_ids m)))))"

text \<open>The positions of the modules of a phase, by their first step.\<close>

definition phase_order :: "plan \<Rightarrow> string \<Rightarrow> nat list" where
  "phase_order p phase = sort_key (\<lambda>k. module_key (fst p) (snd p ! k))
     (filter (\<lambda>k. mo_phase (snd p ! k) = phase) [0..<length (snd p)])"

definition set_parameters :: "string \<Rightarrow> ((string \<times> string) list \<Rightarrow> Step \<Rightarrow> (string \<times> string) list) \<Rightarrow> Step list \<Rightarrow> thrown + Step list" where
  "set_parameters i f steps = (if step_find steps i = None
     then Inl (JsError ''Cannot read properties of undefined'')
     else Inr (update_first (\<lambda>s. st_id s = i) (\<lambda>s. s\<lparr>st_parameters := f (st_parameters s) s\<rparr>) steps))"

section \<open>Rank Mode\<close>

definition ranked_eligible :: "Step list \<Rightarrow> Module \<Rightarrow> bool" where
  "ranked_eligible steps m = (case mo_step_ids m of
     [i] \<Rightarrow> (case step_find steps i of
         None \<Rightarrow> False
       | Some s \<Rightarrow> st_trigger s = Always \<and> st_on_unsafe s \<in> {''allow'', ''block''} \<and>
           map_of (rev (st_parameters s)) ''on_unknown'' \<noteq> Some ''transform'')
   | _ \<Rightarrow> False)"

definition ranked_parameters ::
  "string \<Rightarrow> string option \<Rightarrow> bool \<Rightarrow> (string \<times> string) list \<Rightarrow> Step \<Rightarrow> (string \<times> string) list" where
  "ranked_parameters phase grp leader params s =
     filter (\<lambda>(key, _). key \<notin> {''execution_schedule'', ''execution_stage_'' @ phase, ''parallel_group_'' @ phase,
         ''parallel_leader_'' @ phase}) params @
     [(''execution_schedule'', ''local-first''),
      (''execution_stage_'' @ phase, if remote (s\<lparr>st_parameters := filter (\<lambda>(key, _). key \<notin> {''execution_schedule'',
         ''execution_stage_'' @ phase, ''parallel_group_'' @ phase, ''parallel_leader_'' @ phase}) params\<rparr>)
         then ''model'' else ''local'')] @
     (case grp of None \<Rightarrow> [] | Some g \<Rightarrow>
        [(''parallel_group_'' @ phase, g), (''parallel_leader_'' @ phase, if leader then ''true'' else ''false'')])"

definition ranked_member ::
  "string \<Rightarrow> string option \<Rightarrow> string list \<Rightarrow> nat \<times> nat \<Rightarrow> plan \<Rightarrow> thrown + plan" where
  "ranked_member phase grp previous = (\<lambda>(memberIndex, k) (steps, modules).
     and_then (fold_result (\<lambda>i. set_parameters i (ranked_parameters phase grp (memberIndex = 0))) (mo_step_ids (modules ! k)) steps)
       (\<lambda>steps'. Inr (steps', modules[k := (modules ! k)\<lparr>mo_depends_on := previous, mo_input_view := ''previous_output''\<rparr>])))"

function ranked_groups :: "string \<Rightarrow> bool \<Rightarrow> nat list \<Rightarrow> nat \<Rightarrow> string list \<Rightarrow> plan \<Rightarrow> thrown + plan" where
  "ranked_groups phase parallelOutput [] index previous p = Inr p"
| "ranked_groups phase parallelOutput (k # rest) index previous p =
     (let eligible = (\<lambda>k. ranked_eligible (fst p) (snd p ! k));
          joined = (if (phase \<noteq> ''output'' \<or> parallelOutput) \<and> eligible k then takeWhile eligible rest else []);
          members = k # joined;
          grp = (if length members > 1 then Some (''ranked:'' @ phase @ '':'' @ digits index) else None)
      in and_then (fold_result (ranked_member phase grp previous) (zip [0..<length members] members) p)
           (ranked_groups phase parallelOutput (drop (length joined) rest) (index + length members)
              (map (\<lambda>k. mo_id (snd p ! k)) members)))"
  by pat_completeness auto

termination
  by (relation "measure (\<lambda>(_, _, ks, _). length ks)") auto

definition ranked_phase :: "bool \<Rightarrow> string \<Rightarrow> plan \<Rightarrow> thrown + plan" where
  "ranked_phase parallelOutput phase p = ranked_groups phase parallelOutput (phase_order p phase) 0 [] p"

definition with_view :: "Step \<Rightarrow> Step" where
  "with_view s = s\<lparr>st_parameters := map_entries (filter (\<lambda>(key, _). key \<noteq> ''evaluation_view'') (st_parameters s) @
     [(''evaluation_view'', ''previous_output'')])\<rparr>"

definition scheduleRankedChecks :: "Step list \<Rightarrow> Module list \<Rightarrow> bool \<Rightarrow> thrown + plan" where
  "scheduleRankedChecks steps modules parallelOutput =
     and_then (fold_result (ranked_phase parallelOutput) [''input'', ''output''] (steps, modules))
       (\<lambda>(steps', modules'). Inr (map with_view steps', modules'))"

section \<open>Local-first scheduling\<close>

text \<open>Units of steps that share a module, as lists of positions: a step joins the first unit that
  has a step of one of its modules. Every position is in one unit, so units are told apart by
  their positions.\<close>

definition shares_module :: "Step list \<Rightarrow> Module list \<Rightarrow> nat \<Rightarrow> nat list \<Rightarrow> bool" where
  "shares_module steps modules k u = list_ex (\<lambda>m. st_id (steps ! k) \<in> set (mo_step_ids m) \<and>
     list_ex (\<lambda>j. st_id (steps ! j) \<in> set (mo_step_ids m)) u) modules"

definition add_to_unit :: "Step list \<Rightarrow> Module list \<Rightarrow> nat \<Rightarrow> nat list list \<Rightarrow> nat list list" where
  "add_to_unit steps modules k units = (if list_ex (shares_module steps modules k) units
     then update_first (shares_module steps modules k) (\<lambda>u. u @ [k]) units else units @ [[k]])"

definition check_units :: "Step list \<Rightarrow> Module list \<Rightarrow> nat list list" where
  "check_units steps modules = fold (add_to_unit steps modules) [0..<length steps] []"

definition transform_units :: "Step list \<Rightarrow> nat list list \<Rightarrow> nat list list" where
  "transform_units steps units = filter (list_ex (\<lambda>k. st_on_unsafe (steps ! k) = ''transform'')) units"

definition prerequisite_met :: "Step list \<Rightarrow> string list \<Rightarrow> nat list \<Rightarrow> nat \<Rightarrow> bool" where
  "prerequisite_met steps emitted u k = (case st_trigger (steps ! k) of
     Always \<Rightarrow> True
   | OnResult ref _ \<Rightarrow> ref \<in> set emitted \<or> list_ex (\<lambda>j. st_id (steps ! j) = ref) u)"

definition unit_ready :: "Step list \<Rightarrow> nat list list \<Rightarrow> string list \<Rightarrow> nat list \<Rightarrow> bool" where
  "unit_ready steps transforms emitted u = (list_all (prerequisite_met steps emitted u) u \<and>
     (u \<notin> set transforms \<or>
      list_all (list_all (\<lambda>k. st_id (steps ! k) \<in> set emitted)) (takeWhile (\<lambda>v. v \<noteq> u) transforms)))"

definition unit_key :: "Step list \<Rightarrow> nat list \<Rightarrow> nat \<times> nat" where
  "unit_key steps u = (unitRank (map (nth steps) u), hd u)"

definition cycle_error :: thrown where
  "cycle_error = JsError ''Guardrail execution dependencies contain a cycle or missing prerequisite.''"

lemma sort_filter_head_mem:
  assumes "sort_key f (filter P xs) = u # us"
  shows "u \<in> set xs" "P u"
proof -
  have "u \<in> set (sort_key f (filter P xs))" unfolding assms by simp
  then show "u \<in> set xs" "P u" by simp_all
qed

function select_units ::
  "Step list \<Rightarrow> nat list list \<Rightarrow> nat list list \<Rightarrow> string list \<Rightarrow> nat list \<Rightarrow> thrown + nat list" where
  "select_units steps transforms remaining emitted ordered =
     (if remaining = [] then Inr ordered
      else case sort_key (unit_key steps) (filter (unit_ready steps transforms emitted) remaining) of
          [] \<Rightarrow> Inl cycle_error
        | u # _ \<Rightarrow> select_units steps transforms (remove1 u remaining)
            (emitted @ map (\<lambda>k. st_id (steps ! k)) u) (ordered @ u))"
  by pat_completeness auto

termination
  by (relation "measure (\<lambda>(_, _, remaining, _). length remaining)")
    (auto simp: length_remove1 dest: sort_filter_head_mem)

declare select_units.simps [simp del]

definition module_step :: "Step list \<Rightarrow> Module \<Rightarrow> Step option" where
  "module_step steps m = (case mo_step_ids m of [i] \<Rightarrow> step_find steps i | _ \<Rightarrow> None)"

definition independent :: "Step option \<Rightarrow> Step option \<Rightarrow> bool" where
  "independent leader s = (case (s, leader) of
     (Some s, Some l) \<Rightarrow> st_on_unsafe s \<in> {''block'', ''allow''} \<and> st_trigger s = Always \<and>
       remote s = remote l \<and> st_on_unsafe s = st_on_unsafe l
   | _ \<Rightarrow> False)"

definition checks_parameters :: "string \<Rightarrow> string \<Rightarrow> string option \<Rightarrow> bool \<Rightarrow> (string \<times> string) list \<Rightarrow> (string \<times> string) list" where
  "checks_parameters phase stage grp leader params = params @
     [(''execution_schedule'', ''local-first-v2''), (''execution_stage_'' @ phase, stage)] @
     (case grp of None \<Rightarrow> [] | Some g \<Rightarrow>
        [(''parallel_group_'' @ phase, g), (''parallel_leader_'' @ phase, if leader then ''true'' else ''false'')])"

definition checks_member :: "string \<Rightarrow> string option \<Rightarrow> string list \<Rightarrow> nat \<Rightarrow> nat \<Rightarrow> plan \<Rightarrow> thrown + plan" where
  "checks_member phase grp previous first k = (\<lambda>(steps, modules).
     let stage = (if list_ex (\<lambda>s. st_id s \<in> set (mo_step_ids (modules ! k)) \<and> remote s) steps then ''model'' else ''local'')
     in and_then (fold_result (\<lambda>i. set_parameters i (\<lambda>params _. checks_parameters phase stage grp (k = first) params))
          (mo_step_ids (modules ! k)) steps)
        (\<lambda>steps'. Inr (steps', modules[k := (modules ! k)\<lparr>mo_depends_on := previous, mo_input_view := ''previous_output''\<rparr>])))"

function checks_groups :: "string \<Rightarrow> bool \<Rightarrow> nat list \<Rightarrow> nat \<Rightarrow> string list \<Rightarrow> plan \<Rightarrow> thrown + plan" where
  "checks_groups phase parallelOutput [] index previous p = Inr p"
| "checks_groups phase parallelOutput (k # rest) index previous p =
     (let one = (\<lambda>k. module_step (fst p) (snd p ! k));
          indep = (\<lambda>j. independent (one k) (one j));
          joined = (if (phase = ''input'' \<or> parallelOutput) \<and> indep k then takeWhile indep rest else []);
          members = k # joined;
          grp = (if length members > 1 then Some (''checks:'' @ phase @ '':'' @ digits index) else None)
      in and_then (fold_result (checks_member phase grp previous k) members p)
           (checks_groups phase parallelOutput (drop (length joined) rest) (index + length members)
              (map (\<lambda>k. mo_id (snd p ! k)) members)))"
  by pat_completeness auto

termination
  by (relation "measure (\<lambda>(_, _, ks, _). length ks)") auto

definition checks_phase :: "bool \<Rightarrow> string \<Rightarrow> plan \<Rightarrow> thrown + plan" where
  "checks_phase parallelOutput phase p = checks_groups phase parallelOutput (phase_order p phase) 0 [] p"

definition scheduleChecks :: "Step list \<Rightarrow> Module list \<Rightarrow> bool \<Rightarrow> bool \<Rightarrow> thrown + plan" where
  "scheduleChecks steps modules customFlows parallelOutput =
     (if customFlows then Inr (steps, modules)
      else let units = check_units steps modules in
       and_then (select_units steps (transform_units steps units) units [] [])
        (\<lambda>ordered. and_then (fold_result (checks_phase parallelOutput) [''input'', ''output'']
             (map (nth steps) ordered, modules))
          (\<lambda>(steps', modules').
             let final = map (\<lambda>s. s\<lparr>st_parameters := map_entries (st_parameters s)\<rparr>) steps'
             in Inr (final, sort_key (module_key final) modules'))))"

section \<open>What scheduling leaves alone\<close>

text \<open>Two steps that agree on everything a scheduler reads.\<close>

definition step_like :: "Step \<Rightarrow> Step \<Rightarrow> bool" where
  "step_like s s' \<longleftrightarrow> st_id s' = st_id s \<and> st_capability s' = st_capability s \<and> st_contract_ref s' = st_contract_ref s \<and>
     st_phases s' = st_phases s \<and> st_on_unsafe s' = st_on_unsafe s \<and> st_trigger s' = st_trigger s \<and>
     map_of (st_parameters s') ''execution_dependency'' = map_of (st_parameters s) ''execution_dependency'' \<and>
     map_of (rev (st_parameters s')) ''on_unknown'' = map_of (rev (st_parameters s)) ''on_unknown''"

definition module_like :: "Module \<Rightarrow> Module \<Rightarrow> bool" where
  "module_like m m' \<longleftrightarrow> m' = m\<lparr>mo_depends_on := mo_depends_on m', mo_input_view := mo_input_view m'\<rparr>"

definition plan_like :: "plan \<Rightarrow> plan \<Rightarrow> bool" where
  "plan_like p p' \<longleftrightarrow> list_all2 step_like (fst p) (fst p') \<and> list_all2 module_like (snd p) (snd p')"

definition plan_ok :: "plan \<Rightarrow> bool" where
  "plan_ok p \<longleftrightarrow> (\<forall>m\<in>set (snd p). \<forall>i\<in>set (mo_step_ids m). i \<in> st_id ` set (fst p))"

lemma step_like_refl [simp]: "step_like s s" by (simp add: step_like_def)

lemma step_like_trans: "step_like s t \<Longrightarrow> step_like t u \<Longrightarrow> step_like s u" by (simp add: step_like_def)

lemma module_like_refl [simp]: "module_like m m" by (simp add: module_like_def)

lemma module_like_fields:
  assumes "module_like m m'"
  shows "mo_id m' = mo_id m" "mo_phase m' = mo_phase m" "mo_step_ids m' = mo_step_ids m"
  using assms by (metis Module.select_convs Module.update_convs Module.surjective module_like_def)+

lemma module_like_trans:
  assumes "module_like m n" "module_like n k"
  shows "module_like m k"
  using assms by (cases m; cases n; cases k) (simp add: module_like_def)

lemma steps_like_trans: "list_all2 step_like a b \<Longrightarrow> list_all2 step_like b c \<Longrightarrow> list_all2 step_like a c"
  unfolding list_all2_conv_all_nth using step_like_trans by metis

lemma modules_like_trans: "list_all2 module_like a b \<Longrightarrow> list_all2 module_like b c \<Longrightarrow> list_all2 module_like a c"
  unfolding list_all2_conv_all_nth using module_like_trans by metis

lemma plan_like_refl [simp]: "plan_like p p"
  by (simp add: plan_like_def list_all2_same)

lemma plan_like_trans: "plan_like p q \<Longrightarrow> plan_like q r \<Longrightarrow> plan_like p r"
  unfolding plan_like_def using steps_like_trans modules_like_trans by blast

lemma steps_like_ids: "list_all2 step_like steps steps' \<Longrightarrow> map st_id steps' = map st_id steps"
  by (induction rule: list_all2_induct) (auto simp: step_like_def)

lemma modules_like_ids: "list_all2 module_like ms ms' \<Longrightarrow> map mo_id ms' = map mo_id ms"
  by (induction rule: list_all2_induct) (auto simp: module_like_fields)

lemma plan_like_ids: "plan_like p p' \<Longrightarrow> map st_id (fst p') = map st_id (fst p)" "plan_like p p' \<Longrightarrow> map mo_id (snd p') = map mo_id (snd p)"
  by (simp_all add: plan_like_def steps_like_ids modules_like_ids)

lemma plan_like_length:
  assumes "plan_like p p'"
  shows "length (fst p') = length (fst p)" "length (snd p') = length (snd p)"
  using assms by (auto simp: plan_like_def dest: list_all2_lengthD)

lemma plan_like_module:
  assumes "plan_like p p'" "k < length (snd p)"
  shows "module_like (snd p ! k) (snd p' ! k)"
  using assms by (auto simp: plan_like_def list_all2_conv_all_nth)

lemma step_find_like:
  assumes "list_all2 step_like steps steps'"
  shows "rel_option step_like (step_find steps i) (step_find steps' i)"
  using assms by (induction rule: list_all2_induct) (auto simp: step_find_def step_like_def)

lemma remote_like: "step_like s s' \<Longrightarrow> remote s' = remote s"
  by (simp add: step_like_def remote_def)

lemma plan_ok_like:
  assumes "plan_like p p'" "plan_ok p"
  shows "plan_ok p'"
proof -
  have ids: "st_id ` set (fst p') = st_id ` set (fst p)"
    using plan_like_ids(1) [OF assms(1)] by (metis set_map)
  have "\<forall>m'\<in>set (snd p'). \<exists>m\<in>set (snd p). mo_step_ids m' = mo_step_ids m"
    using assms(1) by (auto simp: plan_like_def list_all2_conv_all_nth in_set_conv_nth) (metis module_like_fields(3) nth_mem)
  then show ?thesis using assms(2) by (auto simp: plan_ok_def ids)
qed

lemma find_index_like:
  assumes "list_all2 step_like steps steps'"
  shows "find_index (\<lambda>s. st_id s = i) steps' = find_index (\<lambda>s. st_id s = i) steps"
proof -
  have "find_index (\<lambda>s. st_id s = i) xs = find_index (\<lambda>j. j = i) (map st_id xs)" for xs
    by (auto simp: find_index_def list_ex_iff takeWhile_map comp_def)
  then show ?thesis using steps_like_ids [OF assms] by metis
qed

lemma insort_key_agree:
  "f x = g x \<Longrightarrow> (\<And>y. y \<in> set ys \<Longrightarrow> f y = g y) \<Longrightarrow> insort_key f x ys = insort_key g x ys"
  by (induction ys) auto

lemma sort_key_agree: "(\<And>x. x \<in> set xs \<Longrightarrow> f x = g x) \<Longrightarrow> sort_key f xs = sort_key g xs"
proof (induction xs)
  case (Cons x xs)
  have "sort_key f (x # xs) = insort_key f x (sort_key f xs)" by simp
  also have "\<dots> = insort_key f x (sort_key g xs)" using Cons by (metis list.set_intros(2))
  also have "\<dots> = insort_key g x (sort_key g xs)" using Cons.prems by (intro insort_key_agree) auto
  finally show ?case by simp
qed simp

lemma phase_order_like:
  assumes "plan_like p p'"
  shows "phase_order p' phase = phase_order p phase"
proof -
  have key: "module_key (fst p') (snd p' ! k) = module_key (fst p) (snd p ! k)"
    and ph: "mo_phase (snd p' ! k) = mo_phase (snd p ! k)" if "k < length (snd p)" for k
    using plan_like_module [OF assms that] find_index_like [of "fst p" "fst p'"] assms
    by (simp_all add: module_key_def module_like_fields plan_like_def)
  have "filter (\<lambda>k. mo_phase (snd p' ! k) = phase) [0..<length (snd p')] =
      filter (\<lambda>k. mo_phase (snd p ! k) = phase) [0..<length (snd p)]"
    using ph plan_like_length(2) [OF assms] by (intro filter_cong) auto
  moreover have "sort_key (\<lambda>k. module_key (fst p') (snd p' ! k)) ks = sort_key (\<lambda>k. module_key (fst p) (snd p ! k)) ks"
    if "set ks \<subseteq> {..<length (snd p)}" for ks
    using key that by (intro sort_key_agree) auto
  ultimately show ?thesis
    unfolding phase_order_def by (metis (no_types, lifting) atLeastLessThan_iff filter_is_subset lessThan_iff set_upt subset_iff)
qed

lemma phase_order_mem: "k \<in> set (phase_order p phase) \<longleftrightarrow> k < length (snd p) \<and> mo_phase (snd p ! k) = phase"
  by (auto simp: phase_order_def)

lemma distinct_phase_order [simp]: "distinct (phase_order p phase)"
  by (simp add: phase_order_def)

section \<open>Updates of parameters\<close>

lemma map_of_filter_keys:
  "x \<notin> K \<Longrightarrow> map_of (filter (\<lambda>(key, _). key \<notin> K) ps) x = map_of ps x"
  by (induction ps) auto

lemma list_all2_update_first:
  assumes "\<And>x. R x x" "\<And>x. R x (f x)"
  shows "list_all2 R xs (update_first P f xs)"
  by (induction xs) (auto simp: assms list_all2_same)

lemma set_parameters_like:
  assumes "i \<in> st_id ` set steps" "\<And>s. step_like s (s\<lparr>st_parameters := f (st_parameters s) s\<rparr>)"
  shows "\<exists>steps'. set_parameters i f steps = Inr steps' \<and> list_all2 step_like steps steps'"
proof -
  have "step_find steps i \<noteq> None" using assms(1) by (auto simp: step_find_def find_None_iff)
  then show ?thesis
    using list_all2_update_first [of step_like "\<lambda>s. s\<lparr>st_parameters := f (st_parameters s) s\<rparr>"] assms(2)
    by (simp add: set_parameters_def)
qed

lemma fold_set_parameters_like:
  assumes "\<forall>i\<in>set ids. i \<in> st_id ` set steps" "\<And>s. step_like s (s\<lparr>st_parameters := f (st_parameters s) s\<rparr>)"
  shows "\<exists>steps'. fold_result (\<lambda>i. set_parameters i f) ids steps = Inr steps' \<and> list_all2 step_like steps steps'"
  using assms(1)
proof (induction ids arbitrary: steps)
  case (Cons i ids)
  obtain s1 where s1: "set_parameters i f steps = Inr s1" "list_all2 step_like steps s1"
    using set_parameters_like [of i steps f] assms(2) Cons.prems by auto
  have "\<forall>j\<in>set ids. j \<in> st_id ` set s1" using Cons.prems steps_like_ids [OF s1(2)] by (metis list.set_intros(2) set_map)
  then obtain s2 where "fold_result (\<lambda>i. set_parameters i f) ids s1 = Inr s2" "list_all2 step_like s1 s2"
    using Cons.IH by blast
  then show ?case using s1 by (auto intro: steps_like_trans)
qed (simp add: list_all2_same)

lemma ranked_parameters_like: "step_like s (s\<lparr>st_parameters := ranked_parameters phase grp leader (st_parameters s) s\<rparr>)"
  unfolding step_like_def ranked_parameters_def
  using map_of_filter_keys [of "''execution_dependency''" "{''execution_schedule'', ''execution_stage_'' @ phase,
      ''parallel_group_'' @ phase, ''parallel_leader_'' @ phase}" "st_parameters s"]
    map_of_filter_keys [of "''on_unknown''" "{''execution_schedule'', ''execution_stage_'' @ phase,
      ''parallel_group_'' @ phase, ''parallel_leader_'' @ phase}" "rev (st_parameters s)"]
  by (auto simp: map_add_def rev_filter split: option.splits)

lemma checks_parameters_like: "step_like s (s\<lparr>st_parameters := checks_parameters phase stage grp leader (st_parameters s)\<rparr>)"
  unfolding step_like_def checks_parameters_def by (simp add: map_add_def split: option.splits)

text \<open>One module of a group.\<close>

definition depending :: "string list \<Rightarrow> Module \<Rightarrow> Module" where
  "depending previous m = m\<lparr>mo_depends_on := previous, mo_input_view := ''previous_output''\<rparr>"

definition group_updated :: "string list \<Rightarrow> nat set \<Rightarrow> plan \<Rightarrow> plan \<Rightarrow> bool" where
  "group_updated previous K p p' \<longleftrightarrow> plan_like p p' \<and>
     (\<forall>k<length (snd p). snd p' ! k = (if k \<in> K then depending previous (snd p ! k) else snd p ! k))"

lemma depending_simps [simp]:
  "depending a (depending b m) = depending a m" "mo_id (depending a m) = mo_id m" "mo_depends_on (depending a m) = a"
  "mo_step_ids (depending a m) = mo_step_ids m" "module_like m (depending a m)"
  by (simp_all add: depending_def module_like_def)

lemma group_updated_trans:
  assumes "group_updated previous K p q" "group_updated previous L q r"
  shows "group_updated previous (K \<union> L) p r"
proof -
  have "length (snd q) = length (snd p)" using assms(1) by (auto simp: group_updated_def plan_like_length)
  then show ?thesis using assms plan_like_trans [of p q r] by (auto simp: group_updated_def)
qed

lemma group_updated_fold:
  assumes "\<And>x p. x \<in> set xs \<Longrightarrow> plan_ok p \<Longrightarrow> length (snd p) = n \<Longrightarrow> \<exists>p'. f x p = Inr p' \<and> group_updated previous {pos x} p p'"
    and "plan_ok p" "length (snd p) = n"
  shows "\<exists>p'. fold_result f xs p = Inr p' \<and> group_updated previous (pos ` set xs) p p'"
  using assms
proof (induction xs arbitrary: p)
  case Nil
  then show ?case by (simp add: group_updated_def)
next
  case (Cons x xs)
  obtain q where q: "f x p = Inr q" "group_updated previous {pos x} p q"
    using Cons.prems(1) [of x p] Cons.prems(2,3) by auto
  then have "plan_ok q" "length (snd q) = n"
    using Cons.prems(2,3) by (auto simp: group_updated_def plan_ok_like plan_like_length)
  then obtain r where r: "fold_result f xs q = Inr r" "group_updated previous (pos ` set xs) q r"
    using Cons.IH [of q] Cons.prems(1) by auto
  then show ?case using q group_updated_trans [OF q(2) r(2)] by auto
qed

lemma member_updated:
  assumes "plan_ok (steps, modules)" "k < length modules"
    and "\<And>s. step_like s (s\<lparr>st_parameters := f (st_parameters s) s\<rparr>)"
  shows "\<exists>p'. and_then (fold_result (\<lambda>i. set_parameters i f) (mo_step_ids (modules ! k)) steps)
       (\<lambda>steps'. Inr (steps', modules[k := (modules ! k)\<lparr>mo_depends_on := previous, mo_input_view := ''previous_output''\<rparr>])) = Inr p' \<and>
     group_updated previous {k} (steps, modules) p'"
proof -
  have "\<forall>i\<in>set (mo_step_ids (modules ! k)). i \<in> st_id ` set steps" using assms(1,2) by (auto simp: plan_ok_def)
  from fold_set_parameters_like [OF this, of f] obtain steps' where
    "fold_result (\<lambda>i. set_parameters i f) (mo_step_ids (modules ! k)) steps = Inr steps'" "list_all2 step_like steps steps'"
    using assms(3) by blast
  then show ?thesis using assms(2) unfolding depending_def [symmetric]
    by (auto simp: group_updated_def plan_like_def list_all2_conv_all_nth nth_list_update)
qed

lemma ranked_members_updated:
  assumes "plan_ok p" "set members \<subseteq> {..<length (snd p)}"
  shows "\<exists>p'. fold_result (ranked_member phase grp previous) (zip [0..<length members] members) p = Inr p' \<and>
    group_updated previous (set members) p p'"
proof -
  have "\<exists>p'. ranked_member phase grp previous x q = Inr p' \<and> group_updated previous {snd x} q p'"
    if "x \<in> set (zip [0..<length members] members)" "plan_ok q" "length (snd q) = length (snd p)" for x q
  proof -
    obtain n k steps modules where x: "x = (n, k)" and q: "q = (steps, modules)" by (cases x, cases q)
    have "k < length modules" using that assms(2) by (auto simp: x q dest: set_zip_rightD)
    then show ?thesis
      using member_updated [of steps modules k "ranked_parameters phase grp (n = 0)" previous, OF _ _ ranked_parameters_like] that(2)
      by (simp add: ranked_member_def x q)
  qed
  from group_updated_fold [of "zip [0..<length members] members" "length (snd p)" _ previous snd p, OF this assms(1) refl]
  have "\<exists>p'. fold_result (ranked_member phase grp previous) (zip [0..<length members] members) p = Inr p' \<and>
      group_updated previous (snd ` set (zip [0..<length members] members)) p p'" .
  moreover have "snd ` set (zip [0..<length members] members) = set members"
    by (metis length_upt map_snd_zip minus_nat.diff_0 set_map)
  ultimately show ?thesis by (simp only:)
qed

lemma checks_members_updated:
  assumes "plan_ok p" "set members \<subseteq> {..<length (snd p)}"
  shows "\<exists>p'. fold_result (checks_member phase grp previous first) members p = Inr p' \<and> group_updated previous (set members) p p'"
proof -
  have "\<exists>p'. checks_member phase grp previous first k q = Inr p' \<and> group_updated previous {id k} q p'"
    if "k \<in> set members" "plan_ok q" "length (snd q) = length (snd p)" for k q
  proof -
    obtain steps modules where q: "q = (steps, modules)" by (cases q)
    have "k < length modules" using that assms(2) by (auto simp: q)
    then show ?thesis
      using that(2) unfolding checks_member_def q Let_def prod.case id_apply
      by (intro member_updated checks_parameters_like) auto
  qed
  from group_updated_fold [of members "length (snd p)" _ previous id p, OF this assms(1) refl]
  have "\<exists>p'. fold_result (checks_member phase grp previous first) members p = Inr p' \<and>
      group_updated previous (id ` set members) p p'" .
  then show ?thesis by (simp only: image_id id_apply)
qed

section \<open>Grouping\<close>

text \<open>
  The interface of both grouping loops: the modules of a phase are taken in order, a leader is
  joined by the following modules as long as they may run beside it, and the members of a group
  depend on the members of the group before.
\<close>

definition dependencies :: "plan \<Rightarrow> nat set \<Rightarrow> (string \<times> string) set" where
  "dependencies p K = {(x, mo_id (snd p ! k)) |x k. k \<in> K \<and> x \<in> set (mo_depends_on (snd p ! k))}"

lemma dependencies_mono: "K \<subseteq> L \<Longrightarrow> (dependencies p K)\<^sup>+ \<subseteq> (dependencies p L)\<^sup>+"
  by (rule trancl_mono_subset) (auto simp: dependencies_def)

locale group_loop =
  fixes loop :: "nat list \<Rightarrow> nat \<Rightarrow> string list \<Rightarrow> plan \<Rightarrow> thrown + plan"
    and joins :: "plan \<Rightarrow> nat \<Rightarrow> nat \<Rightarrow> bool"
  assumes loop_Nil: "loop [] index previous p = Inr p"
    and loop_Cons: "\<lbrakk>plan_ok p; set (k # rest) \<subseteq> {..<length (snd p)};
      joined = (if joins p k k then takeWhile (joins p k) rest else [])\<rbrakk> \<Longrightarrow>
      \<exists>p' index'. group_updated previous (set (k # joined)) p p' \<and>
        loop (k # rest) index previous p =
          loop (drop (length joined) rest) index' (map (\<lambda>k. mo_id (snd p ! k)) (k # joined)) p'"
    and joins_like: "plan_like p p' \<Longrightarrow> k < length (snd p) \<Longrightarrow> j < length (snd p) \<Longrightarrow> joins p' k j = joins p k j"
begin

definition ordered_after :: "nat set \<Rightarrow> plan \<Rightarrow> plan \<Rightarrow> nat \<Rightarrow> nat \<Rightarrow> bool" where
  "ordered_after K p p' a b \<longleftrightarrow> (mo_id (snd p ! a), mo_id (snd p ! b)) \<in> (dependencies p' K)\<^sup>+ \<or>
     (mo_depends_on (snd p' ! a) = mo_depends_on (snd p' ! b) \<and> (\<exists>l<length (snd p). joins p l a \<and> joins p l b))"

lemma loop_orders:
  assumes "plan_ok p" "set ks \<subseteq> {..<length (snd p)}" "distinct ks"
  shows "\<exists>p'. loop ks index previous p = Inr p' \<and> plan_like p p' \<and>
    (\<forall>k<length (snd p). k \<notin> set ks \<longrightarrow> snd p' ! k = snd p ! k) \<and>
    (\<forall>k\<in>set ks. \<forall>x\<in>set previous. (x, mo_id (snd p ! k)) \<in> (dependencies p' (set ks))\<^sup>+) \<and>
    (\<forall>i j. i < j \<longrightarrow> j < length ks \<longrightarrow> ordered_after (set ks) p p' (ks ! i) (ks ! j))"
  using assms
proof (induction "length ks" arbitrary: ks index previous p rule: less_induct)
  case less
  show ?case
  proof (cases ks)
    case Nil
    then show ?thesis by (simp add: loop_Nil)
  next
    case (Cons k rest)
    define joined where "joined = (if joins p k k then takeWhile (joins p k) rest else [])"
    define rest' where "rest' = drop (length joined) rest"
    have rest: "rest = joined @ rest'"
      unfolding joined_def rest'_def by (metis append_take_drop_id append_Nil drop_0 list.size(3) takeWhile_eq_take)
    obtain q index' where q: "group_updated previous (set (k # joined)) p q"
      and eq: "loop (k # rest) index previous p = loop rest' index' (map (\<lambda>k. mo_id (snd p ! k)) (k # joined)) q"
      using loop_Cons [OF less.prems(1) _ joined_def, of previous index] less.prems(2) unfolding Cons rest'_def by blast
    have like: "plan_like p q" using q by (simp add: group_updated_def)
    have len: "length (snd q) = length (snd p)" by (rule plan_like_length [OF like])
    have "length rest' < length ks" "plan_ok q" "set rest' \<subseteq> {..<length (snd q)}" "distinct rest'"
      using less.prems plan_ok_like [OF like] len by (auto simp: Cons rest)
    from less.hyps [OF this] obtain r where r: "loop rest' index' (map (\<lambda>k. mo_id (snd p ! k)) (k # joined)) q = Inr r"
      "plan_like q r" and keep: "\<And>j. j < length (snd q) \<Longrightarrow> j \<notin> set rest' \<Longrightarrow> snd r ! j = snd q ! j"
      and after: "\<And>j x. j \<in> set rest' \<Longrightarrow> x \<in> (\<lambda>k. mo_id (snd p ! k)) ` set (k # joined) \<Longrightarrow>
         (x, mo_id (snd q ! j)) \<in> (dependencies r (set rest'))\<^sup>+"
      and ord: "\<And>i j. i < j \<Longrightarrow> j < length rest' \<Longrightarrow> ordered_after (set rest') q r (rest' ! i) (rest' ! j)"
      by (metis (no_types, lifting) set_map)
    have bound: "j < length (snd p)" if "j \<in> set ks" for j using that less.prems(2) by auto
    have ids: "mo_id (snd q ! j) = mo_id (snd p ! j)" if "j < length (snd p)" for j
      by (rule module_like_fields [OF plan_like_module [OF like that]])
    have member: "snd r ! j = depending previous (snd p ! j)" if "j \<in> set (k # joined)" for j
      using that q keep [of j] len less.prems(3) bound [of j] by (auto simp: group_updated_def Cons rest)
    have edge: "(x, mo_id (snd p ! j)) \<in> dependencies r (set ks)" if "x \<in> set previous" "j \<in> set (k # joined)" for x j
    proof -
      have "(x, mo_id (snd r ! j)) \<in> dependencies r (set ks)"
        unfolding dependencies_def using member [OF that(2)] that
        by (intro CollectI exI [of _ x] exI [of _ j]) (auto simp: Cons rest)
      then show ?thesis using member [OF that(2)] by simp
    qed
    have mono: "(dependencies r (set rest'))\<^sup>+ \<subseteq> (dependencies r (set ks))\<^sup>+"
      by (rule dependencies_mono) (auto simp: Cons rest)
    have late: "(mo_id (snd p ! i), mo_id (snd p ! j)) \<in> (dependencies r (set ks))\<^sup>+" if "i \<in> set (k # joined)" "j \<in> set rest'" for i j
      using after [OF that(2), of "mo_id (snd p ! i)"] that ids bound [of j] mono by (auto simp: Cons rest)
    have beside: "ordered_after (set ks) p r i j" if "i \<in> set (k # joined)" "j \<in> set (k # joined)" "i \<noteq> j" for i j
    proof -
      have "joins p k k" using that by (auto simp: joined_def split: if_splits)
      moreover have "joins p k i" "joins p k j" using that \<open>joins p k k\<close> by (auto simp: joined_def dest: set_takeWhileD)
      ultimately show ?thesis using member that bound [of k] by (auto simp: ordered_after_def Cons)
    qed
    have inner: "ordered_after (set ks) p r i j" if "ordered_after (set rest') q r i j" "i \<in> set rest'" "j \<in> set rest'" for i j
      using that ids bound [of i] bound [of j] joins_like [OF like] len mono
      by (auto simp: ordered_after_def Cons rest)
    have "(x, mo_id (snd p ! j)) \<in> (dependencies r (set ks))\<^sup>+" if "j \<in> set ks" "x \<in> set previous" for j x
    proof (cases "j \<in> set (k # joined)")
      case True
      then show ?thesis using edge [OF that(2)] by blast
    next
      case False
      then have "j \<in> set rest'" using that(1) by (auto simp: Cons rest)
      then show ?thesis using edge [OF that(2), of k] late [of k j] by (auto intro: trancl_into_trancl2)
    qed
    moreover have "ordered_after (set ks) p r (ks ! i) (ks ! j)" if "i < j" "j < length ks" for i j
    proof -
      let ?m = "k # joined"
      have ks: "ks = ?m @ rest'" by (simp add: Cons rest)
      have neq: "ks ! i \<noteq> ks ! j" using less.prems(3) that by (auto simp: nth_eq_iff_index_eq)
      consider "j < length ?m" | "i < length ?m" "length ?m \<le> j" | "length ?m \<le> i" by linarith
      then show ?thesis
      proof cases
        case 1
        then have "ks ! i = ?m ! i" "ks ! j = ?m ! j" "i < length ?m"
          using that by (simp_all add: ks nth_append del: append_Cons)
        then have "ks ! i \<in> set ?m" "ks ! j \<in> set ?m" using 1 by (metis nth_mem)+
        then show ?thesis using beside neq by blast
      next
        case 2
        then have "ks ! i = ?m ! i" "ks ! j = rest' ! (j - length ?m)" "j - length ?m < length rest'"
          using that by (simp_all add: ks nth_append del: append_Cons)
        then have "ks ! i \<in> set ?m" "ks ! j \<in> set rest'" using 2 by (metis nth_mem)+
        then show ?thesis using late by (auto simp: ordered_after_def)
      next
        case 3
        then have "ks ! i = rest' ! (i - length ?m)" "ks ! j = rest' ! (j - length ?m)" "j - length ?m < length rest'"
          "i - length ?m < j - length ?m"
          using that by (auto simp: ks nth_append simp del: append_Cons)
        then show ?thesis using inner [OF ord] by (metis nth_mem order_less_trans)
      qed
    qed
    moreover have "\<forall>j<length (snd p). j \<notin> set ks \<longrightarrow> snd r ! j = snd p ! j"
      using q keep len by (auto simp: group_updated_def Cons rest)
    ultimately show ?thesis using r eq plan_like_trans [OF like r(2)] by (auto simp: Cons)
  qed
qed

end

section \<open>Rank Mode keeps the authored order\<close>

definition ranked_joins :: "string \<Rightarrow> bool \<Rightarrow> plan \<Rightarrow> nat \<Rightarrow> nat \<Rightarrow> bool" where
  "ranked_joins phase parallelOutput p k j \<longleftrightarrow> (phase \<noteq> ''output'' \<or> parallelOutput) \<and>
     ranked_eligible (fst p) (snd p ! k) \<and> ranked_eligible (fst p) (snd p ! j)"

lemma ranked_eligible_like:
  assumes "plan_like p p'" "k < length (snd p)"
  shows "ranked_eligible (fst p') (snd p' ! k) = ranked_eligible (fst p) (snd p ! k)"
proof -
  have ids: "mo_step_ids (snd p' ! k) = mo_step_ids (snd p ! k)"
    by (rule module_like_fields [OF plan_like_module [OF assms]])
  show ?thesis
  proof (cases "\<exists>i. mo_step_ids (snd p ! k) = [i]")
    case True
    then obtain i where i: "mo_step_ids (snd p ! k) = [i]" by blast
    have "rel_option step_like (step_find (fst p) i) (step_find (fst p') i)"
      using assms(1) by (intro step_find_like) (simp add: plan_like_def)
    then show ?thesis unfolding ranked_eligible_def ids i
      by (cases rule: option.rel_cases) (auto simp: step_like_def)
  next
    case False
    then show ?thesis unfolding ranked_eligible_def ids by (auto split: list.splits)
  qed
qed

interpretation ranked: group_loop "ranked_groups phase parallelOutput" "ranked_joins phase parallelOutput" for phase parallelOutput
proof unfold_locales
  show "ranked_groups phase parallelOutput [] index previous p = Inr p" for index previous p by simp
  show "ranked_joins phase parallelOutput p' k j = ranked_joins phase parallelOutput p k j"
    if "plan_like p p'" "k < length (snd p)" "j < length (snd p)" for p p' k j
    using ranked_eligible_like that by (simp add: ranked_joins_def)
  show "\<exists>p' index'. group_updated previous (set (k # joined)) p p' \<and>
        ranked_groups phase parallelOutput (k # rest) index previous p =
          ranked_groups phase parallelOutput (drop (length joined) rest) index' (map (\<lambda>k. mo_id (snd p ! k)) (k # joined)) p'"
    if "plan_ok p" "set (k # rest) \<subseteq> {..<length (snd p)}"
      and joined: "joined = (if ranked_joins phase parallelOutput p k k then takeWhile (ranked_joins phase parallelOutput p k) rest else [])"
    for p k rest joined previous index
  proof -
    have more: "(if (phase \<noteq> ''output'' \<or> parallelOutput) \<and> ranked_eligible (fst p) (snd p ! k)
        then takeWhile (\<lambda>k. ranked_eligible (fst p) (snd p ! k)) rest else []) = joined"
      unfolding joined ranked_joins_def by (auto intro: takeWhile_cong)
    have "set (k # joined) \<subseteq> {..<length (snd p)}"
      using that(2) unfolding joined by (auto dest: set_takeWhileD)
    from ranked_members_updated [OF that(1) this] obtain p' where
      "fold_result (ranked_member phase (if length (k # joined) > 1 then Some (''ranked:'' @ phase @ '':'' @ digits index) else None) previous)
         (zip [0..<length (k # joined)] (k # joined)) p = Inr p'" "group_updated previous (set (k # joined)) p p'"
      by blast
    then show ?thesis
      by (intro exI [of _ p'] exI [of _ "index + length (k # joined)"])
        (simp only: ranked_groups.simps Let_def more and_then_simps simp_thms)
  qed
qed

lemma ranked_phase_orders:
  assumes "plan_ok p"
  obtains p' where "ranked_phase parallelOutput phase p = Inr p'" "plan_like p p'"
    "\<And>k. k < length (snd p) \<Longrightarrow> mo_phase (snd p ! k) \<noteq> phase \<Longrightarrow> snd p' ! k = snd p ! k"
    "\<And>i j. i < j \<Longrightarrow> j < length (phase_order p phase) \<Longrightarrow>
       ranked.ordered_after phase parallelOutput (set (phase_order p phase)) p p' (phase_order p phase ! i) (phase_order p phase ! j)"
proof -
  have "set (phase_order p phase) \<subseteq> {..<length (snd p)}" by (auto simp: phase_order_mem)
  from ranked.loop_orders [OF assms this distinct_phase_order, of phase parallelOutput 0 "[]"] show ?thesis
    using that unfolding ranked_phase_def by (auto simp: phase_order_mem)
qed

lemma ordered_after_later:
  assumes "ranked.ordered_after phase parallelOutput K p q a b" "a < length (snd p)" "b < length (snd p)" "a \<in> K" "b \<in> K"
    and "\<And>k. k \<in> K \<Longrightarrow> snd r ! k = snd q ! k"
  shows "ranked.ordered_after phase parallelOutput K p r a b"
proof -
  have "dependencies r K = dependencies q K" unfolding dependencies_def using assms(6) by (metis (no_types, opaque_lifting))
  then show ?thesis using assms by (simp add: ranked.ordered_after_def)
qed

lemma ranked_phases:
  assumes "plan_ok p"
  obtains q where "fold_result (ranked_phase parallelOutput) [''input'', ''output''] p = Inr q" "plan_like p q"
    "\<And>phase i j. phase \<in> {''input'', ''output''} \<Longrightarrow> i < j \<Longrightarrow> j < length (phase_order p phase) \<Longrightarrow>
       ranked.ordered_after phase parallelOutput (set (phase_order p phase)) p q (phase_order p phase ! i) (phase_order p phase ! j)"
proof -
  obtain p1 where p1: "ranked_phase parallelOutput ''input'' p = Inr p1" "plan_like p p1"
    and ord1: "\<And>i j. i < j \<Longrightarrow> j < length (phase_order p ''input'') \<Longrightarrow>
       ranked.ordered_after ''input'' parallelOutput (set (phase_order p ''input'')) p p1 (phase_order p ''input'' ! i) (phase_order p ''input'' ! j)"
    by (rule ranked_phase_orders [OF assms, of parallelOutput "''input''"]) blast
  obtain p2 where p2: "ranked_phase parallelOutput ''output'' p1 = Inr p2" "plan_like p1 p2"
    and keep: "\<And>k. k < length (snd p1) \<Longrightarrow> mo_phase (snd p1 ! k) \<noteq> ''output'' \<Longrightarrow> snd p2 ! k = snd p1 ! k"
    and ord2: "\<And>i j. i < j \<Longrightarrow> j < length (phase_order p1 ''output'') \<Longrightarrow>
       ranked.ordered_after ''output'' parallelOutput (set (phase_order p1 ''output'')) p1 p2 (phase_order p1 ''output'' ! i) (phase_order p1 ''output'' ! j)"
    by (rule ranked_phase_orders [OF plan_ok_like [OF p1(2) assms], of parallelOutput "''output''"]) blast
  have len: "length (snd p1) = length (snd p)" by (rule plan_like_length [OF p1(2)])
  have ids: "mo_id (snd p1 ! k) = mo_id (snd p ! k)" "mo_phase (snd p1 ! k) = mo_phase (snd p ! k)" if "k < length (snd p)" for k
    by (rule module_like_fields [OF plan_like_module [OF p1(2) that]])+
  have "ranked.ordered_after ''input'' parallelOutput (set (phase_order p ''input'')) p p2 (phase_order p ''input'' ! i) (phase_order p ''input'' ! j)"
    if "i < j" "j < length (phase_order p ''input'')" for i j
    using ord1 [OF that]
  proof (rule ordered_after_later)
    show "phase_order p ''input'' ! i \<in> set (phase_order p ''input'')" "phase_order p ''input'' ! j \<in> set (phase_order p ''input'')"
      using that by simp_all
    then show "phase_order p ''input'' ! i < length (snd p)" "phase_order p ''input'' ! j < length (snd p)"
      by (simp_all add: phase_order_mem)
    show "snd p2 ! k = snd p1 ! k" if "k \<in> set (phase_order p ''input'')" for k
      using that keep [of k] ids len by (auto simp: phase_order_mem)
  qed
  moreover have "ranked.ordered_after ''output'' parallelOutput (set (phase_order p ''output'')) p p2 (phase_order p ''output'' ! i) (phase_order p ''output'' ! j)"
    if ij: "i < j" "j < length (phase_order p ''output'')" for i j
  proof -
    have "phase_order p ''output'' ! i < length (snd p)" "phase_order p ''output'' ! j < length (snd p)"
      using nth_mem [of i "phase_order p ''output''"] nth_mem [of j "phase_order p ''output''"] ij by (simp_all add: phase_order_mem)
    then show ?thesis
      using ord2 [of i j] ij ids(1) len ranked_eligible_like [OF p1(2)]
      by (auto simp: ranked.ordered_after_def ranked_joins_def phase_order_like [OF p1(2)])
  qed
  ultimately show ?thesis
    using that [of p2] p1(1) p2(1) plan_like_trans [OF p1(2) p2(2)] by auto
qed

text \<open>A check that may run beside others: one step, not conditional on another's result, that only
  lets content pass or blocks it and does not transform on an unknown result.\<close>

definition plain_check :: "Step list \<Rightarrow> Module \<Rightarrow> bool" where
  "plain_check steps m \<longleftrightarrow> (\<exists>i s. mo_step_ids m = [i] \<and> step_find steps i = Some s \<and> st_trigger s = Always \<and>
     (st_on_unsafe s = ''allow'' \<or> st_on_unsafe s = ''block'') \<and>
     map_of (rev (st_parameters s)) ''on_unknown'' \<noteq> Some ''transform'')"

lemma ranked_eligible_plain: "ranked_eligible steps m \<Longrightarrow> plain_check steps m"
  by (auto simp: ranked_eligible_def plain_check_def split: list.splits option.splits)

text \<open>Claim C18. Rank Mode is order-preserving: when every module names existing steps, scheduling
  succeeds, keeps the steps and the modules in place, and orders any two modules of a phase by
  their authored position: the later one depends, directly or through other modules of the
  phase, on the earlier one, unless both are independent read-only checks (one unconditional
  allow or block step that does not transform unknown results) that may run in one group, which
  for the output phase also needs parallel output. In particular every module that may transform
  the content is ordered with all others.\<close>

theorem ranked_schedule_order:
  assumes "plan_ok (steps, modules)"
  shows "\<exists>steps' modules'. scheduleRankedChecks steps modules parallelOutput = Inr (steps', modules') \<and>
    map st_id steps' = map st_id steps \<and> map mo_id modules' = map mo_id modules \<and>
    (\<forall>phase\<in>{''input'', ''output''}. \<forall>i j. i < j \<longrightarrow> j < length (phase_order (steps, modules) phase) \<longrightarrow>
      (let ks = phase_order (steps, modules) phase; a = modules ! (ks ! i); b = modules ! (ks ! j) in
        (mo_id a, mo_id b) \<in> (dependencies (steps', modules') (set ks))\<^sup>+ \<or>
        (plain_check steps a \<and> plain_check steps b \<and> (phase \<noteq> ''output'' \<or> parallelOutput) \<and>
         mo_depends_on (modules' ! (ks ! i)) = mo_depends_on (modules' ! (ks ! j)))))"
proof -
  obtain q where q: "fold_result (ranked_phase parallelOutput) [''input'', ''output''] (steps, modules) = Inr q"
    "plan_like (steps, modules) q"
    and ord: "\<And>phase i j. phase \<in> {''input'', ''output''} \<Longrightarrow> i < j \<Longrightarrow> j < length (phase_order (steps, modules) phase) \<Longrightarrow>
       ranked.ordered_after phase parallelOutput (set (phase_order (steps, modules) phase)) (steps, modules) q
         (phase_order (steps, modules) phase ! i) (phase_order (steps, modules) phase ! j)"
    by (rule ranked_phases [OF assms, of parallelOutput]) blast
  have "scheduleRankedChecks steps modules parallelOutput = Inr (map with_view (fst q), snd q)"
    unfolding scheduleRankedChecks_def q(1) by (simp add: case_prod_beta)
  moreover have "map st_id (map with_view (fst q)) = map st_id steps"
    using plan_like_ids(1) [OF q(2)] by (simp add: with_view_def comp_def)
  moreover have "dependencies (map with_view (fst q), snd q) = dependencies q" by (simp add: dependencies_def fun_eq_iff)
  moreover have "map mo_id (snd q) = map mo_id modules" using plan_like_ids(2) [OF q(2)] by simp
  ultimately show ?thesis
    using ord by (intro exI [of _ "map with_view (fst q)"] exI [of _ "snd q"])
      (auto simp: ranked.ordered_after_def ranked_joins_def Let_def dest: ranked_eligible_plain)
qed

text \<open>A plan of three checks: two read-only ones and, between them, a redaction.\<close>

definition sample_step :: "string \<Rightarrow> string \<Rightarrow> string \<Rightarrow> Trigger \<Rightarrow> Step" where
  "sample_step i contract action trigger = \<lparr>st_id = i, st_capability = ''c'', st_contract_ref = contract, st_phases = [''input''],
     st_on_unsafe = action, st_trigger = trigger, st_parameters = []\<rparr>"

definition sample_module :: "string \<Rightarrow> string list \<Rightarrow> Module" where
  "sample_module i steps = \<lparr>mo_id = i, mo_module = ''m'', mo_phase = ''input'', mo_step_ids = steps, mo_depends_on = [],
     mo_input_view = [], mo_required_for_release = True, mo_timeout_ms = 750, mo_failure_mode = ''fail_closed''\<rparr>"

definition sample_steps :: "Step list" where
  "sample_steps = [sample_step ''a'' ''tali.guard.jailbreak.v1'' ''block'' Always, sample_step ''b'' ''local'' ''transform'' Always,
     sample_step ''c'' ''local'' ''block'' Always]"

definition sample_modules :: "Module list" where
  "sample_modules = [sample_module ''ma'' [''a''], sample_module ''mb'' [''b''], sample_module ''mc'' [''c'']]"

lemma sample_plan_ok: "plan_ok (sample_steps, sample_modules)"
  by (simp add: plan_ok_def sample_steps_def sample_modules_def sample_step_def sample_module_def)

theorem ranked_schedule_order_witness:
  "\<exists>steps' modules'. scheduleRankedChecks sample_steps sample_modules True = Inr (steps', modules') \<and>
     map st_id steps' = [''a'', ''b'', ''c'']"
  using ranked_schedule_order [OF sample_plan_ok, of True]
  by (auto simp: sample_steps_def sample_step_def)

section \<open>Local-first selection\<close>

definition emitted_ids :: "Step list \<Rightarrow> nat list list \<Rightarrow> string list" where
  "emitted_ids steps us = concat (map (map (\<lambda>k. st_id (steps ! k))) us)"

text \<open>An order of the units in which each is ready when its turn comes, and the greedy order, in
  which each is moreover the first by key among those that are ready.\<close>

definition valid_order :: "Step list \<Rightarrow> nat list list \<Rightarrow> nat list list \<Rightarrow> bool" where
  "valid_order steps transforms us \<longleftrightarrow>
     (\<forall>n<length us. unit_ready steps transforms (emitted_ids steps (take n us)) (us ! n))"

definition greedy_order :: "Step list \<Rightarrow> nat list list \<Rightarrow> nat list list \<Rightarrow> bool" where
  "greedy_order steps transforms us \<longleftrightarrow> valid_order steps transforms us \<and>
     (\<forall>n<length us. \<forall>v\<in>set (drop n us). unit_ready steps transforms (emitted_ids steps (take n us)) v \<longrightarrow>
        unit_key steps (us ! n) \<le> unit_key steps v)"

lemma emitted_ids_simps [simp]:
  "emitted_ids steps [] = []" "emitted_ids steps (us @ vs) = emitted_ids steps us @ emitted_ids steps vs"
  "emitted_ids steps (u # us) = map (\<lambda>k. st_id (steps ! k)) u @ emitted_ids steps us"
  by (simp_all add: emitted_ids_def)

lemma unit_ready_mono:
  assumes "set e \<subseteq> set e'" "unit_ready steps transforms e u"
  shows "unit_ready steps transforms e' u"
  using assms by (fastforce simp: unit_ready_def prerequisite_met_def list_all_iff split: Trigger.splits)

lemma select_units_unfold:
  "select_units steps transforms remaining emitted ordered =
     (if remaining = [] then Inr ordered
      else case sort_key (unit_key steps) (filter (unit_ready steps transforms emitted) remaining) of
          [] \<Rightarrow> Inl cycle_error
        | u # _ \<Rightarrow> select_units steps transforms (remove1 u remaining)
            (emitted @ map (\<lambda>k. st_id (steps ! k)) u) (ordered @ u))"
  by (rule select_units.simps)

lemma sort_filter_head_least:
  assumes "sort_key f (filter P xs) = u # us" "v \<in> set xs" "P v"
  shows "f u \<le> f v"
proof -
  have "v \<in> set (sort_key f (filter P xs))" using assms(2,3) by simp
  then have "v \<in> set (u # us)" unfolding assms(1) .
  moreover have "sorted (map f (u # us))" using assms(1) by (metis sorted_sort_key)
  ultimately show ?thesis by auto
qed

lemma select_units_greedy:
  assumes "select_units steps transforms remaining (emitted_ids steps us) (concat us) = Inr ordered"
    and "greedy_order steps transforms us"
    and "\<And>n v. n < length us \<Longrightarrow> v \<in> set remaining \<Longrightarrow>
       unit_ready steps transforms (emitted_ids steps (take n us)) v \<Longrightarrow> unit_key steps (us ! n) \<le> unit_key steps v"
  shows "\<exists>vs. ordered = concat vs \<and> mset vs = mset us + mset remaining \<and> greedy_order steps transforms vs"
  using assms
proof (induction "length remaining" arbitrary: remaining us)
  case 0
  then show ?case by (auto simp: select_units_unfold [of _ _ "[]"])
next
  case (Suc n)
  then have ne: "remaining \<noteq> []" by auto
  obtain u rest where u: "sort_key (unit_key steps) (filter (unit_ready steps transforms (emitted_ids steps us)) remaining) = u # rest"
    using Suc.prems(1) ne by (auto simp: select_units_unfold [of _ _ remaining] split: list.splits)
  have mem: "u \<in> set remaining" "unit_ready steps transforms (emitted_ids steps us) u"
    using sort_filter_head_mem [OF u] by auto
  have step: "select_units steps transforms (remove1 u remaining) (emitted_ids steps (us @ [u])) (concat (us @ [u])) = Inr ordered"
    using Suc.prems(1) ne u by (simp add: select_units_unfold [of _ _ remaining])
  have least: "unit_key steps u \<le> unit_key steps v"
    if "v \<in> set remaining" "unit_ready steps transforms (emitted_ids steps us) v" for v
    using sort_filter_head_least [OF u that] .
  have len: "n = length (remove1 u remaining)" using Suc.hyps(2) mem(1) by (simp add: length_remove1)
  have "greedy_order steps transforms (us @ [u])"
    using Suc.prems(2,3) mem by (auto simp: greedy_order_def valid_order_def nth_append less_Suc_eq)
  moreover have "unit_key steps ((us @ [u]) ! m) \<le> unit_key steps v"
    if "m < length (us @ [u])" "v \<in> set (remove1 u remaining)"
      "unit_ready steps transforms (emitted_ids steps (take m (us @ [u]))) v" for m v
    using that Suc.prems(3) least set_remove1_subset [of u remaining] by (auto simp: nth_append less_Suc_eq)
  ultimately obtain vs where "ordered = concat vs" "mset vs = mset (us @ [u]) + mset (remove1 u remaining)" "greedy_order steps transforms vs"
    using Suc.hyps(1) [OF len step] by blast
  moreover have "mset (us @ [u]) + mset (remove1 u remaining) = mset us + mset remaining"
    using mem(1) by simp
  ultimately show ?case by metis
qed

lemma select_units_complete:
  assumes "valid_order steps transforms vs" "set remaining \<subseteq> set vs"
    and "\<And>v. v \<in> set vs \<Longrightarrow> v \<notin> set remaining \<Longrightarrow> \<forall>k\<in>set v. st_id (steps ! k) \<in> set emitted"
    and "distinct remaining"
  shows "\<exists>ordered. select_units steps transforms remaining emitted order0 = Inr ordered"
  using assms
proof (induction "length remaining" arbitrary: remaining emitted order0)
  case 0
  then show ?case by (simp add: select_units_unfold [of _ _ "[]"])
next
  case (Suc n)
  then have ne: "remaining \<noteq> []" by auto
  obtain m where m: "m < length vs" "vs ! m \<in> set remaining" "\<And>j. j < m \<Longrightarrow> vs ! j \<notin> set remaining"
  proof -
    have "\<exists>m. m < length vs \<and> vs ! m \<in> set remaining"
      using ne Suc.prems(2) by (metis in_set_conv_nth last_in_set subset_iff)
    then show ?thesis using that exists_least_iff [of "\<lambda>m. m < length vs \<and> vs ! m \<in> set remaining"]
      by (metis order_less_trans)
  qed
  have "set (emitted_ids steps (take m vs)) \<subseteq> set emitted"
  proof
    fix x
    assume x: "x \<in> set (emitted_ids steps (take m vs))"
    obtain v k where v: "v \<in> set (take m vs)" "k \<in> set v" "x = st_id (steps ! k)"
      using x by (auto simp: emitted_ids_def)
    then obtain j where "j < m" "v = vs ! j" using m(1) by (auto simp: in_set_conv_nth)
    then show "x \<in> set emitted" using Suc.prems(3) [of v] m v by auto
  qed
  then have "unit_ready steps transforms emitted (vs ! m)"
    using Suc.prems(1) m(1) unit_ready_mono unfolding valid_order_def by blast
  note ready = this
  obtain u rest where u: "sort_key (unit_key steps) (filter (unit_ready steps transforms emitted) remaining) = u # rest"
  proof -
    have "vs ! m \<in> set (sort_key (unit_key steps) (filter (unit_ready steps transforms emitted) remaining))"
      using m(2) ready by simp
    then show ?thesis using that by (cases "sort_key (unit_key steps) (filter (unit_ready steps transforms emitted) remaining)") auto
  qed
  have mem: "u \<in> set remaining" using sort_filter_head_mem [OF u] by auto
  have "\<exists>ordered. select_units steps transforms (remove1 u remaining) (emitted @ map (\<lambda>k. st_id (steps ! k)) u) (order0 @ u) = Inr ordered"
  proof (rule Suc.hyps(1))
    show "n = length (remove1 u remaining)" using Suc.hyps(2) mem by (simp add: length_remove1)
    show "valid_order steps transforms vs" by (rule Suc.prems(1))
    show "set (remove1 u remaining) \<subseteq> set vs" using Suc.prems(2) set_remove1_subset by fast
    show "\<forall>k\<in>set v. st_id (steps ! k) \<in> set (emitted @ map (\<lambda>k. st_id (steps ! k)) u)"
      if "v \<in> set vs" "v \<notin> set (remove1 u remaining)" for v
      using that Suc.prems(3,4) by (cases "v = u") auto
    show "distinct (remove1 u remaining)" using Suc.prems(4) by simp
  qed
  then show ?case using ne u by (simp add: select_units_unfold [of _ _ remaining])
qed

lemma select_units_error:
  assumes "select_units steps transforms remaining emitted ordered = Inl e"
  shows "e = cycle_error"
  using assms
proof (induction "length remaining" arbitrary: remaining emitted ordered)
  case 0
  then show ?case by (simp add: select_units_unfold [of _ _ "[]"])
next
  case (Suc n)
  then have ne: "remaining \<noteq> []" by auto
  show ?case
  proof (cases "sort_key (unit_key steps) (filter (unit_ready steps transforms emitted) remaining)")
    case Nil
    then show ?thesis using Suc.prems ne by (simp add: select_units_unfold [of _ _ remaining])
  next
    case (Cons u rest)
    then have "n = length (remove1 u remaining)"
      using Suc.hyps(2) sort_filter_head_mem(1) [OF Cons] by (simp add: length_remove1)
    then show ?thesis using Suc.hyps(1) Suc.prems ne Cons by (simp add: select_units_unfold [of _ _ remaining])
  qed
qed

text \<open>The units partition the steps.\<close>

lemma update_first_concat:
  "list_ex P us \<Longrightarrow> mset (concat (update_first P (\<lambda>u. u @ [k]) us)) = add_mset k (mset (concat us))"
  by (induction us) auto

lemma update_first_nonempty:
  "[] \<notin> set us \<Longrightarrow> [] \<notin> set (update_first P (\<lambda>u. u @ [k]) us)"
  by (induction us) auto

lemma check_units_partition: "mset (concat (check_units steps modules)) = mset [0..<length steps]" "[] \<notin> set (check_units steps modules)"
proof -
  have "mset (concat (fold (add_to_unit steps modules) ks us)) = mset ks + mset (concat us) \<and>
      [] \<notin> set (fold (add_to_unit steps modules) ks us)" if "[] \<notin> set us" for ks us
    using that
  proof (induction ks arbitrary: us)
    case (Cons k ks)
    have "mset (concat (add_to_unit steps modules k us)) = add_mset k (mset (concat us))" "[] \<notin> set (add_to_unit steps modules k us)"
      using Cons.prems by (auto simp: add_to_unit_def update_first_concat update_first_nonempty)
    then show ?case using Cons.IH by simp
  qed simp
  from this [of "[]" "[0..<length steps]"]
  show "mset (concat (check_units steps modules)) = mset [0..<length steps]" "[] \<notin> set (check_units steps modules)"
    by (simp_all add: check_units_def)
qed

lemma distinct_units: "distinct (concat us) \<Longrightarrow> [] \<notin> set us \<Longrightarrow> distinct us"
proof (induction us)
  case (Cons u us)
  then obtain k where "k \<in> set u" by (cases u) auto
  then have "u \<notin> set us" using Cons.prems(1) by auto
  then show ?case using Cons by simp
qed simp

lemma distinct_check_units: "distinct (check_units steps modules)"
  using check_units_partition [of steps modules] distinct_units [of "check_units steps modules"]
  by (metis distinct_upt mset_eq_imp_distinct_iff)

lemma check_units_distinct_positions: "distinct (concat (check_units steps modules))"
  using check_units_partition(1) [of steps modules] by (metis distinct_upt mset_eq_imp_distinct_iff)

text \<open>The second grouping loop.\<close>

definition checks_joins :: "string \<Rightarrow> bool \<Rightarrow> plan \<Rightarrow> nat \<Rightarrow> nat \<Rightarrow> bool" where
  "checks_joins phase parallelOutput p k j \<longleftrightarrow> (phase = ''input'' \<or> parallelOutput) \<and>
     independent (module_step (fst p) (snd p ! k)) (module_step (fst p) (snd p ! k)) \<and>
     independent (module_step (fst p) (snd p ! k)) (module_step (fst p) (snd p ! j))"

lemma module_step_like:
  assumes "plan_like p p'" "k < length (snd p)"
  shows "rel_option step_like (module_step (fst p) (snd p ! k)) (module_step (fst p') (snd p' ! k))"
proof -
  have "mo_step_ids (snd p' ! k) = mo_step_ids (snd p ! k)"
    by (rule module_like_fields [OF plan_like_module [OF assms]])
  moreover have "rel_option step_like (step_find (fst p) i) (step_find (fst p') i)" for i
    using assms(1) by (intro step_find_like) (simp add: plan_like_def)
  ultimately show ?thesis by (auto simp: module_step_def split: list.splits)
qed

lemma independent_like:
  assumes "rel_option step_like l l'" "rel_option step_like s s'"
  shows "independent l' s' = independent l s"
proof (cases "l = None \<or> s = None")
  case True
  then show ?thesis using assms by (auto simp: independent_def split: option.splits)
next
  case False
  then obtain a b a' b' where *: "l = Some a" "s = Some b" "l' = Some a'" "s' = Some b'" "step_like a a'" "step_like b b'"
    using assms by (auto simp: option_rel_Some1)
  then have "remote a' = remote a" "remote b' = remote b" by (simp_all add: remote_like)
  then show ?thesis using * by (simp add: independent_def step_like_def)
qed

interpretation checks: group_loop "checks_groups phase parallelOutput" "checks_joins phase parallelOutput" for phase parallelOutput
proof unfold_locales
  show "checks_groups phase parallelOutput [] index previous p = Inr p" for index previous p by simp
  show "checks_joins phase parallelOutput p' k j = checks_joins phase parallelOutput p k j"
    if "plan_like p p'" "k < length (snd p)" "j < length (snd p)" for p p' k j
    using independent_like [OF module_step_like [OF that(1)] module_step_like [OF that(1)]] that(2,3)
    by (simp add: checks_joins_def)
  show "\<exists>p' index'. group_updated previous (set (k # joined)) p p' \<and>
        checks_groups phase parallelOutput (k # rest) index previous p =
          checks_groups phase parallelOutput (drop (length joined) rest) index' (map (\<lambda>k. mo_id (snd p ! k)) (k # joined)) p'"
    if "plan_ok p" "set (k # rest) \<subseteq> {..<length (snd p)}"
      and joined: "joined = (if checks_joins phase parallelOutput p k k then takeWhile (checks_joins phase parallelOutput p k) rest else [])"
    for p k rest joined previous index
  proof -
    have more: "(if (phase = ''input'' \<or> parallelOutput) \<and> independent (module_step (fst p) (snd p ! k)) (module_step (fst p) (snd p ! k))
        then takeWhile (\<lambda>j. independent (module_step (fst p) (snd p ! k)) (module_step (fst p) (snd p ! j))) rest else []) = joined"
      unfolding joined checks_joins_def by (auto intro: takeWhile_cong)
    have "set (k # joined) \<subseteq> {..<length (snd p)}"
      using that(2) unfolding joined by (auto dest: set_takeWhileD)
    from checks_members_updated [OF that(1) this] obtain p' where
      "fold_result (checks_member phase (if length (k # joined) > 1 then Some (''checks:'' @ phase @ '':'' @ digits index) else None) previous k)
         (k # joined) p = Inr p'" "group_updated previous (set (k # joined)) p p'"
      by blast
    then show ?thesis
      by (intro exI [of _ p'] exI [of _ "index + length (k # joined)"])
        (simp only: checks_groups.simps Let_def more and_then_simps simp_thms)
  qed
qed

lemma checks_phases_like:
  assumes "plan_ok p"
  shows "\<exists>p'. fold_result (checks_phase parallelOutput) phases p = Inr p' \<and> plan_like p p'"
  using assms
proof (induction phases arbitrary: p)
  case (Cons phase phases)
  have "set (phase_order p phase) \<subseteq> {..<length (snd p)}" by (auto simp: phase_order_mem)
  from checks.loop_orders [OF Cons.prems this distinct_phase_order, of phase parallelOutput 0 "[]"] obtain q where
    q: "checks_phase parallelOutput phase p = Inr q" "plan_like p q" by (auto simp: checks_phase_def)
  from Cons.IH [OF plan_ok_like [OF q(2) Cons.prems]] obtain r where
    "fold_result (checks_phase parallelOutput) phases q = Inr r" "plan_like q r" by blast
  then show ?case using q plan_like_trans [OF q(2)] by auto
qed simp

text \<open>Claim C19. Local-first scheduling is the greedy topological order of the units: with modules
  that name existing steps it fails exactly when no order of the units meets their prerequisites
  and keeps the transformations in sequence; otherwise the steps come out as a permutation,
  unit by unit, each unit being, by stage, action and authored position, the first of those whose
  prerequisites have been emitted and whose earlier transformations have run.\<close>

theorem local_first_schedule:
  assumes "plan_ok (steps, modules)"
  defines "units \<equiv> check_units steps modules"
  defines "transforms \<equiv> transform_units steps units"
  shows "case scheduleChecks steps modules False parallelOutput of
      Inl e \<Rightarrow> e = cycle_error \<and> \<not> (\<exists>us. mset us = mset units \<and> valid_order steps transforms us)
    | Inr (steps', modules') \<Rightarrow> mset (map mo_id modules') = mset (map mo_id modules) \<and>
        (\<exists>us. mset us = mset units \<and> greedy_order steps transforms us \<and> mset (concat us) = mset [0..<length steps] \<and>
           map st_id steps' = map (\<lambda>k. st_id (steps ! k)) (concat us))"
proof (cases "select_units steps transforms units [] []")
  case (Inl e)
  then have "e = cycle_error" by (rule select_units_error)
  moreover have False if "mset us = mset units" "valid_order steps transforms us" for us
  proof -
    have "\<exists>ordered. select_units steps transforms units [] [] = Inr ordered"
      using that(2) mset_eq_setD [OF that(1)] distinct_check_units
      by (intro select_units_complete [of steps transforms us]) (auto simp: units_def)
    then show False using Inl by simp
  qed
  ultimately show ?thesis using Inl by (auto simp: scheduleChecks_def Let_def units_def transforms_def)
next
  case (Inr ordered)
  have "greedy_order steps transforms []" by (simp add: greedy_order_def valid_order_def)
  with select_units_greedy [of steps transforms units "[]" ordered] Inr obtain us where
    us: "ordered = concat us" "mset us = mset units" "greedy_order steps transforms us" by auto
  have perm: "mset (concat us) = mset [0..<length steps]"
  proof -
    have "mset (concat xs) = \<Sum>\<^sub># (image_mset mset (mset xs))" for xs :: "nat list list"
      by (induction xs) simp_all
    then show ?thesis using us(2) check_units_partition(1) [of steps modules] by (metis units_def)
  qed
  have ids: "st_id ` set (map (nth steps) ordered) = st_id ` set steps"
    using mset_eq_setD [OF perm] by (metis map_nth set_map us(1))
  then have "plan_ok (map (nth steps) ordered, modules)" using assms(1) by (simp add: plan_ok_def)
  from checks_phases_like [OF this] obtain q where
    q: "fold_result (checks_phase parallelOutput) [''input'', ''output''] (map (nth steps) ordered, modules) = Inr q"
    "plan_like (map (nth steps) ordered, modules) q" by blast
  define final where "final = map (\<lambda>s. s\<lparr>st_parameters := map_entries (st_parameters s)\<rparr>) (fst q)"
  have "scheduleChecks steps modules False parallelOutput = Inr (final, sort_key (module_key final) (snd q))"
    using Inr q(1) by (simp add: scheduleChecks_def Let_def units_def transforms_def final_def case_prod_beta)
  moreover have "map st_id final = map (\<lambda>k. st_id (steps ! k)) (concat us)"
    using plan_like_ids(1) [OF q(2)] us(1) by (simp add: final_def comp_def)
  moreover have "mset (map mo_id (sort_key (module_key final) (snd q))) = mset (map mo_id modules)"
  proof -
    have "map mo_id (snd q) = map mo_id modules" using plan_like_ids(2) [OF q(2)] by simp
    then show ?thesis by (metis mset_map mset_sort)
  qed
  ultimately show ?thesis using us perm by auto
qed

theorem local_first_schedule_witness:
  "case scheduleChecks sample_steps sample_modules False True of
      Inl e \<Rightarrow> False
    | Inr (steps', modules') \<Rightarrow> mset (map mo_id modules') = mset [''ma'', ''mb'', ''mc''] \<and>
        map st_id steps' = [''c'', ''b'', ''a'']"
proof -
  have "map_sum id (\<lambda>p. map st_id (fst p)) (scheduleChecks sample_steps sample_modules False True) = Inr [''c'', ''b'', ''a'']"
    by code_simp
  then show ?thesis
    using local_first_schedule [OF sample_plan_ok, of True]
    by (auto simp: sample_modules_def sample_module_def split: sum.splits prod.splits)
qed

end
