(* ===== verification/Spec2Isabelle.thy ===== *)
theory Spec2Isabelle
  imports Admission_Monitor Guardrail_Draft Endpoint_Service Zip_Archive Request_Gate Traffic_Routing Work_Queue Budgets Router_Invariants Execution_Plan
begin

text \<open>
  A verification development for the TaskLattice Guard controller, the TypeScript program under
  \<^verbatim>\<open>src/controller\<close>. The controller lets accounts design Guardrails, publishes them through
  reviewed Router changes, distributes the result to Runners over control sessions, and admits the
  requests and telemetry of all of them. Each theory models one part, in the order of its source,
  and states what makes that part correct; this theory imports them all and states two properties
  that span parts.

  \<^bold>\<open>How the program is modelled.\<close> A pure function of the source is a definition of the same name.
  A database transaction maps a record of tables (a table is the list of its rows) to the new tables
  or to a thrown value, which rolls it back; an in-memory service is a record passed through its
  operations; asynchronous code is a sequence of explicit steps. Errors are values of the sum type
  of \<^verbatim>\<open>Js_Prelude\<close>, with the message, status and code of the source. Clocks, random
  identifiers, hashes, and code outside the repository (schema-library messages, the generated list
  of enforcement actions) are arguments. Strings are lists of characters below 256 and numbers are
  exact integers or rationals, so Unicode beyond that range and floating-point rounding are outside
  the model.

  \<^bold>\<open>The theories.\<close>
  \<^item> \<^verbatim>\<open>Js_Prelude\<close>: JSON values, thrown values, the string, array and map operations the
    source uses, and the locale of systems with an invariant that most stateful parts interpret.
  \<^item> \<^verbatim>\<open>Rbac\<close>, \<^verbatim>\<open>Route_Permissions\<close>, \<^verbatim>\<open>Access_Tokens\<close>, \<^verbatim>\<open>Project_Context\<close>,
    \<^verbatim>\<open>Request_Gate\<close>: account roles (\<^verbatim>\<open>shared/rbac.ts\<close>), the table from routes to
    permissions (\<^verbatim>\<open>server/http/token-permissions.ts\<close>), personal access tokens
    (\<^verbatim>\<open>shared/access-tokens.ts\<close>, \<^verbatim>\<open>server/services/access-tokens.ts\<close>), the authority a
    request runs under (\<^verbatim>\<open>server/services/project-context.ts\<close> and its lookups), and the
    middleware of \<^verbatim>\<open>server/http/app.ts\<close> that combines them. Shown: what an admitted token
    request was granted, that administrators only read projects, that a created token
    authenticates, the token limit, that tokens grant what their role allows, and that the route table means what its templates say.
  \<^item> \<^verbatim>\<open>Traffic_Selector\<close>, \<^verbatim>\<open>Traffic_Routing\<close>: selectors, routing inputs, drafts and the
    preview of \<^verbatim>\<open>shared/traffic-routing.ts\<close>. Shown: the glob matcher decides the language of
    its pattern, a draft without issues routes every accepted input to exactly one Route, the issue
    lists are exact.
  \<^item> \<^verbatim>\<open>Router_Service\<close>, \<^verbatim>\<open>Router_Invariants\<close>: drafts, reviewed publication, emergency
    changes, revisions and the snapshots sent to Runners, of
    \<^verbatim>\<open>server/services/traffic-routing.ts\<close>. Shown by rule induction over its operations: an
    active snapshot was reviewed, an approval applies what was reviewed, decided requests are final.
  \<^item> \<^verbatim>\<open>Execution_Plan\<close>: both schedulers of \<^verbatim>\<open>server/domain/execution-plan.ts\<close> with their
    updates in place; a locale of group loops is interpreted on both. Shown: the order, the
    dependencies and the groups of the resulting plan.
  \<^item> \<^verbatim>\<open>Json_Text\<close>, \<^verbatim>\<open>Policy_Parameters\<close>, \<^verbatim>\<open>Guardrail_Draft\<close>: JSON text and
    \<^verbatim>\<open>shared/canonical-json.ts\<close>; Policy definitions, their parameters and their checks
    (\<^verbatim>\<open>shared/policy-definition.ts\<close>, \<^verbatim>\<open>shared/policy-parameters.ts\<close>,
    \<^verbatim>\<open>shared/topic-policy.ts\<close>, \<^verbatim>\<open>shared/pattern-validator.ts\<close>); the reading of drafts and
    the checks of bindings of \<^verbatim>\<open>server/domain/guardrail-plan.ts\<close> with
    \<^verbatim>\<open>shared/phrase-policy.ts\<close>. Shown: canonical text can be read back and ignores the order
    of members, accepted definitions are tested and resolve, accepted bindings are complete, in
    range and closed under the pinned Policy, and reading a stored draft again changes nothing.
  \<^item> \<^verbatim>\<open>Runner_Capacity\<close>, \<^verbatim>\<open>Runner_Sessions\<close>, \<^verbatim>\<open>Admission_Monitor\<close>: pool capacity and
    fleet status (\<^verbatim>\<open>server/domain/capacity.ts\<close>, \<^verbatim>\<open>server/domain/platform-status.ts\<close>); the
    registration, heartbeat, disconnection and removal of Runners in
    \<^verbatim>\<open>server/services/control-plane.ts\<close> with \<^verbatim>\<open>runner-control-sessions.ts\<close> and
    \<^verbatim>\<open>runner-lease-ledger.ts\<close>; the monitor of
    \<^verbatim>\<open>server/services/admission-monitor.ts\<close>. Shown: grants go only to the live stream that
    accepted the current snapshot, an ended stream never becomes current again, the tables stay
    consistent, the capacity figures are bounded and cover the demand, a fleet is healthy exactly
    under the tested conditions, and shown admission figures are backed by current reports.
  \<^item> \<^verbatim>\<open>Protection_Modes\<close>: the operating modes of \<^verbatim>\<open>server/services/protection-modes.ts\<close>
    over the same Runner tables. Shown over every run of the fleet and the service: a changed mode is
    not shown as applied before Runners acknowledge it and cannot be overwritten by a stale edit, it
    settles exactly when every allocated Runner has acknowledged it, and the Runners awaited are
    those of the pools the mode is sent to.
  \<^item> \<^verbatim>\<open>Endpoint_Credentials\<close>, \<^verbatim>\<open>Endpoint_Service\<close>: the stored credentials of
    \<^verbatim>\<open>server/services/endpoint-credentials.ts\<close> and the Endpoint workflows of
    \<^verbatim>\<open>server/services/control-plane.ts\<close> with the pool lookup of
    \<^verbatim>\<open>server/services/project-group-routing.ts\<close>. Shown over every run: an Endpoint keeps an active
    credential, a revoked one never becomes active again, every change is announced once under a new
    generation, and a deletion has checked traffic, telemetry and bindings.
  \<^item> \<^verbatim>\<open>Telemetry_Batches\<close>: the batching of \<^verbatim>\<open>server/services/telemetry-batches.ts\<close> over an
    arbitrary writer and clock. Shown: ingestion always returns, commits whole transactions of one to
    fifty events in order, and watermarks only advance.
  \<^item> \<^verbatim>\<open>Zip_Archive\<close>: the archive format of \<^verbatim>\<open>server/domain/zip.ts\<close> on 8-bit words.
    Shown: written archives read back, and reading any bytes ends in a refusal or in files within the
    limits under plain relative paths.
  \<^item> \<^verbatim>\<open>Work_Queue\<close>, \<^verbatim>\<open>Budgets\<close>: the keyed queue of \<^verbatim>\<open>server/work-queue.ts\<close> and the
    report and telemetry budgets (\<^verbatim>\<open>server/services/report-budget.ts\<close>,
    \<^verbatim>\<open>server/http/telemetry-upload-budget.ts\<close>). Shown: limits are never exceeded, no work is
    lost, and waiting work advances.

  \<^bold>\<open>Bounds and fuel.\<close> Loops are structural recursion or carry a termination measure; the telemetry
  loop, whose progress depends on a clock, is a partial function shown to return. The one function
  with fuel is the JSON reader: it gets twice the length of the text plus two, which the round trip
  shows to be enough for every text the writer produces. Decimal expansions are searched
  up to 344 places, beyond what a finite double can have.

  \<^bold>\<open>Not modelled.\<close> The Guardrail, Policy, validation and publication workflows of
  \<^verbatim>\<open>server/services/control-plane.ts\<close> and the setup text of its Endpoint view, the
  construction of plan steps in \<^verbatim>\<open>buildGuardrailPlan\<close>, model configuration, the gRPC control
  channel (generated code), route handlers, the contents of packages, metrics and reports (SQL), pricing
  (floating-point rounding), authentication libraries, migrations, data tables and the console. In
  the modelled services, advisory locks appear as the atomicity of a transaction, and the details of
  audit rows of the Runner and Router tables are reduced to kind, resource and actor.
\<close>

section \<open>Reviewed publication and request routing\<close>

lemma active_snapshot_publishable:
  assumes "reach router_init router_step db" "r \<in> set (db_routers db)" "rt_activeSnapshot r = Some snapshot"
  shows "routingIssues snapshot True = []"
proof -
  have inv: "router_inv db" by (rule routers.reachable_inv [OF assms(1)])
  then have "active_ok (db_revisions db) r" using assms(2) by (simp add: router_inv_def tables_ok_def)
  then obtain v where "v \<in> set (db_revisions db)" "rv_snapshot v = snapshot"
    using assms(3) by (auto simp: active_ok_def split: option.splits)
  then show ?thesis using inv by (auto simp: router_inv_def tables_ok_def recorded_def)
qed



section \<open>Distribution to Runners\<close>

lemma runtime_router_mem:
  assumes "rr \<in> set (runtime_router db projectIds r)"
  obtains snapshot revision where "rt_activeSnapshot r = Some snapshot" "rt_activeRevision r = Some revision"
    "rt_deletedAt r = None" "rt_projectId r \<in> set projectIds"
    "\<forall>route\<in>set snapshot. \<forall>t\<in>set (tr_targets route). \<not> target_unservable db r t"
    "rr_routerId rr = rt_id r" "rr_revision rr = revision"
    "set (rr_endpointIds rr) = ep_id ` {e \<in> set (db_endpoints db). \<not> ep_deleted e \<and> ep_projectId e \<in> set projectIds
          \<and> ep_trafficRouterId e = Some (rt_id r) \<and> ep_projectId e = rt_projectId r}"
    "rr_routes rr = map (\<lambda>r. (r, map (\<lambda>t. (t, serving_artifact db t)) (tr_targets r))) snapshot"
  using assms by (cases "rt_activeSnapshot r"; cases "rt_activeRevision r")
    (auto simp: runtime_router_def list_ex_iff intro!: that split: if_splits)

lemma serving_version_Some:
  assumes "serving_version db t = Some (v, g)"
  shows "v \<in> set (db_versions db)" "g \<in> set (db_guardrails db)" "gr_id g = gv_guardrailId v" "\<not> gr_deleted g"
    "gv_guardrailId v = tg_guardrailId t" "gv_version v = tg_guardrailVersion t"
  using find_Some_mem [OF assms [unfolded serving_version_def target_version_def]] by auto

lemma servable_target:
  assumes "\<not> target_unservable db r t" "tg_weightBps t > 0"
  shows "serving_artifact db t \<noteq> [] \<and>
      (\<exists>v\<in>set (db_versions db). \<exists>g\<in>set (db_guardrails db). gv_artifactId v = Some (serving_artifact db t) \<and>
        gv_guardrailId v = tg_guardrailId t \<and> gv_version v = tg_guardrailVersion t \<and>
        gr_id g = tg_guardrailId t \<and> \<not> gr_deleted g \<and> gr_projectId g = Some (rt_projectId r))"
proof -
  obtain v g where vg: "serving_version db t = Some (v, g)" "\<not> falsy (gv_artifactId v)" "gr_projectId g = Some (rt_projectId r)"
    using assms by (auto simp: target_unservable_def split: option.splits)
  moreover have "gv_artifactId v = Some (serving_artifact db t)" "serving_artifact db t \<noteq> []"
    using vg by (auto simp: serving_artifact_def falsy_def split: option.splits)
  ultimately show ?thesis using serving_version_Some [OF vg(1)] by (intro conjI bexI [of _ v] bexI [of _ g]) auto
qed

text \<open>Claim C6. Distribution keeps Projects apart: a Router snapshot handed to a set of Projects is
  the reviewed active snapshot of a live Router of one of them, under its active revision, bound
  only to live Endpoints of that same Project; every target that receives traffic names an existing
  version of a live Guardrail of the same Project and carries that version's artifact.\<close>

theorem distributed_routers_isolated:
  assumes "reach router_init router_step db" "rr \<in> set (runtimeSnapshots db projectIds)"
  shows "\<exists>r\<in>set (db_routers db). rr_routerId rr = rt_id r \<and> rt_deletedAt r = None \<and>
    rt_projectId r \<in> set projectIds \<and> Some (rr_revision rr) = rt_activeRevision r \<and>
    rt_activeSnapshot r = Some (map fst (rr_routes rr)) \<and> routingIssues (map fst (rr_routes rr)) True = [] \<and>
    (\<forall>e\<in>set (rr_endpointIds rr). \<exists>row\<in>set (db_endpoints db). ep_id row = e \<and> \<not> ep_deleted row \<and>
       ep_projectId row = rt_projectId r \<and> ep_trafficRouterId row = Some (rt_id r)) \<and>
    (\<forall>(route, targets)\<in>set (rr_routes rr). map fst targets = tr_targets route \<and>
       (\<forall>(t, artifact)\<in>set targets. tg_weightBps t > 0 \<longrightarrow> artifact \<noteq> [] \<and>
          (\<exists>v\<in>set (db_versions db). \<exists>g\<in>set (db_guardrails db). gv_artifactId v = Some artifact \<and>
             gv_guardrailId v = tg_guardrailId t \<and> gv_version v = tg_guardrailVersion t \<and>
             gr_id g = tg_guardrailId t \<and> \<not> gr_deleted g \<and> gr_projectId g = Some (rt_projectId r))))"
proof -
  obtain r where r: "r \<in> set (db_routers db)" and rr: "rr \<in> set (runtime_router db projectIds r)"
    using assms(2) by (auto simp: runtimeSnapshots_def split: if_splits)
  from rr obtain snapshot revision where s: "rt_activeSnapshot r = Some snapshot" "rt_activeRevision r = Some revision"
    "rt_deletedAt r = None" "rt_projectId r \<in> set projectIds"
    and ok: "\<forall>route\<in>set snapshot. \<forall>t\<in>set (tr_targets route). \<not> target_unservable db r t"
    and f: "rr_routerId rr = rt_id r" "rr_revision rr = revision"
    "set (rr_endpointIds rr) = ep_id ` {e \<in> set (db_endpoints db). \<not> ep_deleted e \<and> ep_projectId e \<in> set projectIds
          \<and> ep_trafficRouterId e = Some (rt_id r) \<and> ep_projectId e = rt_projectId r}"
    and routes: "rr_routes rr = map (\<lambda>r. (r, map (\<lambda>t. (t, serving_artifact db t)) (tr_targets r))) snapshot"
    by (rule runtime_router_mem)
  have fst: "map fst (rr_routes rr) = snapshot" by (simp add: routes comp_def)
  have "serving_artifact db t \<noteq> [] \<and>
      (\<exists>v\<in>set (db_versions db). \<exists>g\<in>set (db_guardrails db). gv_artifactId v = Some (serving_artifact db t) \<and>
        gv_guardrailId v = tg_guardrailId t \<and> gv_version v = tg_guardrailVersion t \<and>
        gr_id g = tg_guardrailId t \<and> \<not> gr_deleted g \<and> gr_projectId g = Some (rt_projectId r))"
    if "route \<in> set snapshot" "t \<in> set (tr_targets route)" "tg_weightBps t > 0" for route t
    using bspec [OF bspec [OF ok that(1)] that(2)] that(3) by (rule servable_target)
  then have "\<forall>(route, targets)\<in>set (rr_routes rr). map fst targets = tr_targets route \<and>
       (\<forall>(t, artifact)\<in>set targets. tg_weightBps t > 0 \<longrightarrow> artifact \<noteq> [] \<and>
          (\<exists>v\<in>set (db_versions db). \<exists>g\<in>set (db_guardrails db). gv_artifactId v = Some artifact \<and>
             gv_guardrailId v = tg_guardrailId t \<and> gv_version v = tg_guardrailVersion t \<and>
             gr_id g = tg_guardrailId t \<and> \<not> gr_deleted g \<and> gr_projectId g = Some (rt_projectId r)))"
    by (auto simp: routes comp_def)
  then show ?thesis
    using r s f fst active_snapshot_publishable [OF assms(1) r s(1)] by (intro bexI [of _ r]) auto
qed

theorem distributed_routers_isolated_witness:
  "\<exists>rr. runtimeSnapshots sample_published [''p1''] = [rr] \<and>
     (\<exists>r\<in>set (db_routers sample_published). rt_projectId r = ''p1'' \<and> rt_activeSnapshot r = Some (map fst (rr_routes rr)))"
proof -
  have one: "runtimeSnapshots sample_published [''p1''] = [hd (runtimeSnapshots sample_published [''p1''])]" by code_simp
  then have "hd (runtimeSnapshots sample_published [''p1'']) \<in> set (runtimeSnapshots sample_published [''p1''])"
    by (metis list.set_intros(1))
  from distributed_routers_isolated [OF sample_published_reachable this] one show ?thesis by fastforce
qed

end
